(* ===== verification/Base.thy ===== *)
theory Base
  imports Main "HOL-Library.Word"
begin

text \<open>
  The prelude of the development: the fixed-width integer types of the C sources, the
  enumerations of \<^verbatim>\<open>include/nxmt/types.h\<close>, the counting loop every C \<^verbatim>\<open>for\<close> of the
  core is an instance of, and the lemmas on words, lists and loops that the component
  theories share.  Bit operations are written \<open>AND\<close>, \<open>OR\<close>, \<open>XOR\<close>; a shift left is
  \<open>push_bit\<close>, an unsigned shift right is \<open>drop_bit\<close>.
\<close>

unbundle bit_operations_syntax

type_synonym u8 = "8 word"
type_synonym u32 = "32 word"
type_synonym u64 = "64 word"

named_theorems widx_simps \<open>arithmetic of word-sized pointer offsets\<close>

section \<open>Constants and enumerations of types.h\<close>

abbreviation NXMT_WORD_BYTES :: u64 where "NXMT_WORD_BYTES \<equiv> 8"
abbreviation NXMT_PAGE_BYTES :: u64 where "NXMT_PAGE_BYTES \<equiv> 4096"
abbreviation NXMT_MIB_BYTES :: u64 where "NXMT_MIB_BYTES \<equiv> 1048576"
abbreviation NXMT_GIB_BYTES :: u64 where "NXMT_GIB_BYTES \<equiv> 1073741824"
abbreviation UINT64_MAX :: u64 where "UINT64_MAX \<equiv> - 1"

datatype NxmtMode = NXMT_MODE_QUICK | NXMT_MODE_MEMORY_LOAD | NXMT_MODE_EXTREME

datatype NxmtPhase =
    NXMT_PHASE_FIXED_A | NXMT_PHASE_FIXED_5 | NXMT_PHASE_CHECKER
  | NXMT_PHASE_ADDRESS | NXMT_PHASE_RANDOM | NXMT_PHASE_WALKING
  | NXMT_PHASE_NARROW | NXMT_PHASE_BITSPREAD | NXMT_PHASE_STREAM

datatype NxmtStatus =
    NXMT_STATUS_PASS | NXMT_STATUS_FAIL | NXMT_STATUS_ABORTED | NXMT_STATUS_UNSUPPORTED

section \<open>The counting loop\<close>

text \<open>
  \<^verbatim>\<open>for (; k + step <= n; k += step) body\<close> over a state \<open>s\<close>; the result is the final
  state and the final counter, which the scalar tail loops of the core continue from.
  The counter is a natural number: in every use \<open>n\<close> is at most the chunk size, so the
  64-bit counter of the source does not wrap.  Every use has a positive literal step; the
  test \<open>0 < step\<close> only makes the function total.
\<close>

function for_by :: "nat \<Rightarrow> nat \<Rightarrow> nat \<Rightarrow> (nat \<Rightarrow> 's \<Rightarrow> 's) \<Rightarrow> 's \<Rightarrow> 's \<times> nat" where
  "for_by step k n body s =
     (if 0 < step \<and> k + step \<le> n then for_by step (k + step) n body (body k s) else (s, k))"
  by pat_completeness auto
termination
  by (relation "measure (\<lambda>(step, k, n, body, s). n - k)") auto

declare for_by.simps [simp del]

lemma for_by_inv:
  assumes "0 < step" and "I k s"
    and "\<And>j t. I j t \<Longrightarrow> j + step \<le> n \<Longrightarrow> I (j + step) (body j t)"
  shows "case for_by step k n body s of (s', k') \<Rightarrow>
    I k' s' \<and> k \<le> k' \<and> n < k' + step \<and> (k \<le> n \<longrightarrow> k' \<le> n)"
  using assms
proof (induction step k n body s rule: for_by.induct)
  case (1 step k n body s)
  show ?case
  proof (cases "k + step \<le> n")
    case True
    with "1.prems" have "I (k + step) (body k s)" by blast
    with True "1.prems"(1,3) "1.IH" show ?thesis
      by (auto simp: for_by.simps [of step k])
  next
    case False
    with "1.prems" show ?thesis by (auto simp: for_by.simps [of step k])
  qed
qed

lemma for_by_one:
  "k \<le> n \<Longrightarrow> for_by 1 k n body s = (fold body [k..<n] s, n)"
proof (induction "n - k" arbitrary: k s)
  case 0
  then show ?case by (simp add: for_by.simps)
next
  case (Suc d)
  then have "k < n" by simp
  moreover from Suc have "for_by 1 (k + 1) n body (body k s)
      = (fold body [k + 1..<n] (body k s), n)"
    by simp
  ultimately show ?case
    by (simp add: for_by.simps [of "Suc 0" k] upt_conv_Cons)
qed

text \<open>A loop over the whole range \<open>[0, n)\<close>, and its conditional form.\<close>

lemma fold_if_filter:
  "fold (\<lambda>k s. if P k then f k s else s) ks s = fold f (filter P ks) s"
  by (induction ks arbitrary: s) auto

lemma fold_cong_set:
  "(\<And>x s. x \<in> set xs \<Longrightarrow> f x s = g x s) \<Longrightarrow> fold f xs s = fold g xs s"
  by (induction xs arbitrary: s) auto

section \<open>Words\<close>

lemma unat_of_nat64: "n < 2 ^ 64 \<Longrightarrow> unat (of_nat n :: u64) = n"
  by (simp add: unat_of_nat)

lemma unat64_less: "unat x < 2 ^ 64" for x :: u64
  using unsigned_less [of x] by simp

lemma unat32_less: "unat x < 2 ^ 32" for x :: u32
  using unsigned_less [of x] by simp

lemma unat_ucast_32_64 [simp]: "unat (ucast x :: u64) = unat x" for x :: u32
proof -
  have "unat x < 2 ^ 64" using unat32_less [of x] by simp
  then show ?thesis by (simp only: unsigned_ucast_eq) (simp add: take_bit_nat_eq_self)
qed

lemma unat_UINT64_MAX [simp]: "unat UINT64_MAX = 18446744073709551615"
  by (simp add: unsigned_minus_1_eq_mask mask_eq_exp_minus_1)

lemma unat_add_small: "unat a + unat b < 2 ^ 64 \<Longrightarrow> unat (a + b) = unat a + unat b" for a b :: u64
  by (simp add: unat_word_ariths)

lemma unat_mult_small: "unat a * unat b < 2 ^ 64 \<Longrightarrow> unat (a * b) = unat a * unat b" for a b :: u64
  by (simp add: unat_word_ariths)

lemma unat_diff64: "unat (a - b) = (if unat b \<le> unat a then unat a - unat b else 2 ^ 64 + unat a - unat b)" for a b :: u64
  using unat_sub_if_size [of a b] by (auto simp: word_size)

lemma UINT64_MAX_minus_less: "UINT64_MAX - a < b \<longleftrightarrow> 2 ^ 64 \<le> unat a + unat b" for a b :: u64
proof -
  have "unat (UINT64_MAX - a) = 2 ^ 64 - 1 - unat a"
    by (subst unat_sub) simp_all
  then show ?thesis using unat64_less [of a] by (simp add: word_less_nat_alt) arith
qed

lemma word_eq_iff_unat: "(a = b) = (unat a = unat b)" for a b :: "'a::len word"
  by (simp add: word_unat_eq_iff)

lemma xor_eq_0_iff_word [simp]: "(a XOR b = 0) = (a = b)" for a b :: "'a::len word"
  by (metis xor.assoc xor.left_neutral xor_self_eq)

lemma xor_right_cancel: "a XOR c = b XOR c \<longleftrightarrow> a = b" for a b c :: "'a::len word"
proof
  assume "a XOR c = b XOR c"
  then have "(a XOR c) XOR c = (b XOR c) XOR c" by simp
  then show "a = b" by (simp only: xor.assoc xor_self_eq xor.right_neutral)
qed simp

lemma or_eq_0_iff_word [simp]: "(a OR b = 0) = (a = 0 \<and> b = 0)" for a b :: "'a::len word"
  by (simp add: or_eq_0_iff)

lemma of_nat_add_numeral64 [widx_simps]:
  "of_nat (k + numeral w) = (of_nat k + numeral w :: u64)"
  by simp

lemma and_mask_eq_mod: "unat (x AND 2 ^ n - 1) = unat x mod 2 ^ n" for x :: u64
proof -
  have "x AND 2 ^ n - 1 = take_bit n x"
    by (simp add: take_bit_eq_mask mask_eq_exp_minus_1)
  moreover have "unat (take_bit n x) = take_bit n (unat x)"
    by (rule unsigned_take_bit_eq)
  ultimately show ?thesis by (simp only: take_bit_eq_mod)
qed

lemma and_one_iff_odd: "((x AND 1) \<noteq> 0) = odd (unat x)" for x :: u64
proof -
  have "unat (x AND 1) = unat x mod 2" using and_mask_eq_mod [of x 1] by simp
  then show ?thesis
    by (metis odd_iff_mod_2_eq_one one_neq_zero mod2_eq_if unat_0 unat_eq_zero)
qed

end
