(* ===== verification/Memory.thy ===== *)
theory Memory
  imports Base
begin

text \<open>
  The memory the test runs on: bytes at 64-bit addresses, words read and written
  little-endian (the byte order of AArch64 and of the x86 hosts of the unit tests).  A C
  lvalue \<open>p[k]\<close> of a \<^verbatim>\<open>uint64_t *p\<close> is the word at \<open>widx p k\<close>, that is at the byte address
  \<open>p + 8 k\<close>.  \<open>memset\<close> is the library function the fixed phases use.

  The locale \<^term>\<open>word_memory\<close> states what the rest of the development needs of word
  access, and \<open>fill\<close>, the memory after \<open>n\<close> consecutive word stores, with what a later read
  finds there.  It is interpreted on the byte memory.
\<close>

unbundle bit_operations_syntax

type_synonym mem = "u64 \<Rightarrow> u8"

section \<open>Bytes of a word\<close>

definition byte_of :: "u64 \<Rightarrow> nat \<Rightarrow> u8" where
  "byte_of w i = ucast (drop_bit (8 * i) w)"

definition bytes_of :: "u64 \<Rightarrow> u8 list" where
  "bytes_of w = map (byte_of w) [0..<8]"

fun word_of_bytes :: "u8 list \<Rightarrow> u64" where
  "word_of_bytes [] = 0"
| "word_of_bytes (b # bs) = ucast b OR push_bit 8 (word_of_bytes bs)"

definition bswap64 :: "u64 \<Rightarrow> u64" where
  "bswap64 w = word_of_bytes (rev (bytes_of w))"

lemma bit_word_of_bytes:
  "bit (word_of_bytes bs) n
    = (n < 64 \<and> n div 8 < length bs \<and> bit (bs ! (n div 8)) (n mod 8))"
proof (induction bs arbitrary: n)
  case Nil
  then show ?case by simp
next
  case (Cons b bs)
  show ?case
  proof (cases "n < 8")
    case True
    then show ?thesis by (auto simp: bit_simps)
  next
    case False
    then obtain m where n: "n = m + 8" by (metis add.commute le_add_diff_inverse not_less)
    have "\<not> bit b (m + 8)" by (simp add: bit_word.rep_eq)
    then show ?thesis using Cons [of m] n
      by (auto simp: bit_simps div_add_self2)
  qed
qed

lemma bit_byte_of: "bit (byte_of w i) n = (n < 8 \<and> bit w (8 * i + n))"
  by (simp add: byte_of_def bit_simps)

lemma length_bytes_of [simp]: "length (bytes_of w) = 8"
  by (simp add: bytes_of_def)

lemma nth_bytes_of [simp]: "i < 8 \<Longrightarrow> bytes_of w ! i = byte_of w i"
  by (simp add: bytes_of_def)

lemma word_of_bytes_of [simp]: "word_of_bytes (bytes_of w) = w"
proof (rule bit_word_eqI)
  fix n assume "n < LENGTH(64)"
  then have "n < 64" "n div 8 < 8" by auto
  then show "bit (word_of_bytes (bytes_of w)) n = bit w n"
    by (simp add: bit_word_of_bytes bit_byte_of)
qed

lemma byte_of_word_of_bytes:
  assumes "length bs = 8" and "i < 8"
  shows "byte_of (word_of_bytes bs) i = bs ! i"
proof (rule bit_word_eqI)
  fix n assume "n < LENGTH(8)"
  with assms show "bit (byte_of (word_of_bytes bs) i) n = bit (bs ! i) n"
    by (auto simp: bit_byte_of bit_word_of_bytes)
qed

lemma bytes_of_word_of_bytes: "length bs = 8 \<Longrightarrow> bytes_of (word_of_bytes bs) = bs"
  by (rule nth_equalityI) (auto simp: byte_of_word_of_bytes)

lemma bswap64_bswap64 [simp]: "bswap64 (bswap64 w) = w"
  by (simp add: bswap64_def bytes_of_word_of_bytes)

lemma word_eq_iff_bytes: "(a = b) = (\<forall>i<8. byte_of a i = byte_of b i)"
proof
  assume "\<forall>i<8. byte_of a i = byte_of b i"
  then have "bytes_of a = bytes_of b" by (intro nth_equalityI) auto
  then show "a = b" by (metis word_of_bytes_of)
qed simp

section \<open>Word access\<close>

definition store8 :: "mem \<Rightarrow> u64 \<Rightarrow> u8 \<Rightarrow> mem" where
  "store8 m a b = m(a := b)"

definition load64 :: "mem \<Rightarrow> u64 \<Rightarrow> u64" where
  "load64 m a = word_of_bytes (map (\<lambda>i. m (a + of_nat i)) [0..<8])"

definition store64 :: "mem \<Rightarrow> u64 \<Rightarrow> u64 \<Rightarrow> mem" where
  "store64 m a w = (\<lambda>x. if x - a < 8 then byte_of w (unat (x - a)) else m x)"

definition aligned8 :: "u64 \<Rightarrow> bool" where
  "aligned8 a \<longleftrightarrow> a mod 8 = 0"

definition widx :: "u64 \<Rightarrow> nat \<Rightarrow> u64" where
  "widx p k = p + 8 * of_nat k"

text \<open>\<^verbatim>\<open>memset(p, c, n)\<close>: \<open>n\<close> bytes from \<open>p\<close> set to \<open>c\<close>, in ascending order.\<close>

definition memset :: "mem \<Rightarrow> u64 \<Rightarrow> u8 \<Rightarrow> nat \<Rightarrow> mem" where
  "memset m p c n = fst (for_by 1 0 n (\<lambda>i m. store8 m (p + of_nat i) c) m)"

lemma widx_0 [simp]: "widx p 0 = p"
  by (simp add: widx_def)

lemma widx_add [widx_simps]: "widx (widx p i) j = widx p (i + j)"
  by (simp add: widx_def algebra_simps)

lemma widx_numeral [widx_simps]: "widx p (k + numeral w) = widx p k + 8 * numeral w"
  by (simp add: widx_def algebra_simps)

lemma widx_Suc [widx_simps]: "widx p (Suc k) = widx p k + 8"
  by (simp add: widx_def algebra_simps)

lemma aligned8_iff: "aligned8 a \<longleftrightarrow> 8 dvd unat a"
proof -
  have "unat (a mod 8) = unat a mod 8" by (simp add: unat_mod)
  then show ?thesis
    by (metis aligned8_def dvd_eq_mod_eq_0 unat_eq_zero)
qed

lemma aligned8_add: "aligned8 a \<Longrightarrow> aligned8 (a + 8 * b)"
proof -
  assume "aligned8 a"
  then obtain c where c: "unat a = 8 * c" by (auto simp: aligned8_iff dvd_def)
  have "unat (a + 8 * b) = (8 * c + 8 * unat b) mod 2 ^ 64"
    by (simp add: unat_word_ariths c mod_simps)
  also have "8 dvd \<dots>"
    by (rule dvd_mod) (auto simp: dvd_add)
  finally show ?thesis by (simp add: aligned8_iff)
qed

lemma aligned8_widx [simp]: "aligned8 p \<Longrightarrow> aligned8 (widx p k)"
  by (simp add: widx_def aligned8_add)

lemma load64_store64 [simp]: "load64 (store64 m a w) a = w"
proof -
  have "map (\<lambda>i. store64 m a w (a + of_nat i)) [0..<8] = bytes_of w"
  proof (rule nth_equalityI)
    fix i assume "i < length (map (\<lambda>i. store64 m a w (a + of_nat i)) [0..<8])"
    then have i: "i < 8" by simp
    then have u: "unat (of_nat i :: u64) = i" by (simp add: unat_of_nat)
    with i have "(of_nat i :: u64) < 8" by (simp add: word_less_nat_alt)
    with i u show "map (\<lambda>i. store64 m a w (a + of_nat i)) [0..<8] ! i = bytes_of w ! i"
      by (simp add: store64_def)
  qed simp
  then show ?thesis by (simp add: load64_def)
qed

lemma aligned8_diff_not_less:
  assumes "aligned8 a" and "aligned8 b" and "a \<noteq> b" and "i < 8"
  shows "\<not> b + of_nat i - a < 8"
proof
  assume less: "b + of_nat i - a < 8"
  define d where "d = b + of_nat i - a"
  then have "b + of_nat i = a + d" by simp
  then have "unat (b + of_nat i) mod 8 = unat (a + d) mod 8" by simp
  moreover have "unat d < 8" using less by (simp add: d_def word_less_nat_alt)
  moreover have "unat (x + y) mod 8 = (unat x + unat y) mod 8" for x y :: u64
    by (simp add: unat_word_ariths mod_mod_cancel)
  moreover have "unat (of_nat i :: u64) = i" using assms(4) by (simp add: unat_of_nat)
  moreover have "unat a mod 8 = 0" "unat b mod 8 = 0"
    using assms(1,2) by (auto simp: aligned8_iff)
  ultimately have "i = unat d"
    using assms(4) by (metis (no_types) add_cancel_left_left mod_add_eq mod_less)
  then have "of_nat i = d" by simp
  with \<open>b + of_nat i = a + d\<close> have "b = a" by simp
  with assms(3) show False by simp
qed

lemma load64_store64_other:
  assumes "aligned8 a" and "aligned8 b" and "a \<noteq> b"
  shows "load64 (store64 m a w) b = load64 m b"
proof -
  have "map (\<lambda>i. store64 m a w (b + of_nat i)) [0..<8] = map (\<lambda>i. m (b + of_nat i)) [0..<8]"
    by (rule map_cong) (use aligned8_diff_not_less [OF assms] in \<open>auto simp: store64_def\<close>)
  then show ?thesis by (simp only: load64_def)
qed

lemma load64_cong:
  "(\<And>i. i < 8 \<Longrightarrow> m (a + of_nat i) = m' (a + of_nat i)) \<Longrightarrow> load64 m a = load64 m' a"
  by (auto simp: load64_def intro!: arg_cong [where f = word_of_bytes])

section \<open>Consecutive stores\<close>

text \<open>
  The memory after the stores \<^verbatim>\<open>p[0] = f(0); ...; p[n-1] = f(n-1);\<close>, for any store
  operation.  It is the meeting point of the development: every writer of the runner is
  proved to be such a fill, and the locale below says what a read finds after it.
\<close>

primrec fill_with :: "('m \<Rightarrow> u64 \<Rightarrow> u64 \<Rightarrow> 'm) \<Rightarrow> u64 \<Rightarrow> (nat \<Rightarrow> u64) \<Rightarrow> nat \<Rightarrow> 'm \<Rightarrow> 'm" where
  "fill_with st p f 0 m = m"
| "fill_with st p f (Suc n) m = st (fill_with st p f n m) (widx p n) (f n)"

abbreviation fill :: "u64 \<Rightarrow> (nat \<Rightarrow> u64) \<Rightarrow> nat \<Rightarrow> mem \<Rightarrow> mem" where
  "fill \<equiv> fill_with store64"

lemma fill_with_cong:
  "(\<And>i. i < n \<Longrightarrow> f i = g i) \<Longrightarrow> fill_with st p f n m = fill_with st p g n m"
  by (induction n) auto

lemma fill_with_add:
  "fill_with st p f (n + k) m
    = fill_with st (widx p n) (\<lambda>i. f (n + i)) k (fill_with st p f n m)"
  by (induction k) (auto simp: widx_simps)

lemma widx_inj:
  assumes "widx p i = widx p j" and "i < 2 ^ 61" and "j < 2 ^ 61"
  shows "i = j"
proof -
  have u: "unat (8 * of_nat k :: u64) = 8 * k" if "k < 2 ^ 61" for k
    using that by (simp add: unat_word_ariths unat_of_nat)
  from assms(1) have "(8 * of_nat i :: u64) = 8 * of_nat j" by (simp add: widx_def)
  then have "unat (8 * of_nat i :: u64) = unat (8 * of_nat j :: u64)" by simp
  with assms(2,3) show ?thesis by (simp add: u)
qed

locale word_memory =
  fixes load :: "'m \<Rightarrow> u64 \<Rightarrow> u64"
    and store :: "'m \<Rightarrow> u64 \<Rightarrow> u64 \<Rightarrow> 'm"
    and ok :: "u64 \<Rightarrow> bool"
  assumes load_store: "ok a \<Longrightarrow> load (store m a w) a = w"
    and load_store_other:
      "ok a \<Longrightarrow> ok b \<Longrightarrow> a \<noteq> b \<Longrightarrow> load (store m a w) b = load m b"
    and ok_widx: "ok p \<Longrightarrow> ok (widx p k)"
begin

lemma load_fill_other:
  assumes "ok p" and "ok a" and "\<And>i. i < n \<Longrightarrow> a \<noteq> widx p i"
  shows "load (fill_with store p f n m) a = load m a"
  using assms(3)
proof (induction n)
  case 0
  then show ?case by simp
next
  case (Suc n)
  have "widx p n \<noteq> a" using Suc.prems by auto
  then have "load (fill_with store p f (Suc n) m) a = load (fill_with store p f n m) a"
    using assms(1,2) by (simp add: load_store_other ok_widx)
  with Suc show ?case by simp
qed

lemma load_fill:
  assumes "ok p" and "i < n" and "n \<le> 2 ^ 61"
  shows "load (fill_with store p f n m) (widx p i) = f i"
  using assms(2,3)
proof (induction n)
  case 0
  then show ?case by simp
next
  case (Suc n)
  show ?case
  proof (cases "i = n")
    case True
    with assms(1) show ?thesis by (simp add: load_store ok_widx)
  next
    case False
    with Suc.prems have "i < n" "i < 2 ^ 61" "n < 2 ^ 61" by auto
    with False have "widx p n \<noteq> widx p i" by (metis widx_inj)
    with assms(1) Suc \<open>i < n\<close> show ?thesis
      by (simp add: load_store_other ok_widx)
  qed
qed

end

interpretation wm: word_memory load64 store64 aligned8
  by unfold_locales (auto simp: load64_store64_other)

section \<open>The bytes of a range of words\<close>

definition in_slice :: "u64 \<Rightarrow> nat \<Rightarrow> u64 \<Rightarrow> bool" where
  "in_slice p n x \<longleftrightarrow> (\<exists>k<n. x - widx p k < 8)"

lemma in_slice_word:
  assumes "k < n" and "i < 8"
  shows "in_slice p n (widx p k + of_nat i)"
proof -
  have "unat (of_nat i :: u64) = i" using assms(2) by (simp add: unat_of_nat)
  with assms show ?thesis by (auto simp: in_slice_def word_less_nat_alt intro!: exI [of _ k])
qed

lemma in_slice_bound:
  assumes "in_slice p n x" and "n \<le> 2 ^ 61"
  shows "unat (x - p) < 8 * n"
proof -
  from assms(1) obtain k where k: "k < n" "x - widx p k < 8" by (auto simp: in_slice_def)
  then have r: "unat (x - widx p k) < 8" by (simp add: word_less_nat_alt)
  have u: "unat (8 * of_nat k :: u64) = 8 * k" using k(1) assms(2) by (simp add: unat_word_ariths unat_of_nat)
  have "x - p = 8 * of_nat k + (x - widx p k)" by (simp add: widx_def)
  also have "unat \<dots> = 8 * k + unat (x - widx p k)"
    using r u k(1) assms(2) by (subst unat_add_small) simp_all
  finally show ?thesis using r k(1) by simp
qed

lemma store64_frame: "\<not> x - a < 8 \<Longrightarrow> store64 m a w x = m x"
  by (simp add: store64_def)

lemma fill_frame: "\<not> in_slice p n x \<Longrightarrow> fill p f n m x = m x"
proof (induction n)
  case (Suc n)
  then have "\<not> x - widx p n < 8" "\<not> in_slice p n x" by (auto simp: in_slice_def less_Suc_eq)
  with Suc.IH show ?case by (simp add: store64_frame)
qed simp

lemma store64_pointwise: "m x = m' x \<Longrightarrow> store64 m a w x = store64 m' a w x"
  by (simp add: store64_def)

lemma fill_pointwise: "m x = m' x \<Longrightarrow> fill p f n m x = fill p f n m' x"
  by (induction n) (auto intro: store64_pointwise)

section \<open>Byte-wise stores\<close>

lemma fold_byte_stores_apply:
  "n < 2 ^ 64 \<Longrightarrow> fold (\<lambda>i m. store8 m (a + of_nat i) (g i)) [0..<n] m x
    = (if unat (x - a) < n then g (unat (x - a)) else m x)" for m :: mem
proof (induction n)
  case 0
  then show ?case by simp
next
  case (Suc n)
  then have u: "unat (of_nat n :: u64) = n" by (simp add: unat_of_nat)
  have "x = a + of_nat n \<longleftrightarrow> unat (x - a) = n"
  proof
    assume "unat (x - a) = n"
    moreover have "of_nat (unat (x - a)) = x - a" by simp
    ultimately have "x - a = of_nat n" by simp
    then show "x = a + of_nat n" by (simp add: diff_eq_eq add.commute)
  qed (use u in simp)
  with Suc show ?case by (auto simp: less_Suc_eq store8_def)
qed

lemma store64_bytes:
  "fold (\<lambda>i m. store8 m (a + of_nat i) (byte_of w i)) [0..<8] m = store64 m a w"
proof
  fix x
  have "(8 :: nat) < 2 ^ 64" by simp
  then show "fold (\<lambda>i m. store8 m (a + of_nat i) (byte_of w i)) [0..<8] m x = store64 m a w x"
    by (subst fold_byte_stores_apply) (auto simp: store64_def word_less_nat_alt)
qed

lemma fold_byte_stores:
  "fold (\<lambda>i m. store8 m (p + of_nat i) (g i)) [0..<8 * n] m
    = fill p (\<lambda>k. word_of_bytes (map (\<lambda>j. g (8 * k + j)) [0..<8])) n m"
proof (induction n)
  case 0
  then show ?case by simp
next
  case (Suc n)
  let ?w = "word_of_bytes (map (\<lambda>j. g (8 * n + j)) [0..<8])"
  have split: "[0..<8 * Suc n] = [0..<8 * n] @ map (\<lambda>j. 8 * n + j) [0..<8]"
    by (rule nth_equalityI) (auto simp: nth_append simp del: upt_Suc)
  have "fold (\<lambda>i m. store8 m (p + of_nat i) (g i)) (map (\<lambda>j. 8 * n + j) [0..<8]) m'
      = fold (\<lambda>i m. store8 m (widx p n + of_nat i) (byte_of ?w i)) [0..<8] m'" for m' :: mem
    unfolding fold_map
    by (rule fold_cong_set) (simp add: byte_of_word_of_bytes widx_def algebra_simps)
  then show ?case
    by (simp add: split Suc.IH store64_bytes del: upt_Suc mult_Suc_right)
qed

lemma memset_fill:
  "memset m p c (8 * n) = fill p (\<lambda>_. word_of_bytes (replicate 8 c)) n m"
proof -
  have "map (\<lambda>j. c) [0..<8] = replicate 8 c"
    by (simp add: map_replicate_const)
  then show ?thesis
    by (simp add: memset_def for_by_one [simplified] fold_byte_stores)
qed

end
