(* ===== verification/Neon.thy ===== *)
theory Neon
  imports Memory
begin

text \<open>
  The AArch64 vector operations of \<^verbatim>\<open><arm_neon.h>\<close> that \<^verbatim>\<open>runner.c\<close> and
  \<^verbatim>\<open>gpu_pump.c\<close> use, with the meaning the architecture gives them: a 128-bit register
  is two 64-bit lanes (lane 0 at the lower address), or the sixteen bytes of the two lanes
  for \<open>vrev64q_u8\<close>.  Signed lanes are words read in two's complement.
\<close>

unbundle bit_operations_syntax

type_synonym uint64x2_t = "u64 \<times> u64"

definition vdupq_n_u64 :: "u64 \<Rightarrow> uint64x2_t" where
  "vdupq_n_u64 x = (x, x)"

fun vsetq_lane_u64 :: "u64 \<Rightarrow> uint64x2_t \<Rightarrow> nat \<Rightarrow> uint64x2_t" where
  "vsetq_lane_u64 v (x, y) lane = (if lane = 0 then (v, y) else (x, v))"

fun vgetq_lane_u64 :: "uint64x2_t \<Rightarrow> nat \<Rightarrow> u64" where
  "vgetq_lane_u64 (x, y) lane = (if lane = 0 then x else y)"

fun veorq_u64 :: "uint64x2_t \<Rightarrow> uint64x2_t \<Rightarrow> uint64x2_t" where
  "veorq_u64 (a, b) (c, d) = (a XOR c, b XOR d)"

fun vorrq_u64 :: "uint64x2_t \<Rightarrow> uint64x2_t \<Rightarrow> uint64x2_t" where
  "vorrq_u64 (a, b) (c, d) = (a OR c, b OR d)"

fun vandq_s64 :: "uint64x2_t \<Rightarrow> uint64x2_t \<Rightarrow> uint64x2_t" where
  "vandq_s64 (a, b) (c, d) = (a AND c, b AND d)"

fun vaddq_u64 :: "uint64x2_t \<Rightarrow> uint64x2_t \<Rightarrow> uint64x2_t" where
  "vaddq_u64 (a, b) (c, d) = (a + c, b + d)"

text \<open>
  \<open>SSHL\<close>: each lane is shifted by the signed low byte of the other operand's lane, to the
  left when it is not negative and arithmetically to the right when it is.
\<close>

definition sshl64 :: "u64 \<Rightarrow> u64 \<Rightarrow> u64" where
  "sshl64 x s = (let sh = sint (ucast s :: 8 word) in
     if 0 \<le> sh then push_bit (nat sh) x else signed_drop_bit (nat (- sh)) x)"

fun vshlq_s64 :: "uint64x2_t \<Rightarrow> uint64x2_t \<Rightarrow> uint64x2_t" where
  "vshlq_s64 (a, b) (c, d) = (sshl64 a c, sshl64 b d)"

fun vreinterpretq_u8_u64 :: "uint64x2_t \<Rightarrow> u8 list" where
  "vreinterpretq_u8_u64 (a, b) = bytes_of a @ bytes_of b"

definition vreinterpretq_u64_u8 :: "u8 list \<Rightarrow> uint64x2_t" where
  "vreinterpretq_u64_u8 bs = (word_of_bytes (take 8 bs), word_of_bytes (drop 8 bs))"

definition vrev64q_u8 :: "u8 list \<Rightarrow> u8 list" where
  "vrev64q_u8 bs = rev (take 8 bs) @ rev (drop 8 bs)"

fun vst1q_u64 :: "mem \<Rightarrow> u64 \<Rightarrow> uint64x2_t \<Rightarrow> mem" where
  "vst1q_u64 m a (x, y) = store64 (store64 m a x) (a + 8) y"

definition vld1q_u64 :: "mem \<Rightarrow> u64 \<Rightarrow> uint64x2_t" where
  "vld1q_u64 m a = (load64 m a, load64 m (a + 8))"

section \<open>Facts the runner's vector loops use\<close>

lemma vrev64q_u8_bswap64 [simp]:
  "vreinterpretq_u64_u8 (vrev64q_u8 (bytes_of a @ bytes_of b)) = (bswap64 a, bswap64 b)"
  by (simp add: vreinterpretq_u64_u8_def vrev64q_u8_def bswap64_def)

text \<open>A shift amount masked to six bits is a plain shift to the left.\<close>

lemma sshl64_masked: "sshl64 x (s AND 63) = push_bit (unat (s AND 63)) x"
proof -
  define t where "t = s AND 63"
  have "unat t < 64"
    using and_mask_eq_mod [of s 6] by (simp add: t_def)
  then have u: "uint t < 64" unfolding uint_nat by linarith
  then have "take_bit 8 (uint t) = uint t"
    by (simp add: take_bit_int_eq_self)
  then have "uint (ucast t :: 8 word) = uint t"
    by (simp add: unsigned_ucast_eq)
  moreover have "signed_take_bit 7 (uint t) = uint t"
    using u by (simp add: signed_take_bit_int_eq_self_iff order_trans [OF _ uint_ge_0])
  ultimately have "sint (ucast t :: 8 word) = uint t"
    by (simp add: sint_uint)
  then show ?thesis
    by (simp add: sshl64_def flip: t_def)
qed

text \<open>The lane-wise operations as rewrite rules on pairs.\<close>

lemmas neon_simps = vdupq_n_u64_def vld1q_u64_def sshl64_masked

end
