(* ===== verification/Patterns.thy ===== *)
theory Patterns
  imports Memory
begin

text \<open>
  \<^verbatim>\<open>source/core/patterns.c\<close>: the deterministic pattern functions, and what makes them
  useful as test patterns: \<open>nxmt_mix64\<close> is a bijection, \<open>ADDRESS\<close> and \<open>RANDOM\<close> give
  different words to different positions, \<open>WALKING\<close> sets one bit, \<open>STREAM\<close> has period
  8 KiB, the two fixed patterns drive every bit to both values.
\<close>

unbundle bit_operations_syntax

definition nxmt_make_seed :: "u32 \<Rightarrow> u32 \<Rightarrow> u64" where
  "nxmt_make_seed high low = push_bit 32 (ucast high) OR ucast low"

definition nxmt_mix64 :: "u64 \<Rightarrow> u64" where
  "nxmt_mix64 value =
     (let value = value + 0x9e3779b97f4a7c15;
          value = (value XOR drop_bit 30 value) * 0xbf58476d1ce4e5b9;
          value = (value XOR drop_bit 27 value) * 0x94d049bb133111eb
      in value XOR drop_bit 31 value)"

definition nxmt_expected_value :: "u64 \<Rightarrow> NxmtPhase \<Rightarrow> u64 \<Rightarrow> u64 \<Rightarrow> u64" where
  "nxmt_expected_value seed phase pass offset =
     (let word_index = offset div NXMT_WORD_BYTES in
      case phase of
        NXMT_PHASE_FIXED_A \<Rightarrow> 0xaaaaaaaaaaaaaaaa
      | NXMT_PHASE_FIXED_5 \<Rightarrow> 0x5555555555555555
      | NXMT_PHASE_CHECKER \<Rightarrow>
          (if word_index AND 1 \<noteq> 0 then 0x5555555555555555 else 0xaaaaaaaaaaaaaaaa)
      | NXMT_PHASE_ADDRESS \<Rightarrow> offset XOR seed XOR (pass * 0x100000001b3)
      | NXMT_PHASE_RANDOM \<Rightarrow> bswap64 word_index XOR seed XOR (pass * 0x9e3779b97f4a7c15)
      | NXMT_PHASE_WALKING \<Rightarrow>
          (let bit = unat ((word_index + pass) AND 63) in push_bit bit 1)
      | NXMT_PHASE_NARROW \<Rightarrow>
          (let X = (offset + pass * 8) AND 0xff
           in (X * 0x0101010101010101) XOR 0x0706050403020100 XOR seed)
      | NXMT_PHASE_BITSPREAD \<Rightarrow>
          (if (word_index + pass) AND 1 \<noteq> 0 then 0xb6db6db6db6db6db else 0x4924924924924924)
      | NXMT_PHASE_STREAM \<Rightarrow> (offset AND 0x1fff) XOR seed XOR (pass * 0xbf58476d1ce4e5b9))"

definition nxmt_next_offset :: "u64 \<Rightarrow> u64 \<Rightarrow> u64 \<Rightarrow> u64 \<Rightarrow> u64" where
  "nxmt_next_offset seed pass index arena_words =
     (if arena_words = 0 then 0
      else let mixed = nxmt_mix64 (seed XOR nxmt_mix64 pass XOR (index * 0xd6e8feb86659fd93))
           in (mixed mod arena_words) * NXMT_WORD_BYTES)"

section \<open>Invertibility of the mixer\<close>

text \<open>\<open>x \<mapsto> x XOR (x >> k)\<close> is injective: the top bits determine the rest.\<close>

lemma xor_drop_bit_inj:
  fixes x y :: u64
  assumes "x XOR drop_bit k x = y XOR drop_bit k y" and "0 < k"
  shows "x = y"
proof (rule bit_word_eqI)
  fix n assume "n < LENGTH(64)"
  then show "bit x n = bit y n"
  proof (induction "64 - n" arbitrary: n rule: less_induct)
    case less
    have "bit (x XOR drop_bit k x) n = bit (y XOR drop_bit k y) n" using assms by simp
    then have eq: "(bit x n \<noteq> bit x (n + k)) = (bit y n \<noteq> bit y (n + k))"
      by (simp add: bit_simps add.commute)
    show ?case
    proof (cases "n + k < 64")
      case True
      with assms(2) less have "bit x (n + k) = bit y (n + k)" by auto
      with eq show ?thesis by auto
    next
      case False
      then have "\<not> bit x (n + k)" "\<not> bit y (n + k)" by (auto simp: bit_word.rep_eq)
      with eq show ?thesis by auto
    qed
  qed
qed

lemma xor_push_bit_inj:
  fixes x y :: u64
  assumes "x XOR push_bit k x = y XOR push_bit k y" and "0 < k"
  shows "x = y"
proof (rule bit_word_eqI)
  fix n assume "n < LENGTH(64)"
  then show "bit x n = bit y n"
  proof (induction n rule: less_induct)
    case (less n)
    have "bit (x XOR push_bit k x) n = bit (y XOR push_bit k y) n" using assms by simp
    then have eq: "(bit x n \<noteq> (k \<le> n \<and> bit x (n - k))) = (bit y n \<noteq> (k \<le> n \<and> bit y (n - k)))"
      using less.prems by (simp add: bit_simps)
    show ?case
    proof (cases "k \<le> n")
      case True
      with assms(2) less have "bit x (n - k) = bit y (n - k)" by auto
      with eq show ?thesis by auto
    next
      case False
      with eq show ?thesis by auto
    qed
  qed
qed

lemma mult_inverse_inj: "a * b = 1 \<Longrightarrow> x * a = y * a \<Longrightarrow> x = y" for a b x y :: u64
proof -
  assume ab: "a * b = 1" and eq: "x * a = y * a"
  have "z = z * a * b" for z :: u64 by (simp add: mult.assoc ab)
  from this [of x] this [of y] show "x = y" by (simp only: eq)
qed

lemma nxmt_mix64_eq_iff: "nxmt_mix64 x = nxmt_mix64 y \<longleftrightarrow> x = y"
proof
  assume eq: "nxmt_mix64 x = nxmt_mix64 y"
  define a where "a v = v + (0x9e3779b97f4a7c15 :: u64)" for v
  define b where "b v = (v XOR drop_bit 30 v) * (0xbf58476d1ce4e5b9 :: u64)" for v
  define c where "c v = (v XOR drop_bit 27 v) * (0x94d049bb133111eb :: u64)" for v
  have mix: "nxmt_mix64 v = c (b (a v)) XOR drop_bit 31 (c (b (a v)))" for v
    by (simp add: nxmt_mix64_def a_def b_def c_def Let_def)
  have b: "v = w" if "b v = b w" for v w
  proof -
    have "0xbf58476d1ce4e5b9 * 0x96de1b173f119089 = (1 :: u64)" by simp
    from mult_inverse_inj [OF this] that
    have "v XOR drop_bit 30 v = w XOR drop_bit 30 w" unfolding b_def by blast
    then show ?thesis by (rule xor_drop_bit_inj) simp
  qed
  have c: "v = w" if "c v = c w" for v w
  proof -
    have "0x94d049bb133111eb * 0x319642b2d24d8ec3 = (1 :: u64)" by simp
    from mult_inverse_inj [OF this] that
    have "v XOR drop_bit 27 v = w XOR drop_bit 27 w" unfolding c_def by blast
    then show ?thesis by (rule xor_drop_bit_inj) simp
  qed
  from eq have "c (b (a x)) = c (b (a y))" unfolding mix by (rule xor_drop_bit_inj) simp
  then have "a x = a y" by (blast dest: b c)
  then show "x = y" by (simp add: a_def)
qed simp

section \<open>Expected words of a chunk\<close>

text \<open>
  The expected value of the \<open>k\<close>-th word of a chunk that starts at \<open>start_word\<close>: the offset
  is the byte offset from the arena base.  Below 2^61 words the offset does not wrap and its
  word index is \<open>start_word + k\<close>.
\<close>

definition expected_word :: "u64 \<Rightarrow> NxmtPhase \<Rightarrow> u64 \<Rightarrow> u64 \<Rightarrow> nat \<Rightarrow> u64" where
  "expected_word seed phase pass start_word k
     = nxmt_expected_value seed phase pass ((start_word + of_nat k) * 8)"

lemma word_index_of_offset:
  fixes start :: u64
  assumes "unat start + k < 2 ^ 61"
  shows "(start + of_nat k) * 8 div 8 = start + of_nat k"
proof -
  have "unat (start + of_nat k) = unat start + k"
    using assms by (simp add: unat_word_ariths unat_of_nat)
  then have "unat (start + of_nat k) * unat (8 :: u64) < 2 ^ LENGTH(64)"
    using assms by simp
  then show ?thesis by (intro word_div_mult) simp_all
qed

lemma parity_start_plus: "((start + of_nat k) AND 1 \<noteq> 0) = ((start AND 1 \<noteq> 0) \<noteq> odd k)" for start :: u64
proof -
  have "unat (start + of_nat k) mod 2 = (unat start + k) mod 2 ^ 64 mod 2"
    by (simp add: unat_word_ariths unat_of_nat mod_simps)
  also have "\<dots> = (unat start + k) mod 2" by (rule mod_mod_cancel) simp
  finally have "odd (unat (start + of_nat k)) = odd (unat start + k)"
    by (metis odd_iff_mod_2_eq_one)
  then show ?thesis by (simp only: and_one_iff_odd) auto
qed

lemma expected_word_simps:
  "expected_word seed NXMT_PHASE_FIXED_A pass start k = 0xaaaaaaaaaaaaaaaa"
  "expected_word seed NXMT_PHASE_FIXED_5 pass start k = 0x5555555555555555"
  "expected_word seed NXMT_PHASE_ADDRESS pass start k
     = (start * 8 + of_nat k * 8) XOR (seed XOR (pass * 0x100000001b3))"
  "expected_word seed NXMT_PHASE_NARROW pass start k
     = (((start + of_nat k) * 8 + pass * 8) AND 0xff) * 0x0101010101010101
       XOR 0x0706050403020100 XOR seed"
  "expected_word seed NXMT_PHASE_STREAM pass start k
     = ((start + of_nat k) * 8 AND 0x1fff) XOR (seed XOR (pass * 0xbf58476d1ce4e5b9))"
  by (simp_all add: expected_word_def nxmt_expected_value_def algebra_simps xor.assoc)

lemma expected_word_index_simps:
  assumes "unat start + k < 2 ^ 61"
  shows
  "expected_word seed NXMT_PHASE_CHECKER pass start k
     = (if (start AND 1 \<noteq> 0) = even k then 0x5555555555555555 else 0xaaaaaaaaaaaaaaaa)"
  "expected_word seed NXMT_PHASE_RANDOM pass start k
     = bswap64 (start + of_nat k) XOR (seed XOR (pass * 0x9e3779b97f4a7c15))"
  "expected_word seed NXMT_PHASE_WALKING pass start k
     = push_bit (unat ((start + pass + of_nat k) AND 63)) 1"
  "expected_word seed NXMT_PHASE_BITSPREAD pass start k
     = (if ((start + pass) AND 1 \<noteq> 0) = even k then 0xb6db6db6db6db6db else 0x4924924924924924)"
proof -
  have c: "start + of_nat k + pass = start + pass + of_nat k" by simp
  note unfold = expected_word_def nxmt_expected_value_def Let_def word_index_of_offset [OF assms]
    NxmtPhase.case
  show "expected_word seed NXMT_PHASE_CHECKER pass start k
     = (if (start AND 1 \<noteq> 0) = even k then 0x5555555555555555 else 0xaaaaaaaaaaaaaaaa)"
    unfolding unfold parity_start_plus by simp
  show "expected_word seed NXMT_PHASE_RANDOM pass start k
     = bswap64 (start + of_nat k) XOR (seed XOR (pass * 0x9e3779b97f4a7c15))"
    unfolding unfold by (simp add: xor.assoc)
  show "expected_word seed NXMT_PHASE_WALKING pass start k
     = push_bit (unat ((start + pass + of_nat k) AND 63)) 1"
    unfolding unfold c ..
  show "expected_word seed NXMT_PHASE_BITSPREAD pass start k
     = (if ((start + pass) AND 1 \<noteq> 0) = even k then 0xb6db6db6db6db6db else 0x4924924924924924)"
    unfolding unfold c parity_start_plus by simp
qed

end
