(* ===== verification/Chunk_Write.thy ===== *)
theory Chunk_Write
  imports Neon Patterns
begin

text \<open>
  The write half of a chunk: \<open>nxmt_write_chunk\<close> of \<^verbatim>\<open>source/core/runner.c\<close>, one
  definition per \<^verbatim>\<open>case\<close> of its \<^verbatim>\<open>switch\<close>, each with its vector loop and its scalar
  tail.  The flag \<open>neon\<close> is \<^verbatim>\<open>NXMT_HAS_NEON\<close>: with it the vector loop runs first and
  the scalar loop continues where it stopped, without it the scalar loop does everything.

  Every case is proved equal to \<open>fill\<close> with \<open>nxmt_expected_value\<close> of \<^verbatim>\<open>patterns.c\<close>,
  whatever the flag: the vector and scalar paths write the same bytes.
\<close>

unbundle bit_operations_syntax

section \<open>Constants\<close>

abbreviation kFixedA :: u64 where "kFixedA \<equiv> 0xaaaaaaaaaaaaaaaa"
abbreviation kFixed5 :: u64 where "kFixed5 \<equiv> 0x5555555555555555"
abbreviation kAddrPassMul :: u64 where "kAddrPassMul \<equiv> 0x100000001b3"
abbreviation kRandPassMul :: u64 where "kRandPassMul \<equiv> 0x9e3779b97f4a7c15"
abbreviation kStreamPassMul :: u64 where "kStreamPassMul \<equiv> 0xbf58476d1ce4e5b9"
abbreviation kBitSpread0 :: u64 where "kBitSpread0 \<equiv> 0x4924924924924924"
abbreviation kBitSpread1 :: u64 where "kBitSpread1 \<equiv> 0xb6db6db6db6db6db"
abbreviation NXMT_STREAM_STAMP_WORDS :: nat where "NXMT_STREAM_STAMP_WORDS \<equiv> 1024"

section \<open>The cases of the switch\<close>

text \<open>The loop that \<open>CHECKER\<close> and \<open>BITSPREAD\<close> both spell out: two words alternate.\<close>

definition write_alternating :: "bool \<Rightarrow> mem \<Rightarrow> u64 \<Rightarrow> nat \<Rightarrow> u64 \<Rightarrow> u64 \<Rightarrow> mem" where
  "write_alternating neon m p n a_first b_first =
     (let (m, k) =
        (if neon
         then let pat = vsetq_lane_u64 b_first (vdupq_n_u64 a_first) 1
              in for_by 4 0 n (\<lambda>k m. vst1q_u64 (vst1q_u64 m (widx p k) pat) (widx p (k + 2)) pat) m
         else (m, 0));
        (m, k) = for_by 2 k n
           (\<lambda>k m. store64 (store64 m (widx p k) a_first) (widx p (k + 1)) b_first) m
      in if k < n then store64 m (widx p k) a_first else m)"

definition write_checker :: "bool \<Rightarrow> mem \<Rightarrow> u64 \<Rightarrow> nat \<Rightarrow> u64 \<Rightarrow> mem" where
  "write_checker neon m p n start_word =
     (let a_first = (if start_word AND 1 \<noteq> 0 then kFixed5 else kFixedA);
          b_first = a_first XOR (kFixedA XOR kFixed5)
      in write_alternating neon m p n a_first b_first)"

definition write_bitspread :: "bool \<Rightarrow> mem \<Rightarrow> u64 \<Rightarrow> nat \<Rightarrow> u64 \<Rightarrow> u64 \<Rightarrow> mem" where
  "write_bitspread neon m p n start_word pass =
     (let a_first = (if (start_word + pass) AND 1 \<noteq> 0 then kBitSpread1 else kBitSpread0);
          b_first = a_first XOR (kBitSpread0 XOR kBitSpread1)
      in write_alternating neon m p n a_first b_first)"

definition write_address :: "bool \<Rightarrow> mem \<Rightarrow> u64 \<Rightarrow> nat \<Rightarrow> u64 \<Rightarrow> u64 \<Rightarrow> u64 \<Rightarrow> mem" where
  "write_address neon m p n start_word seed pass =
     (let base_off = start_word * NXMT_WORD_BYTES;
          mask = seed XOR (pass * kAddrPassMul);
          (m, k) =
        (if neon
         then let mask2 = vdupq_n_u64 mask;
                  step8 = vdupq_n_u64 64;
                  v01 = vsetq_lane_u64 (base_off + 8) (vdupq_n_u64 base_off) 1;
                  v23 = vsetq_lane_u64 (base_off + 24) (vdupq_n_u64 (base_off + 16)) 1;
                  v45 = vsetq_lane_u64 (base_off + 40) (vdupq_n_u64 (base_off + 32)) 1;
                  v67 = vsetq_lane_u64 (base_off + 56) (vdupq_n_u64 (base_off + 48)) 1;
                  (vs, k) = for_by 8 0 n
                    (\<lambda>k (m, v01, v23, v45, v67).
                       let m = vst1q_u64 m (widx p k) (veorq_u64 v01 mask2);
                           m = vst1q_u64 m (widx p (k + 2)) (veorq_u64 v23 mask2);
                           m = vst1q_u64 m (widx p (k + 4)) (veorq_u64 v45 mask2);
                           m = vst1q_u64 m (widx p (k + 6)) (veorq_u64 v67 mask2)
                       in (m, vaddq_u64 v01 step8, vaddq_u64 v23 step8,
                              vaddq_u64 v45 step8, vaddq_u64 v67 step8))
                    (m, v01, v23, v45, v67)
              in (fst vs, k)
         else (m, 0))
      in fst (for_by 1 k n
           (\<lambda>k m. store64 m (widx p k) ((base_off + of_nat k * NXMT_WORD_BYTES) XOR mask)) m))"

definition write_random :: "bool \<Rightarrow> mem \<Rightarrow> u64 \<Rightarrow> nat \<Rightarrow> u64 \<Rightarrow> u64 \<Rightarrow> u64 \<Rightarrow> mem" where
  "write_random neon m p n start_word seed pass =
     (let mask = seed XOR (pass * kRandPassMul);
          (m, k) =
        (if neon
         then let mask2 = vdupq_n_u64 mask;
                  step8 = vdupq_n_u64 8;
                  idx01 = vsetq_lane_u64 (start_word + 1) (vdupq_n_u64 start_word) 1;
                  idx23 = vsetq_lane_u64 (start_word + 3) (vdupq_n_u64 (start_word + 2)) 1;
                  idx45 = vsetq_lane_u64 (start_word + 5) (vdupq_n_u64 (start_word + 4)) 1;
                  idx67 = vsetq_lane_u64 (start_word + 7) (vdupq_n_u64 (start_word + 6)) 1;
                  (vs, k) = for_by 8 0 n
                    (\<lambda>k (m, idx01, idx23, idx45, idx67).
                       let r01 = vreinterpretq_u64_u8 (vrev64q_u8 (vreinterpretq_u8_u64 idx01));
                           r23 = vreinterpretq_u64_u8 (vrev64q_u8 (vreinterpretq_u8_u64 idx23));
                           r45 = vreinterpretq_u64_u8 (vrev64q_u8 (vreinterpretq_u8_u64 idx45));
                           r67 = vreinterpretq_u64_u8 (vrev64q_u8 (vreinterpretq_u8_u64 idx67));
                           m = vst1q_u64 m (widx p k) (veorq_u64 r01 mask2);
                           m = vst1q_u64 m (widx p (k + 2)) (veorq_u64 r23 mask2);
                           m = vst1q_u64 m (widx p (k + 4)) (veorq_u64 r45 mask2);
                           m = vst1q_u64 m (widx p (k + 6)) (veorq_u64 r67 mask2)
                       in (m, vaddq_u64 idx01 step8, vaddq_u64 idx23 step8,
                              vaddq_u64 idx45 step8, vaddq_u64 idx67 step8))
                    (m, idx01, idx23, idx45, idx67)
              in (fst vs, k)
         else (m, 0))
      in fst (for_by 1 k n
           (\<lambda>k m. store64 m (widx p k) (bswap64 (start_word + of_nat k) XOR mask)) m))"

definition write_walking :: "bool \<Rightarrow> mem \<Rightarrow> u64 \<Rightarrow> nat \<Rightarrow> u64 \<Rightarrow> u64 \<Rightarrow> mem" where
  "write_walking neon m p n start_word pass =
     (let pos_base = start_word + pass;
          (m, k) =
        (if neon
         then let mask63 = vdupq_n_u64 63;
                  one = vdupq_n_u64 1;
                  step8 = vdupq_n_u64 8;
                  idx01 = vsetq_lane_u64 (pos_base + 1) (vdupq_n_u64 pos_base) 1;
                  idx23 = vsetq_lane_u64 (pos_base + 3) (vdupq_n_u64 (pos_base + 2)) 1;
                  idx45 = vsetq_lane_u64 (pos_base + 5) (vdupq_n_u64 (pos_base + 4)) 1;
                  idx67 = vsetq_lane_u64 (pos_base + 7) (vdupq_n_u64 (pos_base + 6)) 1;
                  (vs, k) = for_by 8 0 n
                    (\<lambda>k (m, idx01, idx23, idx45, idx67).
                       let v01 = vshlq_s64 one (vandq_s64 idx01 mask63);
                           v23 = vshlq_s64 one (vandq_s64 idx23 mask63);
                           v45 = vshlq_s64 one (vandq_s64 idx45 mask63);
                           v67 = vshlq_s64 one (vandq_s64 idx67 mask63);
                           m = vst1q_u64 m (widx p k) v01;
                           m = vst1q_u64 m (widx p (k + 2)) v23;
                           m = vst1q_u64 m (widx p (k + 4)) v45;
                           m = vst1q_u64 m (widx p (k + 6)) v67
                       in (m, vaddq_u64 idx01 step8, vaddq_u64 idx23 step8,
                              vaddq_u64 idx45 step8, vaddq_u64 idx67 step8))
                    (m, idx01, idx23, idx45, idx67)
              in (fst vs, k)
         else (m, 0))
      in fst (for_by 1 k n
           (\<lambda>k m. store64 m (widx p k) (push_bit (unat ((pos_base + of_nat k) AND 63)) 1)) m))"

definition write_narrow :: "mem \<Rightarrow> u64 \<Rightarrow> u64 \<Rightarrow> u64 \<Rightarrow> u64 \<Rightarrow> u64 \<Rightarrow> mem" where
  "write_narrow m p chunk_words start_word seed pass =
     (let byte_count = chunk_words * NXMT_WORD_BYTES;
          byte_base = start_word * NXMT_WORD_BYTES + pass * NXMT_WORD_BYTES
      in fst (for_by 1 0 (unat byte_count)
           (\<lambda>i m. let seed_byte = ucast (drop_bit (unat ((of_nat i AND 7) * (8 :: u64))) seed) :: u8
                  in store8 m (p + of_nat i) (ucast (byte_base + of_nat i) XOR seed_byte)) m))"

text \<open>
  \<open>STREAM\<close>: a stamp of 1024 words, an array of the C frame, is built once and copied over
  the chunk from the position that the start word selects.  The array is a function of the
  index; only indices below 1024 are written or read.
\<close>

definition nxmt_fill_stream_stamp :: "bool \<Rightarrow> (nat \<Rightarrow> u64) \<Rightarrow> u64 \<Rightarrow> u64 \<Rightarrow> (nat \<Rightarrow> u64)" where
  "nxmt_fill_stream_stamp neon stamp seed pass =
     (let mask = seed XOR (pass * kStreamPassMul);
          (stamp, k) =
        (if neon
         then let mask2 = vdupq_n_u64 mask;
                  step4 = vdupq_n_u64 32;
                  off01 = vsetq_lane_u64 8 (vdupq_n_u64 0) 1;
                  off23 = vsetq_lane_u64 24 (vdupq_n_u64 16) 1;
                  (vs, k) = for_by 4 0 NXMT_STREAM_STAMP_WORDS
                    (\<lambda>k (stamp, off01, off23).
                       let e01 = veorq_u64 off01 mask2;
                           e23 = veorq_u64 off23 mask2;
                           stamp = stamp(k := vgetq_lane_u64 e01 0, k + 1 := vgetq_lane_u64 e01 1);
                           stamp = stamp(k + 2 := vgetq_lane_u64 e23 0, k + 3 := vgetq_lane_u64 e23 1)
                       in (stamp, vaddq_u64 off01 step4, vaddq_u64 off23 step4))
                    (stamp, off01, off23)
              in (fst vs, k)
         else (stamp, 0))
      in fst (for_by 1 k NXMT_STREAM_STAMP_WORDS
           (\<lambda>k stamp. stamp(k := (of_nat k * NXMT_WORD_BYTES) XOR mask)) stamp))"

definition nxmt_neon_copy_words :: "bool \<Rightarrow> mem \<Rightarrow> u64 \<Rightarrow> (nat \<Rightarrow> u64) \<Rightarrow> nat \<Rightarrow> mem" where
  "nxmt_neon_copy_words neon m dst src words =
     (let (m, k) =
        (if neon
         then for_by 16 0 words
           (\<lambda>k m.
              let a0 = (src k, src (k + 1));
                  a1 = (src (k + 2), src (k + 3));
                  a2 = (src (k + 4), src (k + 5));
                  a3 = (src (k + 6), src (k + 7));
                  a4 = (src (k + 8), src (k + 9));
                  a5 = (src (k + 10), src (k + 11));
                  a6 = (src (k + 12), src (k + 13));
                  a7 = (src (k + 14), src (k + 15));
                  m = vst1q_u64 m (widx dst k) a0;
                  m = vst1q_u64 m (widx dst (k + 2)) a1;
                  m = vst1q_u64 m (widx dst (k + 4)) a2;
                  m = vst1q_u64 m (widx dst (k + 6)) a3;
                  m = vst1q_u64 m (widx dst (k + 8)) a4;
                  m = vst1q_u64 m (widx dst (k + 10)) a5;
                  m = vst1q_u64 m (widx dst (k + 12)) a6
              in vst1q_u64 m (widx dst (k + 14)) a7) m
         else (m, 0))
      in fst (for_by 1 k words (\<lambda>k m. store64 m (widx dst k) (src k)) m))"

text \<open>
  The piece taken in one round is empty only if the position is 1024, and then the next
  position is 0: so the loop ends whatever position it starts from.
\<close>

lemma stream_piece_decreases:
  fixes n k pos copy :: u64
  assumes "k < n" and copy: "copy = (if n - k < 1024 - pos then n - k else 1024 - pos)"
  shows "unat n - unat (k + copy) < unat n - unat k
    \<or> pos = 1024 \<and> (pos + copy) AND 1023 = 0 \<and> k + copy = k"
proof (cases "copy = 0")
  case True
  have "n - k \<noteq> 0" using assms(1) by auto
  with True copy have "pos = 1024" by (auto split: if_splits)
  with True show ?thesis by simp
next
  case False
  have lt: "unat k < unat n" using assms(1) by (simp add: word_less_nat_alt)
  have "unat (n - k) = unat n - unat k" using lt by (simp add: unat_sub word_le_nat_alt)
  then have le: "unat copy \<le> unat n - unat k" by (auto simp: copy word_less_nat_alt)
  have "unat n < 2 ^ 64" using unsigned_less [of n] by simp
  with le lt have "unat (k + copy) = unat k + unat copy" by (simp add: unat_word_ariths)
  moreover have "0 < unat copy" using False by (simp add: unat_gt_0)
  ultimately show ?thesis using lt by linarith
qed

function write_stream_loop ::
    "bool \<Rightarrow> u64 \<Rightarrow> u64 \<Rightarrow> (nat \<Rightarrow> u64) \<Rightarrow> u64 \<Rightarrow> u64 \<Rightarrow> mem \<Rightarrow> mem" where
  "write_stream_loop neon p chunk_words stamp stamp_pos k m =
     (if k < chunk_words then
        let need = chunk_words - k;
            avail = of_nat NXMT_STREAM_STAMP_WORDS - stamp_pos;
            copy = (if need < avail then need else avail);
            m = nxmt_neon_copy_words neon m (widx p (unat k)) (\<lambda>i. stamp (unat stamp_pos + i)) (unat copy)
        in write_stream_loop neon p chunk_words stamp
             ((stamp_pos + copy) AND (of_nat NXMT_STREAM_STAMP_WORDS - 1)) (k + copy) m
      else m)"
  by pat_completeness auto
termination
proof (relation "measures [\<lambda>(neon, p, n, stamp, pos, k, m). unat n - unat k,
    \<lambda>(neon, p, n, stamp, pos, k, m). if pos = 1024 then 1 else 0]", goal_cases)
  case 1
  show ?case by simp
next
  case (2 neon p n stamp pos k m need avail copy m')
  then have copy: "copy = (if n - k < 1024 - pos then n - k else 1024 - pos)" by simp
  from stream_piece_decreases [OF 2(1) copy] show ?case by auto
qed

declare write_stream_loop.simps [simp del]

definition write_stream :: "bool \<Rightarrow> (nat \<Rightarrow> u64) \<Rightarrow> mem \<Rightarrow> u64 \<Rightarrow> u64 \<Rightarrow> u64 \<Rightarrow> u64 \<Rightarrow> u64 \<Rightarrow> mem" where
  "write_stream neon stamp m p chunk_words start_word seed pass =
     (let stamp = nxmt_fill_stream_stamp neon stamp seed pass;
          stamp_pos = start_word AND (of_nat NXMT_STREAM_STAMP_WORDS - 1)
      in write_stream_loop neon p chunk_words stamp stamp_pos 0 m)"

text \<open>
  The \<^verbatim>\<open>switch\<close>.  The contents of the uninitialised stamp array of the \<open>STREAM\<close> frame
  are arbitrary; they are all zero here, and \<open>stream_stamp_init\<close> below shows that
  what they are makes no difference.
\<close>

definition nxmt_write_chunk ::
    "bool \<Rightarrow> mem \<Rightarrow> u64 \<Rightarrow> u64 \<Rightarrow> u64 \<Rightarrow> NxmtPhase \<Rightarrow> u64 \<Rightarrow> u64 \<Rightarrow> mem" where
  "nxmt_write_chunk neon m p chunk_words start_word phase seed pass =
     (case phase of
        NXMT_PHASE_FIXED_A \<Rightarrow> memset m p 0xaa (unat (chunk_words * 8))
      | NXMT_PHASE_FIXED_5 \<Rightarrow> memset m p 0x55 (unat (chunk_words * 8))
      | NXMT_PHASE_CHECKER \<Rightarrow> write_checker neon m p (unat chunk_words) start_word
      | NXMT_PHASE_ADDRESS \<Rightarrow> write_address neon m p (unat chunk_words) start_word seed pass
      | NXMT_PHASE_RANDOM \<Rightarrow> write_random neon m p (unat chunk_words) start_word seed pass
      | NXMT_PHASE_WALKING \<Rightarrow> write_walking neon m p (unat chunk_words) start_word pass
      | NXMT_PHASE_NARROW \<Rightarrow> write_narrow m p chunk_words start_word seed pass
      | NXMT_PHASE_BITSPREAD \<Rightarrow> write_bitspread neon m p (unat chunk_words) start_word pass
      | NXMT_PHASE_STREAM \<Rightarrow> write_stream neon (\<lambda>_. 0) m p chunk_words start_word seed pass)"

section \<open>Every case is a fill\<close>

lemma fill_Suc_rev: "store64 (fill p f k m) (widx p k) (f k) = fill p f (Suc k) m"
  by simp

lemma fill_numeral_steps:
  "fill p f (k + 2) m = store64 (store64 (fill p f k m) (widx p k) (f k)) (widx p k + 8) (f (k + 1))"
  "fill p f (k + 4) m = store64 (store64 (fill p f (k + 2) m) (widx p k + 16) (f (k + 2)))
     (widx p k + 24) (f (k + 3))"
  "fill p f (k + 8) m = store64 (store64 (store64 (store64 (fill p f (k + 4) m)
     (widx p k + 32) (f (k + 4))) (widx p k + 40) (f (k + 5)))
     (widx p k + 48) (f (k + 6))) (widx p k + 56) (f (k + 7))"
  by (simp_all add: eval_nat_numeral widx_simps ac_simps)

lemmas fill_block = fill_numeral_steps widx_numeral widx_Suc add.assoc

text \<open>
  The shape of most cases: an optional vector loop over the memory and its lane registers,
  then a scalar loop over the rest.  The lanes are described as a function of the counter.
\<close>

lemma fill_tail:
  assumes "k \<le> n" and "\<And>j. j < n \<Longrightarrow> g j = f j"
  shows "fst (for_by 1 k n (\<lambda>k m. store64 m (widx p k) (g k)) (fill p f k m)) = fill p f n m"
proof -
  let ?body = "\<lambda>k m. store64 m (widx p k) (g k)"
  have "case for_by 1 k n ?body (fill p f k m) of (s', k') \<Rightarrow>
      s' = fill p f k' m \<and> k \<le> k' \<and> n < k' + 1 \<and> (k \<le> n \<longrightarrow> k' \<le> n)"
    by (rule for_by_inv [where I = "\<lambda>k s. s = fill p f k m"]) (auto simp: assms(2))
  then obtain k' where "for_by 1 k n ?body (fill p f k m) = (fill p f k' m, k')"
    "n < k' + 1" "k \<le> n \<longrightarrow> k' \<le> n"
    by (auto split: prod.splits)
  moreover from this assms(1) have "k' = n" by simp
  ultimately show ?thesis by simp
qed

lemma vector_tail:
  fixes V :: "nat \<Rightarrow> 'v"
  assumes "0 < st" and init: "v0 = V 0"
    and step: "\<And>j. body j (fill p f j m, V j) = (fill p f (j + st) m, V (j + st))"
    and tail: "\<And>j. j < n \<Longrightarrow> g j = f j"
  shows "(case (if neon then (case for_by st 0 n body (m, v0) of (vs, k) \<Rightarrow> (fst vs, k)) else (m, 0))
     of (m', k) \<Rightarrow> fst (for_by 1 k n (\<lambda>k m. store64 m (widx p k) (g k)) m')) = fill p f n m"
proof (cases neon)
  case True
  have "case for_by st 0 n body (m, v0) of (s', k') \<Rightarrow>
      s' = (fill p f k' m, V k') \<and> 0 \<le> k' \<and> n < k' + st \<and> (0 \<le> n \<longrightarrow> k' \<le> n)"
    by (rule for_by_inv [where I = "\<lambda>k s. s = (fill p f k m, V k)"])
      (use assms in auto)
  with True show ?thesis
    using fill_tail [OF _ tail] by (auto split: prod.splits)
next
  case False
  then show ?thesis using fill_tail [of 0 n, OF _ tail] by simp
qed

lemma write_alternating_fill:
  assumes f: "\<And>i. i < n \<Longrightarrow> f i = (if even i then a else b)"
  shows "write_alternating neon m p n a b = fill p f n m"
proof -
  define g where "g i = (if even i then a else b)" for i :: nat
  have fg: "fill p f n m = fill p g n m"
    by (rule fill_with_cong) (simp add: f g_def)
  let ?I = "\<lambda>k s. even k \<and> s = fill p g k m"
  let ?vec = "\<lambda>k m. vst1q_u64 (vst1q_u64 m (widx p k) (a, b)) (widx p (k + 2)) (a, b)"
  let ?two = "\<lambda>k m. store64 (store64 m (widx p k) a) (widx p (k + 1)) b"
  define first where "first = (if neon then for_by 4 0 n ?vec m else (m, 0))"
  have "case for_by 4 0 n ?vec m of (s', k') \<Rightarrow>
      ?I k' s' \<and> 0 \<le> k' \<and> n < k' + 4 \<and> (0 \<le> n \<longrightarrow> k' \<le> n)"
    by (rule for_by_inv [where I = ?I]) (auto simp: fill_block g_def)
  then obtain m1 k1 where 1: "first = (m1, k1)" "?I k1 m1" "k1 \<le> n"
    by (cases neon) (auto simp: first_def split: prod.splits)
  have "case for_by 2 k1 n ?two m1 of (s', k') \<Rightarrow>
      ?I k' s' \<and> k1 \<le> k' \<and> n < k' + 2 \<and> (k1 \<le> n \<longrightarrow> k' \<le> n)"
    by (rule for_by_inv [where I = ?I]) (auto simp: fill_block g_def 1)
  then obtain m2 k2 where 2: "for_by 2 k1 n ?two m1 = (m2, k2)" "?I k2 m2" "n < k2 + 2" "k2 \<le> n"
    using 1 by (auto split: prod.splits)
  then have "k2 = n \<or> n = Suc k2" by auto
  then have "(if k2 < n then store64 m2 (widx p k2) a else m2) = fill p g n m"
    using 2(2) by (auto simp: g_def)
  moreover have pat: "vsetq_lane_u64 b (vdupq_n_u64 a) 1 = (a, b)" by (simp add: neon_simps)
  ultimately show ?thesis
    unfolding write_alternating_def Let_def pat first_def [symmetric] 1(1) prod.case 2(1)
    by (simp add: fg)
qed

lemma write_address_fill:
  "write_address neon m p n start_word seed pass
    = fill p (\<lambda>k. (start_word * 8 + of_nat k * 8) XOR (seed XOR (pass * kAddrPassMul))) n m"
proof -
  let ?V = "\<lambda>k. let b = start_word * 8 + of_nat k * 8 :: u64 in
    ((b, b + 8), (b + 16, b + 24), (b + 32, b + 40), (b + 48, b + 56))"
  show ?thesis
    unfolding write_address_def Let_def
    by (rule vector_tail [where V = ?V])
      (simp_all add: neon_simps fill_block algebra_simps Let_def)
qed

lemma write_random_fill:
  "write_random neon m p n start_word seed pass
    = fill p (\<lambda>k. bswap64 (start_word + of_nat k) XOR (seed XOR (pass * kRandPassMul))) n m"
proof -
  let ?V = "\<lambda>k. let b = start_word + of_nat k :: u64 in
    ((b, b + 1), (b + 2, b + 3), (b + 4, b + 5), (b + 6, b + 7))"
  show ?thesis
    unfolding write_random_def Let_def
    by (rule vector_tail [where V = ?V])
      (simp_all add: neon_simps fill_block algebra_simps Let_def)
qed

lemma write_walking_fill:
  "write_walking neon m p n start_word pass
    = fill p (\<lambda>k. push_bit (unat ((start_word + pass + of_nat k) AND 63)) 1) n m"
proof -
  let ?V = "\<lambda>k. let b = start_word + pass + of_nat k :: u64 in
    ((b, b + 1), (b + 2, b + 3), (b + 4, b + 5), (b + 6, b + 7))"
  show ?thesis
    unfolding write_walking_def Let_def
    by (rule vector_tail [where V = ?V])
      (simp_all add: neon_simps fill_block algebra_simps Let_def)
qed

text \<open>
  \<open>NARROW\<close>: the eight byte stores of a word compose the closed form of \<^verbatim>\<open>patterns.c\<close>.
\<close>

lemma word_of_bytes_Cons_add: "word_of_bytes (b # bs) = ucast b + 256 * word_of_bytes bs"
proof -
  have "ucast b + push_bit 8 (word_of_bytes bs) = ucast b OR push_bit 8 (word_of_bytes bs)"
    by (rule disjunctive_add) (auto simp: bit_simps dest!: bit_imp_le_length)
  then show ?thesis by (simp add: push_bit_eq_mult mult.commute)
qed

lemma word_of_bytes_replicate:
  "word_of_bytes (replicate 8 b) = ucast b * 0x0101010101010101"
proof -
  have "replicate 8 b = [b, b, b, b, b, b, b, b]" by (simp add: eval_nat_numeral)
  then show ?thesis
    by (simp only: word_of_bytes_Cons_add word_of_bytes.simps(1)) (simp add: algebra_simps)
qed

lemma byte_of_xor: "byte_of (a XOR b) i = byte_of a i XOR byte_of b i"
  by (simp add: byte_of_def drop_bit_xor unsigned_xor_eq)

lemma byte_of_iota: "i < 8 \<Longrightarrow> byte_of 0x0706050403020100 i = of_nat i"
proof -
  assume "i < 8"
  then have "i \<in> {0, 1, 2, 3, 4, 5, 6, 7}" by auto
  then show ?thesis by (auto simp: byte_of_def drop_bit_eq_div)
qed

lemma add_low_eq_xor:
  assumes "j < 8"
  shows "8 * q + of_nat j = 8 * q XOR (of_nat j :: u64)"
proof -
  have q: "8 * q = push_bit 3 q" by (simp add: push_bit_eq_mult mult.commute)
  have j: "\<not> bit (of_nat j :: u64) n" if "3 \<le> n" for n
  proof -
    have "j < 2 ^ n"
      using assms that power_increasing [of 3 n "2 :: nat"] by simp
    then have "\<not> bit j n" by (simp add: bit_iff_odd)
    then show ?thesis by (simp add: bit_simps)
  qed
  then have "push_bit 3 q + of_nat j = push_bit 3 q OR of_nat j"
    by (intro disjunctive_add) (auto simp: bit_simps not_le)
  also have "\<dots> = push_bit 3 q XOR of_nat j"
    by (rule bit_word_eqI) (use j in \<open>auto simp: bit_simps not_le\<close>)
  finally show ?thesis by (simp only: q)
qed

lemma and_ff_eq: "t AND 0xff = ucast (ucast t :: u8)" for t :: u64
proof -
  have "(0xff :: u64) = mask 8" by (simp add: mask_eq_exp_minus_1)
  then have "t AND 0xff = take_bit 8 t" by (simp only: take_bit_eq_mask)
  also have "\<dots> = ucast (ucast t :: u8)"
    by (rule bit_word_eqI) (auto simp: bit_simps)
  finally show ?thesis .
qed

lemma narrow_word:
  fixes q seed :: u64
  shows "word_of_bytes (map (\<lambda>j. ucast (8 * q + of_nat j) XOR byte_of seed j) [0..<8])
    = ((8 * q) AND 0xff) * 0x0101010101010101 XOR 0x0706050403020100 XOR seed"
proof (unfold word_eq_iff_bytes, intro allI impI)
  fix i :: nat assume i: "i < 8"
  have m: "(8 * q) AND 0xff = ucast (ucast (8 * q) :: u8)" by (rule and_ff_eq)
  have r: "byte_of (ucast b * 0x0101010101010101) i = b" for b
    using i by (simp add: byte_of_word_of_bytes flip: word_of_bytes_replicate)
  have "(ucast (8 * q + of_nat i) :: u8) = ucast (8 * q) XOR of_nat i"
  proof -
    have "(ucast (of_nat i :: u64) :: u8) = of_nat i"
      by (rule bit_word_eqI) (simp add: bit_simps)
    then show ?thesis by (simp add: add_low_eq_xor [OF i] unsigned_xor_eq)
  qed
  with i show "byte_of (word_of_bytes (map (\<lambda>j. ucast (8 * q + of_nat j) XOR byte_of seed j) [0..<8])) i
      = byte_of (((8 * q) AND 0xff) * 0x0101010101010101 XOR 0x0706050403020100 XOR seed) i"
    by (simp add: byte_of_word_of_bytes byte_of_xor byte_of_iota m r xor.assoc)
qed

lemma and_7_of_nat: "unat ((of_nat i :: u64) AND 7) = i mod 8"
proof -
  have "unat ((of_nat i :: u64) AND 7) = i mod 2 ^ 64 mod 8"
    using and_mask_eq_mod [of "of_nat i" 3] by (simp add: unat_of_nat)
  also have "\<dots> = i mod 8" by (rule mod_mod_cancel) simp
  finally show ?thesis .
qed

lemma write_narrow_fill:
  assumes "unat chunk_words < 2 ^ 61"
  shows "write_narrow m p chunk_words start_word seed pass
    = fill p (\<lambda>k. (((start_word + of_nat k) * 8 + pass * 8) AND 0xff) * 0x0101010101010101
        XOR 0x0706050403020100 XOR seed) (unat chunk_words) m"
proof -
  let ?g = "\<lambda>i :: nat. ucast (start_word * 8 + pass * 8 + of_nat i)
    XOR (ucast (drop_bit (unat ((of_nat i AND 7) * (8 :: u64))) seed) :: u8)"
  have count: "unat (chunk_words * 8) = 8 * unat chunk_words"
    using assms by (simp add: unat_word_ariths)
  have shift: "unat ((of_nat (8 * k + j) AND 7) * (8 :: u64)) = 8 * j" if "j < 8" for k j :: nat
    using that by (simp add: unat_word_ariths and_7_of_nat del: of_nat_add of_nat_mult)
  have "word_of_bytes (map (\<lambda>j. ?g (8 * k + j)) [0..<8])
      = (((start_word + of_nat k) * 8 + pass * 8) AND 0xff) * 0x0101010101010101
        XOR 0x0706050403020100 XOR seed" for k
  proof -
    have "?g (8 * k + j) = ucast (8 * (start_word + of_nat k + pass) + of_nat j) XOR byte_of seed j"
      if "j < 8" for j
    proof -
      have "start_word * 8 + pass * 8 + of_nat (8 * k + j)
          = 8 * (start_word + of_nat k + pass) + of_nat j"
        by (simp add: algebra_simps)
      then show ?thesis by (simp only: shift [OF that] byte_of_def)
    qed
    then have "map (\<lambda>j. ?g (8 * k + j)) [0..<8]
        = map (\<lambda>j. ucast (8 * (start_word + of_nat k + pass) + of_nat j) XOR byte_of seed j) [0..<8]"
      by (intro map_cong) auto
    then show ?thesis
      by (simp only: narrow_word) (simp add: algebra_simps)
  qed
  then show ?thesis
    by (simp add: write_narrow_def Let_def for_by_one [simplified] count fold_byte_stores)
qed

text \<open>\<open>STREAM\<close>: the stamp, the bulk copy, and the loop over the stamp.\<close>

definition stream_word :: "u64 \<Rightarrow> u64 \<Rightarrow> nat \<Rightarrow> u64" where
  "stream_word seed pass i = (of_nat i * 8) XOR (seed XOR (pass * kStreamPassMul))"

lemma stream_stamp_init:
  assumes "i < 1024"
  shows "nxmt_fill_stream_stamp neon stamp seed pass i = stream_word seed pass i"
proof -
  let ?e = "stream_word seed pass"
  let ?mask = "seed XOR (pass * kStreamPassMul)"
  let ?V = "\<lambda>k. let b = of_nat k * 8 :: u64 in ((b, b + 8), (b + 16, b + 24))"
  let ?I = "\<lambda>k s. \<forall>i<k. s i = ?e i"
  let ?vec = "\<lambda>k (stamp, off01, off23).
     (stamp(k := vgetq_lane_u64 (veorq_u64 off01 (vdupq_n_u64 ?mask)) 0,
            k + 1 := vgetq_lane_u64 (veorq_u64 off01 (vdupq_n_u64 ?mask)) 1,
            k + 2 := vgetq_lane_u64 (veorq_u64 off23 (vdupq_n_u64 ?mask)) 0,
            k + 3 := vgetq_lane_u64 (veorq_u64 off23 (vdupq_n_u64 ?mask)) 1),
      vaddq_u64 off01 (vdupq_n_u64 32), vaddq_u64 off23 (vdupq_n_u64 32))"
  let ?init = "(stamp, vsetq_lane_u64 8 (vdupq_n_u64 0) 1, vsetq_lane_u64 24 (vdupq_n_u64 16) 1)"
  let ?one = "\<lambda>k stamp. stamp(k := (of_nat k * 8) XOR ?mask)"
  define first where "first = (if neon
     then (case for_by 4 0 1024 ?vec ?init of (vs, k) \<Rightarrow> (fst vs, k)) else (stamp, 0))"
  have "case for_by 4 0 1024 ?vec ?init of (s', k') \<Rightarrow>
      (?I k' (fst s') \<and> snd s' = ?V k') \<and> 0 \<le> k' \<and> 1024 < k' + 4 \<and> ((0 :: nat) \<le> 1024 \<longrightarrow> k' \<le> 1024)"
  proof (rule for_by_inv [where I = "\<lambda>k s. ?I k (fst s) \<and> snd s = ?V k"], goal_cases)
    case (3 j t)
    then show ?case
      by (cases t) (auto simp: neon_simps Let_def stream_word_def algebra_simps less_Suc_eq
        numeral_eq_Suc)
  qed (simp_all add: neon_simps Let_def)
  then obtain s1 k1 where 1: "first = (s1, k1)" "?I k1 s1" "k1 \<le> 1024"
    by (cases neon) (auto simp: first_def split: prod.splits)
  have "case for_by 1 k1 1024 ?one s1 of (s', k') \<Rightarrow>
      ?I k' s' \<and> k1 \<le> k' \<and> 1024 < k' + 1 \<and> (k1 \<le> 1024 \<longrightarrow> k' \<le> 1024)"
    by (rule for_by_inv [where I = ?I]) (auto simp: 1 stream_word_def less_Suc_eq)
  then have "fst (for_by 1 k1 1024 ?one s1) i = ?e i"
    using assms 1(3) by (auto split: prod.splits)
  moreover have "nxmt_fill_stream_stamp neon stamp seed pass = fst (for_by 1 k1 1024 ?one s1)"
    unfolding nxmt_fill_stream_stamp_def Let_def first_def [symmetric] 1(1) prod.case ..
  ultimately show ?thesis by simp
qed

lemma fill_16_steps:
  "fill p f (k + 16) m = store64 (store64 (store64 (store64 (store64 (store64 (store64 (store64
     (fill p f (k + 8) m)
     (widx p k + 64) (f (k + 8))) (widx p k + 72) (f (k + 9)))
     (widx p k + 80) (f (k + 10))) (widx p k + 88) (f (k + 11)))
     (widx p k + 96) (f (k + 12))) (widx p k + 104) (f (k + 13)))
     (widx p k + 112) (f (k + 14))) (widx p k + 120) (f (k + 15))"
  by (simp add: eval_nat_numeral widx_simps ac_simps)

lemma neon_copy_words_fill: "nxmt_neon_copy_words neon m dst src words = fill dst src words m"
proof -
  have "(case (if neon then for_by 16 0 words body m else (m, 0)) of (m, k) \<Rightarrow>
      fst (for_by 1 k words (\<lambda>k m. store64 m (widx dst k) (src k)) m)) = fill dst src words m"
    if "\<And>k. body k (fill dst src k m) = fill dst src (k + 16) m" for body
  proof (cases neon)
    case True
    have "case for_by 16 0 words body m of (s', k') \<Rightarrow> s' = fill dst src k' m \<and> 0 \<le> k' \<and>
        words < k' + 16 \<and> (0 \<le> words \<longrightarrow> k' \<le> words)"
      by (rule for_by_inv [where I = "\<lambda>k s. s = fill dst src k m"]) (auto simp: that)
    then obtain k' where "for_by 16 0 words body m = (fill dst src k' m, k')" "k' \<le> words"
      by (auto split: prod.splits)
    with True show ?thesis using fill_tail [of k' words src src dst m] by simp
  next
    case False
    then show ?thesis using fill_tail [of 0 words src src dst m] by simp
  qed
  then show ?thesis
    unfolding nxmt_neon_copy_words_def Let_def
    by (simp add: fill_block fill_16_steps case_prod_unfold)
qed

text \<open>One piece of the loops over the stamp: as far as the stamp or the chunk goes.\<close>

lemma stream_piece:
  fixes k n pos :: u64
  assumes kn: "k < n" and pos: "unat pos < 1024"
    and copy: "copy = (if n - k < 1024 - pos then n - k else 1024 - pos)"
  shows "unat copy = min (unat n - unat k) (1024 - unat pos)"
    and "unat (k + copy) = unat k + unat copy"
    and "unat k + unat copy \<le> unat n"
    and "unat ((pos + copy) AND 1023) = (unat pos + unat copy) mod 1024"
proof -
  have nk: "unat (n - k) = unat n - unat k" and lt: "unat k < unat n"
    using kn by (simp_all add: unat_sub word_le_nat_alt word_less_nat_alt)
  have av: "unat (1024 - pos) = 1024 - unat pos"
    using pos by (simp add: unat_sub word_le_nat_alt)
  show c: "unat copy = min (unat n - unat k) (1024 - unat pos)"
    by (auto simp: copy nk av word_less_nat_alt)
  with lt show "unat k + unat copy \<le> unat n" by linarith
  moreover have "unat n < 2 ^ 64" using unsigned_less [of n] by simp
  ultimately have "unat k + unat copy < 2 ^ 64" by linarith
  then show "unat (k + copy) = unat k + unat copy" by (simp add: unat_word_ariths)
  have "unat ((pos + copy) AND 1023) = unat (pos + copy) mod 1024"
    using and_mask_eq_mod [of "pos + copy" 10] by simp
  also have "\<dots> = (unat pos + unat copy) mod 1024"
    using pos c by (simp add: unat_word_ariths)
  finally show "unat ((pos + copy) AND 1023) = (unat pos + unat copy) mod 1024" .
qed

lemma write_stream_loop_fill:
  assumes "unat pos < 1024" and "k \<le> n"
  shows "write_stream_loop neon p n stamp pos k m
    = fill (widx p (unat k)) (\<lambda>i. stamp ((unat pos + i) mod 1024)) (unat n - unat k) m"
  using assms
proof (induction neon p n stamp pos k m rule: write_stream_loop.induct)
  case (1 neon p n stamp pos k m)
  show ?case
  proof (cases "k < n")
    case False
    with "1.prems" have "k = n" by simp
    then show ?thesis by (simp add: write_stream_loop.simps)
  next
    case True
    define copy where "copy = (if n - k < 1024 - pos then n - k else 1024 - pos)"
    define c where "c = unat copy"
    let ?m = "nxmt_neon_copy_words neon m (widx p (unat k)) (\<lambda>i. stamp (unat pos + i)) c"
    let ?pos = "(pos + copy) AND 1023"
    note piece = stream_piece [OF True "1.prems"(1) copy_def, folded c_def]
    note c = piece(1) and kc = piece(2) and pos' = piece(4)
    have "write_stream_loop neon p n stamp ?pos (k + copy) ?m
        = fill (widx p (unat (k + copy))) (\<lambda>i. stamp ((unat ?pos + i) mod 1024))
            (unat n - unat (k + copy)) ?m"
    proof -
      have "unat ?pos < 1024" using pos' by simp
      moreover have "k + copy \<le> n" using piece(3) by (simp add: word_le_nat_alt kc)
      ultimately show ?thesis using "1.IH" [OF True refl refl refl refl, unfolded of_nat_numeral, folded copy_def, folded c_def]
        by simp
    qed
    also have "\<dots> = fill (widx (widx p (unat k)) c) (\<lambda>i. stamp ((unat pos + (c + i)) mod 1024))
        (unat n - unat k - c) (fill (widx p (unat k)) (\<lambda>i. stamp ((unat pos + i) mod 1024)) c m)"
    proof -
      have "fill (widx p (unat k)) (\<lambda>i. stamp (unat pos + i)) c m
          = fill (widx p (unat k)) (\<lambda>i. stamp ((unat pos + i) mod 1024)) c m"
      proof (rule fill_with_cong)
        fix i assume "i < c"
        then have "(unat pos + i) mod 1024 = unat pos + i" using c by (intro mod_less) linarith
        then show "stamp (unat pos + i) = stamp ((unat pos + i) mod 1024)" by simp
      qed
      then show ?thesis
        by (simp add: neon_copy_words_fill kc pos' widx_add mod_simps add.assoc)
    qed
    also have "\<dots> = fill (widx p (unat k)) (\<lambda>i. stamp ((unat pos + i) mod 1024)) (unat n - unat k) m"
    proof -
      have split: "unat n - unat k = c + (unat n - unat k - c)" using c by linarith
      from fill_with_add [of store64 "widx p (unat k)" "\<lambda>i. stamp ((unat pos + i) mod 1024)"
          c "unat n - unat k - c" m, symmetric] show ?thesis
        by (simp only: split [symmetric])
    qed
    finally show ?thesis
      using True by (simp add: write_stream_loop.simps [of _ _ _ _ pos] Let_def copy_def c_def)
  qed
qed

lemma stream_word_period:
  "stream_word seed pass ((unat start_word + i) mod 1024)
    = ((start_word + of_nat i) * 8 AND 0x1fff) XOR (seed XOR (pass * kStreamPassMul))"
proof -
  define w where "w = start_word + of_nat i"
  have "unat w mod 1024 = (unat start_word + i) mod 2 ^ 64 mod 1024"
    by (simp add: w_def unat_word_ariths unat_of_nat mod_simps)
  also have "\<dots> = (unat start_word + i) mod 1024" by (rule mod_mod_cancel) simp
  finally have m: "(unat start_word + i) mod 1024 = take_bit 10 (unat w)"
    by (simp add: take_bit_eq_mod)
  have "(of_nat (take_bit 10 (unat w)) :: u64) = take_bit 10 w"
    by (simp add: of_nat_take_bit)
  moreover have "(0x1fff :: u64) = mask 13" by (simp add: mask_eq_exp_minus_1)
  then have "w * 8 AND 0x1fff = take_bit 13 (push_bit 3 w)"
    by (simp only: take_bit_eq_mask) (simp add: push_bit_eq_mult)
  moreover have "take_bit 13 (push_bit 3 w) = push_bit 3 (take_bit 10 w)"
    by (rule bit_word_eqI) (auto simp: bit_simps)
  ultimately show ?thesis
    by (simp add: stream_word_def m push_bit_eq_mult flip: w_def)
qed

lemma write_stream_fill:
  "write_stream neon stamp m p chunk_words start_word seed pass
    = fill p (\<lambda>i. ((start_word + of_nat i) * 8 AND 0x1fff) XOR (seed XOR (pass * kStreamPassMul)))
        (unat chunk_words) m"
proof -
  have pos: "unat (start_word AND 1023) = unat start_word mod 1024"
    using and_mask_eq_mod [of start_word 10] by simp
  have "write_stream neon stamp m p chunk_words start_word seed pass
    = fill p (\<lambda>i. nxmt_fill_stream_stamp neon stamp seed pass ((unat start_word + i) mod 1024))
        (unat chunk_words) m"
    by (simp add: write_stream_def write_stream_loop_fill pos mod_simps)
  also have "\<dots> = fill p (\<lambda>i. stream_word seed pass ((unat start_word + i) mod 1024))
        (unat chunk_words) m"
    by (rule fill_with_cong) (simp add: stream_stamp_init)
  finally show ?thesis by (simp only: stream_word_period)
qed

section \<open>The chunk writer\<close>

lemma memset_chunk:
  fixes chunk_words :: u64
  assumes "unat chunk_words < 2 ^ 61"
  shows "memset m p c (unat (chunk_words * 8))
    = fill p (\<lambda>_. ucast c * 0x0101010101010101) (unat chunk_words) m"
proof -
  have "unat (chunk_words * 8) = 8 * unat chunk_words"
    using assms by (simp add: unat_word_ariths)
  then show ?thesis by (simp only: memset_fill word_of_bytes_replicate)
qed

lemma write_chunk_fill:
  assumes "unat start_word + unat chunk_words < 2 ^ 61"
  shows "nxmt_write_chunk neon m p chunk_words start_word phase seed pass
    = fill p (expected_word seed phase pass start_word) (unat chunk_words) m"
proof -
  have n: "unat chunk_words < 2 ^ 61" using assms by simp
  have idx: "unat start_word + k < 2 ^ 61" if "k < unat chunk_words" for k
    using assms that by simp
  note simps = nxmt_write_chunk_def expected_word_simps expected_word_index_simps [OF idx]
  show ?thesis
  proof (cases phase)
    case NXMT_PHASE_CHECKER
    then show ?thesis
      by (simp add: simps write_checker_def Let_def)
        (intro conjI impI write_alternating_fill; simp add: simps)
  next
    case NXMT_PHASE_BITSPREAD
    then show ?thesis
      by (simp add: simps write_bitspread_def Let_def)
        (intro conjI impI write_alternating_fill; simp add: simps)
  qed (simp_all add: nxmt_write_chunk_def memset_chunk [OF n] write_address_fill write_random_fill
      write_walking_fill write_narrow_fill [OF n] write_stream_fill,
    (rule fill_with_cong, simp add: simps)+)
qed

text \<open>
  Property C8.  For every phase, with the vector loops or without them, writing a chunk
  stores \<open>nxmt_expected_value\<close> of the word's offset in every word of the chunk, in order,
  and nothing else: the two paths leave the same memory, byte for byte.
\<close>

theorem write_chunk_stores_expected:
  assumes "unat start_word + unat chunk_words < 2 ^ 61"
  shows "nxmt_write_chunk neon m p chunk_words start_word phase seed pass
    = fill p (expected_word seed phase pass start_word) (unat chunk_words) m"
  by (rule write_chunk_fill [OF assms])

theorem write_chunk_stores_expected_witness:
  "nxmt_write_chunk True (\<lambda>_. 0) 0x8000 7 3 NXMT_PHASE_STREAM 1 0
    = fill 0x8000 (expected_word 1 NXMT_PHASE_STREAM 0 3) 7 (\<lambda>_. 0)"
  using write_chunk_stores_expected [of 3 7 True "\<lambda>_. 0" "0x8000" NXMT_PHASE_STREAM 1 0] by simp

end
