(* ===== verification/Report.thy ===== *)
theory Report
  imports Base
begin

text \<open>
  \<^verbatim>\<open>source/core/report.c\<close>: the report a worker fills while it verifies, and the merge of
  the workers' reports.  The abstract value of a report is the list of the errors recorded
  since \<open>nxmt_report_init\<close>: the first one is kept in full, of the others the number
  (modulo 2^64), the range of offsets and the union of the differing bits.  The locale
  \<open>error_log\<close> states the three laws over that list, and proves once what merging the
  reports of several workers gives.
\<close>

unbundle bit_operations_syntax

section \<open>Data and operations\<close>

record NxmtError =
  e_mode :: NxmtMode
  e_phase :: NxmtPhase
  e_seed :: u64
  e_pass :: u64
  e_worker_id :: u32
  e_offset :: u64
  e_expected :: u64
  e_actual :: u64
  e_xor_diff :: u64

record NxmtReport =
  has_first_error :: bool
  first :: NxmtError
  error_count :: u64
  min_error_offset :: u64
  max_error_offset :: u64
  bit_diff_or :: u64

definition nxmt_report_init :: "NxmtReport \<Rightarrow> NxmtReport" where
  "nxmt_report_init report = report\<lparr>has_first_error := False, error_count := 0,
     min_error_offset := 0, max_error_offset := 0, bit_diff_or := 0\<rparr>"

definition nxmt_report_record_error ::
    "NxmtReport \<Rightarrow> NxmtMode \<Rightarrow> NxmtPhase \<Rightarrow> u64 \<Rightarrow> u64 \<Rightarrow> u32 \<Rightarrow> u64 \<Rightarrow> u64 \<Rightarrow> u64 \<Rightarrow> NxmtReport" where
  "nxmt_report_record_error report mode phase seed pass worker_id offset expected actual =
     (let diff = expected XOR actual;
          report =
        (if \<not> has_first_error report
         then report\<lparr>has_first_error := True,
                first := \<lparr>e_mode = mode, e_phase = phase, e_seed = seed, e_pass = pass,
                  e_worker_id = worker_id, e_offset = offset, e_expected = expected,
                  e_actual = actual, e_xor_diff = diff\<rparr>,
                min_error_offset := offset, max_error_offset := offset\<rparr>
         else let report = (if offset < min_error_offset report
                            then report\<lparr>min_error_offset := offset\<rparr> else report)
              in (if max_error_offset report < offset
                  then report\<lparr>max_error_offset := offset\<rparr> else report))
      in report\<lparr>error_count := error_count report + 1,
                bit_diff_or := bit_diff_or report OR diff\<rparr>)"

definition nxmt_report_merge :: "NxmtReport \<Rightarrow> NxmtReport \<Rightarrow> NxmtReport" where
  "nxmt_report_merge dst src =
     (if error_count src = 0 then dst
      else let dst =
        (if \<not> has_first_error dst \<and> has_first_error src
         then dst\<lparr>has_first_error := True, first := first src,
                min_error_offset := min_error_offset src,
                max_error_offset := max_error_offset src\<rparr>
         else let dst = (if min_error_offset src < min_error_offset dst
                         then dst\<lparr>min_error_offset := min_error_offset src\<rparr> else dst)
              in (if max_error_offset dst < max_error_offset src
                  then dst\<lparr>max_error_offset := max_error_offset src\<rparr> else dst))
      in dst\<lparr>error_count := error_count dst + error_count src,
             bit_diff_or := bit_diff_or dst OR bit_diff_or src\<rparr>)"

section \<open>The list of errors a report stands for\<close>

text \<open>An error as the recording call describes it: the difference is derived.\<close>

definition mk_error ::
    "NxmtMode \<Rightarrow> NxmtPhase \<Rightarrow> u64 \<Rightarrow> u64 \<Rightarrow> u32 \<Rightarrow> u64 \<Rightarrow> u64 \<Rightarrow> u64 \<Rightarrow> NxmtError" where
  "mk_error mode phase seed pass worker_id offset expected actual =
     \<lparr>e_mode = mode, e_phase = phase, e_seed = seed, e_pass = pass, e_worker_id = worker_id,
      e_offset = offset, e_expected = expected, e_actual = actual,
      e_xor_diff = expected XOR actual\<rparr>"

definition record_event :: "NxmtReport \<Rightarrow> NxmtError \<Rightarrow> NxmtReport" where
  "record_event r e = nxmt_report_record_error r (e_mode e) (e_phase e) (e_seed e) (e_pass e)
     (e_worker_id e) (e_offset e) (e_expected e) (e_actual e)"

definition wf_error :: "NxmtError \<Rightarrow> bool" where
  "wf_error e \<longleftrightarrow> e_xor_diff e = e_expected e XOR e_actual e"

definition diff_union :: "NxmtError list \<Rightarrow> u64" where
  "diff_union es = fold (\<lambda>e d. d OR e_xor_diff e) es 0"

definition report_of :: "NxmtReport \<Rightarrow> NxmtError list \<Rightarrow> bool" where
  "report_of r es \<longleftrightarrow>
     (has_first_error r \<longleftrightarrow> es \<noteq> []) \<and>
     error_count r = of_nat (length es) \<and>
     bit_diff_or r = diff_union es \<and>
     (if es = [] then min_error_offset r = 0 \<and> max_error_offset r = 0
      else first r = hd es \<and>
           min_error_offset r = Min (e_offset ` set es) \<and>
           max_error_offset r = Max (e_offset ` set es))"

lemma diff_union_append: "diff_union (es @ fs) = diff_union es OR diff_union fs"
proof -
  have "fold (\<lambda>e d. d OR e_xor_diff e) fs d = d OR diff_union fs" for d
    unfolding diff_union_def by (induction fs rule: rev_induct) (simp_all add: or.assoc)
  from this [of "diff_union es"] show ?thesis by (simp add: diff_union_def)
qed

lemma diff_union_single: "diff_union [e] = e_xor_diff e"
  by (simp add: diff_union_def)

lemma report_of_init: "report_of (nxmt_report_init r) []"
  by (simp add: report_of_def nxmt_report_init_def diff_union_def)

lemma report_of_record:
  assumes "report_of r es" and "wf_error e"
  shows "report_of (record_event r e) (es @ [e])"
proof (cases "es = []")
  case True
  with assms show ?thesis
    by (auto simp: report_of_def record_event_def nxmt_report_record_error_def Let_def wf_error_def
        diff_union_append diff_union_single) (simp add: diff_union_def)
next
  case False
  define lo hi where "lo = Min (e_offset ` set es)" and "hi = Max (e_offset ` set es)"
  have bounds: "Min (e_offset ` set (es @ [e])) = min (e_offset e) lo"
    "Max (e_offset ` set (es @ [e])) = max (e_offset e) hi"
    using False by (simp_all add: lo_def hi_def)
  from assms False have "has_first_error r" "error_count r = of_nat (length es)"
    "bit_diff_or r = diff_union es" "first r = hd es" "min_error_offset r = lo"
    "max_error_offset r = hi" "e_xor_diff e = e_expected e XOR e_actual e"
    by (simp_all add: report_of_def wf_error_def lo_def hi_def)
  with False show ?thesis
    unfolding report_of_def bounds
    by (auto simp: record_event_def nxmt_report_record_error_def Let_def
        diff_union_append diff_union_single min_def max_def)
qed

lemma report_of_merge:
  assumes r: "report_of r es" and s: "report_of s fs" and small: "length fs < 2 ^ 64"
  shows "report_of (nxmt_report_merge r s) (es @ fs)"
proof (cases "fs = []")
  case True
  with r s show ?thesis by (simp add: report_of_def nxmt_report_merge_def)
next
  case False
  have "(of_nat (length fs) :: u64) \<noteq> 0"
    using False small by (simp add: word_eq_iff_unat unat_of_nat)
  with s have count: "error_count s \<noteq> 0" by (simp add: report_of_def)
  show ?thesis
  proof (cases "es = []")
    case True
    with r s False count show ?thesis
      by (auto simp: report_of_def nxmt_report_merge_def Let_def) (simp_all add: diff_union_def)
  next
    case False
    define lo hi where "lo = Min (e_offset ` set es)" and "hi = Max (e_offset ` set es)"
    define lo' hi' where "lo' = Min (e_offset ` set fs)" and "hi' = Max (e_offset ` set fs)"
    have bounds: "Min (e_offset ` set (es @ fs)) = min lo lo'"
      "Max (e_offset ` set (es @ fs)) = max hi hi'"
      using False \<open>fs \<noteq> []\<close> by (simp_all add: lo_def lo'_def hi_def hi'_def image_Un Min_Un Max_Un)
    from r False have "has_first_error r" "error_count r = of_nat (length es)"
      "bit_diff_or r = diff_union es" "first r = hd es" "min_error_offset r = lo"
      "max_error_offset r = hi"
      by (simp_all add: report_of_def lo_def hi_def)
    moreover from s \<open>fs \<noteq> []\<close> have "has_first_error s" "error_count s = of_nat (length fs)"
      "bit_diff_or s = diff_union fs" "min_error_offset s = lo'" "max_error_offset s = hi'"
      by (simp_all add: report_of_def lo'_def hi'_def)
    ultimately show ?thesis
      using False count unfolding report_of_def bounds
      by (auto simp: nxmt_report_merge_def Let_def diff_union_append min_def max_def)
  qed
qed

section \<open>The interface\<close>

locale error_log =
  fixes init :: "'r \<Rightarrow> 'r"
    and record1 :: "'r \<Rightarrow> 'e \<Rightarrow> 'r"
    and merge1 :: "'r \<Rightarrow> 'r \<Rightarrow> 'r"
    and repr :: "'r \<Rightarrow> 'e list \<Rightarrow> bool"
    and wf :: "'e \<Rightarrow> bool"
    and limit :: nat
  assumes repr_init: "repr (init r) []"
    and repr_record: "repr r es \<Longrightarrow> wf e \<Longrightarrow> repr (record1 r e) (es @ [e])"
    and repr_merge: "repr r es \<Longrightarrow> repr s fs \<Longrightarrow> length fs < limit \<Longrightarrow> repr (merge1 r s) (es @ fs)"
begin

lemma repr_record_all:
  "repr r es \<Longrightarrow> (\<And>e. e \<in> set fs \<Longrightarrow> wf e) \<Longrightarrow> repr (fold (\<lambda>e r. record1 r e) fs r) (es @ fs)"
proof (induction fs arbitrary: r es)
  case Nil
  then show ?case by simp
next
  case (Cons f fs)
  then have "repr (record1 r f) (es @ [f])" by (simp add: repr_record)
  moreover have "wf e" if "e \<in> set fs" for e using Cons.prems that by simp
  ultimately have "repr (fold (\<lambda>e r. record1 r e) fs (record1 r f)) ((es @ [f]) @ fs)"
    by (rule Cons.IH)
  then show ?case by simp
qed

lemma repr_merge_all:
  "repr r es \<Longrightarrow> list_all2 (\<lambda>s fs. repr s fs \<and> length fs < limit) ss fss
    \<Longrightarrow> repr (fold (\<lambda>s r. merge1 r s) ss r) (es @ concat fss)"
proof (induction ss arbitrary: r es fss)
  case Nil
  then show ?case by simp
next
  case (Cons s ss)
  then obtain f fss' where f: "fss = f # fss'" "repr s f" "length f < limit"
    "list_all2 (\<lambda>s fs. repr s fs \<and> length fs < limit) ss fss'"
    by (auto simp: list_all2_Cons1)
  then have "repr (merge1 r s) (es @ f)" using Cons.prems by (simp add: repr_merge)
  with Cons.IH f have "repr (fold (\<lambda>s r. merge1 r s) ss (merge1 r s)) ((es @ f) @ concat fss')"
    by blast
  with f show ?case by simp
qed

end

interpretation rep: error_log nxmt_report_init record_event nxmt_report_merge report_of wf_error "2 ^ 64"
  by unfold_locales (auto intro: report_of_init report_of_record report_of_merge)

section \<open>Properties\<close>

text \<open>
  Property C25.  Merging the reports of any number of workers into a fresh report gives the
  report of all their errors together, in worker order: the first error of the first worker
  that has one, the sum of the counts, the least and the greatest offset and the union of
  the differing bits.
\<close>

theorem merge_of_workers:
  assumes "list_all2 (\<lambda>r es. report_of r es \<and> length es < 2 ^ 64) reports errors"
  shows "report_of (fold (\<lambda>src dst. nxmt_report_merge dst src) reports (nxmt_report_init r)) (concat errors)"
  using rep.repr_merge_all [OF report_of_init assms, of r] by simp

definition demo_error :: "u64 \<Rightarrow> NxmtError" where
  "demo_error offset = mk_error NXMT_MODE_QUICK NXMT_PHASE_ADDRESS 1 2 3 offset 5 4"

definition demo_report :: NxmtReport where
  "demo_report = \<lparr>has_first_error = True, first = demo_error 0, error_count = 9, min_error_offset = 1,
     max_error_offset = 2, bit_diff_or = 3\<rparr>"

theorem merge_of_workers_witness:
  "report_of (fold (\<lambda>src dst. nxmt_report_merge dst src)
      [record_event (nxmt_report_init demo_report) (demo_error 64), nxmt_report_init demo_report]
      (nxmt_report_init demo_report)) [demo_error 64]"
proof -
  have "wf_error (demo_error 64)" by (simp add: wf_error_def demo_error_def mk_error_def)
  from report_of_record [OF report_of_init this, of demo_report]
  have "list_all2 (\<lambda>r es. report_of r es \<and> length es < 2 ^ 64)
      [record_event (nxmt_report_init demo_report) (demo_error 64), nxmt_report_init demo_report]
      [[demo_error 64], []]"
    by (simp add: report_of_init)
  from merge_of_workers [OF this, of demo_report] show ?thesis by simp
qed

text \<open>
  A report that was initialised and then given any sequence of errors holds the
  first of them in full, their number, the range of their offsets and the union of their
  differing bits.
\<close>

theorem report_of_errors:
  assumes "\<forall>e \<in> set es. wf_error e"
  shows "report_of (fold (\<lambda>e r. record_event r e) es (nxmt_report_init r)) es"
  using rep.repr_record_all [OF report_of_init, of es r] assms by simp

theorem report_of_errors_witness:
  "report_of (fold (\<lambda>e r. record_event r e) [demo_error 64, demo_error 8] (nxmt_report_init demo_report))
    [demo_error 64, demo_error 8]"
  by (rule report_of_errors) (simp add: wf_error_def demo_error_def mk_error_def)

end
