(* ===== verification/Chunk_Verify.thy ===== *)
theory Chunk_Verify
  imports Chunk_Write Report
begin

text \<open>
  The read half of a chunk: \<open>nxmt_verify_chunk\<close> of \<^verbatim>\<open>source/core/runner.c\<close>.  Most cases
  first OR-reduce the differences of all words into an accumulator (with vector loads when
  \<open>neon\<close> is set), and walk over the words to record errors only if it is not zero.  Every
  case is proved to record exactly the words that differ from \<open>nxmt_expected_value\<close>, in
  ascending order.

  \<open>NxmtRunConfig\<close> is the record of \<^verbatim>\<open>runner.h\<close>; of its two pointers to shared atomics
  the model keeps whether they are set (the values live in the runner's world).
\<close>

unbundle bit_operations_syntax

record NxmtRunConfig =
  c_mode :: NxmtMode
  c_seed :: u64
  c_pass :: u64
  c_worker_id :: u32
  c_worker_count :: u32
  inject_mismatch :: bool
  has_stop_requested :: bool
  has_progress_bytes :: bool

section \<open>The accumulators\<close>

definition chunk_has_mismatch_fixed :: "mem \<Rightarrow> u64 \<Rightarrow> nat \<Rightarrow> u64 \<Rightarrow> bool" where
  "chunk_has_mismatch_fixed m p n target =
     (let acc = fst (for_by 1 0 n (\<lambda>k acc. acc OR (load64 m (widx p k) XOR target)) (0 :: u64))
      in acc \<noteq> 0)"

definition alternating_acc :: "mem \<Rightarrow> u64 \<Rightarrow> nat \<Rightarrow> u64 \<Rightarrow> u64 \<Rightarrow> u64" where
  "alternating_acc m p n a_first b_first =
     (let acc = fst (for_by 2 0 n
            (\<lambda>k acc. let acc = acc OR (load64 m (widx p k) XOR a_first)
                     in acc OR (load64 m (widx p (k + 1)) XOR b_first)) 0)
      in if odd n then acc OR (load64 m (widx p (n - 1)) XOR a_first) else acc)"

definition address_acc :: "bool \<Rightarrow> mem \<Rightarrow> u64 \<Rightarrow> nat \<Rightarrow> u64 \<Rightarrow> u64 \<Rightarrow> u64" where
  "address_acc neon m p n base_off msk =
     (let (acc, k) =
        (if neon
         then let mask2 = vdupq_n_u64 msk;
                  step4 = vdupq_n_u64 32;
                  v01 = vsetq_lane_u64 (base_off + 8) (vdupq_n_u64 base_off) 1;
                  v23 = vsetq_lane_u64 (base_off + 24) (vdupq_n_u64 (base_off + 16)) 1;
                  (vs, k) = for_by 4 0 n
                    (\<lambda>k (acc_v, v01, v23).
                       let e01 = veorq_u64 v01 mask2;
                           e23 = veorq_u64 v23 mask2;
                           a01 = vld1q_u64 m (widx p k);
                           a23 = vld1q_u64 m (widx p (k + 2));
                           acc_v = vorrq_u64 acc_v (veorq_u64 e01 a01);
                           acc_v = vorrq_u64 acc_v (veorq_u64 e23 a23)
                       in (acc_v, vaddq_u64 v01 step4, vaddq_u64 v23 step4))
                    (vdupq_n_u64 0, v01, v23)
              in (0 OR (vgetq_lane_u64 (fst vs) 0 OR vgetq_lane_u64 (fst vs) 1), k)
         else (0, 0))
      in fst (for_by 1 k n
           (\<lambda>k acc. acc OR (load64 m (widx p k) XOR ((base_off + of_nat k * NXMT_WORD_BYTES) XOR msk)))
           acc))"

definition random_acc :: "bool \<Rightarrow> mem \<Rightarrow> u64 \<Rightarrow> nat \<Rightarrow> u64 \<Rightarrow> u64 \<Rightarrow> u64" where
  "random_acc neon m p n start_word msk =
     (let (acc, k) =
        (if neon
         then let mask2 = vdupq_n_u64 msk;
                  step2 = vdupq_n_u64 2;
                  idx = vsetq_lane_u64 (start_word + 1) (vdupq_n_u64 start_word) 1;
                  (vs, k) = for_by 2 0 n
                    (\<lambda>k (acc_v, idx).
                       let rev = vreinterpretq_u64_u8 (vrev64q_u8 (vreinterpretq_u8_u64 idx));
                           expected = veorq_u64 rev mask2;
                           actual = vld1q_u64 m (widx p k);
                           acc_v = vorrq_u64 acc_v (veorq_u64 expected actual)
                       in (acc_v, vaddq_u64 idx step2))
                    (vdupq_n_u64 0, idx)
              in (0 OR (vgetq_lane_u64 (fst vs) 0 OR vgetq_lane_u64 (fst vs) 1), k)
         else (0, 0))
      in fst (for_by 1 k n
           (\<lambda>k acc. acc OR (load64 m (widx p k) XOR (bswap64 (start_word + of_nat k) XOR msk)))
           acc))"

definition narrow_expected :: "u64 \<Rightarrow> u64 \<Rightarrow> u64 \<Rightarrow> nat \<Rightarrow> u64" where
  "narrow_expected base_off pass_off seed k =
     (let X = (base_off + of_nat k * NXMT_WORD_BYTES + pass_off) AND 0xff
      in (X * 0x0101010101010101) XOR 0x0706050403020100 XOR seed)"

definition narrow_acc :: "mem \<Rightarrow> u64 \<Rightarrow> nat \<Rightarrow> u64 \<Rightarrow> u64 \<Rightarrow> u64 \<Rightarrow> u64" where
  "narrow_acc m p n base_off pass_off seed =
     fst (for_by 1 0 n
       (\<lambda>k acc. acc OR (load64 m (widx p k) XOR narrow_expected base_off pass_off seed k)) 0)"

text \<open>
  \<open>STREAM\<close> compares with \<^verbatim>\<open>memcmp\<close> against the stamp, piece by piece; two buffers of
  words differ when some word differs.
\<close>

definition memcmp_words :: "mem \<Rightarrow> u64 \<Rightarrow> (nat \<Rightarrow> u64) \<Rightarrow> nat \<Rightarrow> bool" where
  "memcmp_words m p src n = list_ex (\<lambda>i. load64 m (widx p i) \<noteq> src i) [0..<n]"

function stream_has_mismatch ::
    "mem \<Rightarrow> u64 \<Rightarrow> u64 \<Rightarrow> (nat \<Rightarrow> u64) \<Rightarrow> u64 \<Rightarrow> u64 \<Rightarrow> bool" where
  "stream_has_mismatch m p chunk_words stamp stamp_pos k =
     (if k < chunk_words then
        let need = chunk_words - k;
            avail = of_nat NXMT_STREAM_STAMP_WORDS - stamp_pos;
            cmp = (if need < avail then need else avail)
        in if memcmp_words m (widx p (unat k)) (\<lambda>i. stamp (unat stamp_pos + i)) (unat cmp)
           then True
           else stream_has_mismatch m p chunk_words stamp
                  ((stamp_pos + cmp) AND (of_nat NXMT_STREAM_STAMP_WORDS - 1)) (k + cmp)
      else False)"
  by pat_completeness auto
termination
proof (relation "measures [\<lambda>(m, p, n, stamp, pos, k). unat n - unat k,
    \<lambda>(m, p, n, stamp, pos, k). if pos = 1024 then 1 else 0]", goal_cases)
  case 1
  show ?case by simp
next
  case (2 m p n stamp pos k need avail cmp)
  then have cmp: "cmp = (if n - k < 1024 - pos then n - k else 1024 - pos)" by simp
  from stream_piece_decreases [OF 2(1) cmp] show ?case by auto
qed

declare stream_has_mismatch.simps [simp del]

section \<open>The walk and the cases of the switch\<close>

text \<open>The per-word walk that every case ends with, for its expected values.\<close>

definition verify_walk ::
    "mem \<Rightarrow> u64 \<Rightarrow> nat \<Rightarrow> u64 \<Rightarrow> NxmtPhase \<Rightarrow> NxmtRunConfig \<Rightarrow> (nat \<Rightarrow> u64) \<Rightarrow> NxmtReport \<Rightarrow> NxmtReport" where
  "verify_walk m p n base_off phase config expected report =
     fst (for_by 1 0 n
       (\<lambda>k report.
          let actual = load64 m (widx p k)
          in if actual \<noteq> expected k
             then nxmt_report_record_error report (c_mode config) phase (c_seed config) (c_pass config)
                    (c_worker_id config) (base_off + of_nat k * NXMT_WORD_BYTES) (expected k) actual
             else report) report)"

definition nxmt_verify_chunk ::
    "bool \<Rightarrow> mem \<Rightarrow> u64 \<Rightarrow> u64 \<Rightarrow> u64 \<Rightarrow> NxmtPhase \<Rightarrow> NxmtRunConfig \<Rightarrow> NxmtReport \<Rightarrow> NxmtReport" where
  "nxmt_verify_chunk neon m p chunk_words start_word phase config report =
     (let seed = c_seed config;
          pass = c_pass config;
          base_off = start_word * NXMT_WORD_BYTES;
          n = unat chunk_words;
          walk = (\<lambda>expected. verify_walk m p n base_off phase config expected report)
      in case phase of
        NXMT_PHASE_FIXED_A \<Rightarrow>
          (if \<not> chunk_has_mismatch_fixed m p n kFixedA then report else walk (\<lambda>_. kFixedA))
      | NXMT_PHASE_FIXED_5 \<Rightarrow>
          (if \<not> chunk_has_mismatch_fixed m p n kFixed5 then report else walk (\<lambda>_. kFixed5))
      | NXMT_PHASE_CHECKER \<Rightarrow>
          (let parity = start_word AND 1;
               a_first = (if parity \<noteq> 0 then kFixed5 else kFixedA);
               b_first = a_first XOR (kFixedA XOR kFixed5)
           in if alternating_acc m p n a_first b_first = 0 then report
              else walk (\<lambda>k. if (start_word + of_nat k) AND 1 \<noteq> 0 then kFixed5 else kFixedA))
      | NXMT_PHASE_ADDRESS \<Rightarrow>
          (let mask = seed XOR (pass * kAddrPassMul)
           in if address_acc neon m p n base_off mask = 0 then report
              else walk (\<lambda>kk. (base_off + of_nat kk * NXMT_WORD_BYTES) XOR mask))
      | NXMT_PHASE_RANDOM \<Rightarrow>
          (let mask = seed XOR (pass * kRandPassMul)
           in if random_acc neon m p n start_word mask = 0 then report
              else walk (\<lambda>kk. bswap64 (start_word + of_nat kk) XOR mask))
      | NXMT_PHASE_WALKING \<Rightarrow>
          (let pos_base = start_word + pass
           in walk (\<lambda>k. push_bit (unat ((pos_base + of_nat k) AND 63)) 1))
      | NXMT_PHASE_NARROW \<Rightarrow>
          (let pass_off = pass * NXMT_WORD_BYTES
           in if narrow_acc m p n base_off pass_off seed = 0 then report
              else walk (narrow_expected base_off pass_off seed))
      | NXMT_PHASE_BITSPREAD \<Rightarrow>
          (let a_first = (if (start_word + pass) AND 1 \<noteq> 0 then kBitSpread1 else kBitSpread0);
               b_first = a_first XOR (kBitSpread0 XOR kBitSpread1)
           in if alternating_acc m p n a_first b_first = 0 then report
              else walk (\<lambda>k. if (start_word + of_nat k + pass) AND 1 \<noteq> 0
                              then kBitSpread1 else kBitSpread0))
      | NXMT_PHASE_STREAM \<Rightarrow>
          (let stamp = nxmt_fill_stream_stamp neon (\<lambda>_. 0) seed pass;
               stamp_pos = start_word AND (of_nat NXMT_STREAM_STAMP_WORDS - 1)
           in if \<not> stream_has_mismatch m p chunk_words stamp stamp_pos 0 then report
              else let mask = seed XOR (pass * kStreamPassMul)
                   in walk (\<lambda>kk. ((base_off + of_nat kk * NXMT_WORD_BYTES) AND 0x1fff) XOR mask)))"

section \<open>What the accumulators say\<close>

lemma or_loop_zero:
  fixes g :: "nat \<Rightarrow> u64"
  assumes "k \<le> n"
  shows "fst (for_by 1 k n (\<lambda>k acc. acc OR g k) acc) = 0
    \<longleftrightarrow> acc = 0 \<and> (\<forall>i. k \<le> i \<and> i < n \<longrightarrow> g i = 0)"
proof -
  have "fold (\<lambda>k acc. acc OR g k) ks acc = 0 \<longleftrightarrow> acc = 0 \<and> (\<forall>i \<in> set ks. g i = 0)" for ks
    by (induction ks arbitrary: acc) auto
  from this [of "[k..<n]"] show ?thesis by (simp only: for_by_one [OF assms]) auto
qed

lemma all_less_split:
  fixes k n :: nat
  assumes "k \<le> n"
  shows "(\<forall>i<n. P i) \<longleftrightarrow> (\<forall>i<k. P i) \<and> (\<forall>i. k \<le> i \<and> i < n \<longrightarrow> P i)"
proof -
  have "i < n \<longleftrightarrow> i < k \<or> k \<le> i \<and> i < n" for i using assms by auto
  then show ?thesis by blast
qed

lemma ex_less_split:
  fixes k n :: nat
  assumes "k \<le> n"
  shows "(\<exists>i<n. P i) \<longleftrightarrow> (\<exists>i<k. P i) \<or> (\<exists>i < n - k. P (k + i))"
proof -
  have "i < n \<longleftrightarrow> i < k \<or> (\<exists>j < n - k. i = k + j)" for i
    using assms by (auto intro!: exI [of _ "i - k"])
  then show ?thesis by blast
qed

lemma vector_acc:
  fixes V :: "nat \<Rightarrow> 'v" and g :: "nat \<Rightarrow> u64"
    and body :: "nat \<Rightarrow> (u64 \<times> u64) \<times> 'v \<Rightarrow> (u64 \<times> u64) \<times> 'v"
  assumes st: "0 < st" and init: "v0 = V 0"
    and step: "\<And>j (x :: u64) (y :: u64). \<exists>x' y'. body j ((x, y), V j) = ((x', y'), V (j + st)) \<and>
      (x' = 0 \<and> y' = 0 \<longleftrightarrow> x = 0 \<and> y = 0 \<and> (\<forall>i. j \<le> i \<and> i < j + st \<longrightarrow> g i = 0))"
  shows "(case (if neon then (case for_by st 0 n body (vdupq_n_u64 0, v0) of (vs, k) \<Rightarrow>
        (0 OR (vgetq_lane_u64 (fst vs) 0 OR vgetq_lane_u64 (fst vs) 1), k)) else (0, 0))
     of (acc, k) \<Rightarrow> fst (for_by 1 k n (\<lambda>k acc. acc OR g k) acc)) = 0 \<longleftrightarrow> (\<forall>i<n. g i = 0)"
proof (cases neon)
  case True
  let ?I = "\<lambda>k s. \<exists>(x :: u64) (y :: u64). s = ((x, y), V k) \<and> (x = 0 \<and> y = 0 \<longleftrightarrow> (\<forall>i<k. g i = 0))"
  have inv: "case for_by st 0 n body (vdupq_n_u64 0, v0) of (s', k') \<Rightarrow>
      ?I k' s' \<and> 0 \<le> k' \<and> n < k' + st \<and> (0 \<le> n \<longrightarrow> k' \<le> n)"
  proof (rule for_by_inv [where I = ?I])
    fix j t assume "?I j t" and "j + st \<le> n"
    then obtain x y where t: "t = ((x, y), V j)" and xy: "x = 0 \<and> y = 0 \<longleftrightarrow> (\<forall>i<j. g i = 0)"
      by blast
    from step [of j x y] obtain x' y' where
      b: "body j ((x, y), V j) = ((x', y'), V (j + st))" and
      xy': "x' = 0 \<and> y' = 0 \<longleftrightarrow> x = 0 \<and> y = 0 \<and> (\<forall>i. j \<le> i \<and> i < j + st \<longrightarrow> g i = 0)"
      by blast
    have "(\<forall>i<j + st. g i = 0) \<longleftrightarrow> (\<forall>i<j. g i = 0) \<and> (\<forall>i. j \<le> i \<and> i < j + st \<longrightarrow> g i = 0)"
      by (rule all_less_split) simp
    with b t xy xy' show "?I (j + st) (body j t)" by auto
  qed (use st init in \<open>auto simp: vdupq_n_u64_def\<close>)
  then obtain x y k' where "for_by st 0 n body (vdupq_n_u64 0, v0) = (((x, y), V k'), k')"
    "x = 0 \<and> y = 0 \<longleftrightarrow> (\<forall>i<k'. g i = 0)" "k' \<le> n"
    by (auto split: prod.splits)
  moreover have "(\<forall>i<n. g i = 0) \<longleftrightarrow> (\<forall>i<k'. g i = 0) \<and> (\<forall>i. k' \<le> i \<and> i < n \<longrightarrow> g i = 0)"
    if "k' \<le> n" using that by (rule all_less_split)
  ultimately show ?thesis using True by (auto simp: or_loop_zero [simplified])
next
  case False
  then show ?thesis using or_loop_zero [of 0 n g 0] by simp
qed

lemma all_block:
  fixes j :: nat
  shows "(\<forall>i. j \<le> i \<and> i < j + 2 \<longrightarrow> P i) \<longleftrightarrow> P j \<and> P (j + 1)"
    and "(\<forall>i. j \<le> i \<and> i < j + 4 \<longrightarrow> P i) \<longleftrightarrow> P j \<and> P (j + 1) \<and> P (j + 2) \<and> P (j + 3)"
    and "(\<forall>i. j \<le> i \<and> i < Suc (Suc j) \<longrightarrow> P i) \<longleftrightarrow> P j \<and> P (Suc j)"
proof -
  have "j \<le> i \<and> i < j + 2 \<longleftrightarrow> i = j \<or> i = j + 1" for i by auto
  then show "(\<forall>i. j \<le> i \<and> i < j + 2 \<longrightarrow> P i) \<longleftrightarrow> P j \<and> P (j + 1)" by auto
  then show "(\<forall>i. j \<le> i \<and> i < Suc (Suc j) \<longrightarrow> P i) \<longleftrightarrow> P j \<and> P (Suc j)" by simp
  have "j \<le> i \<and> i < j + 4 \<longleftrightarrow> i = j \<or> i = j + 1 \<or> i = j + 2 \<or> i = j + 3" for i by auto
  then show "(\<forall>i. j \<le> i \<and> i < j + 4 \<longrightarrow> P i) \<longleftrightarrow> P j \<and> P (j + 1) \<and> P (j + 2) \<and> P (j + 3)"
    by auto
qed

lemma fixed_mismatch_iff:
  "chunk_has_mismatch_fixed m p n target \<longleftrightarrow> (\<exists>k<n. load64 m (widx p k) \<noteq> target)"
  using or_loop_zero [of 0 n "\<lambda>k. load64 m (widx p k) XOR target" 0]
  by (simp add: chunk_has_mismatch_fixed_def)

lemma address_acc_zero:
  "address_acc neon m p n base_off msk = 0
    \<longleftrightarrow> (\<forall>k<n. load64 m (widx p k) = (base_off + of_nat k * 8) XOR msk)"
proof -
  let ?V = "\<lambda>k. let b = base_off + of_nat k * 8 :: u64 in ((b, b + 8), (b + 16, b + 24))"
  let ?g = "\<lambda>k. load64 m (widx p k) XOR ((base_off + of_nat k * 8) XOR msk)"
  have "address_acc neon m p n base_off msk = 0 \<longleftrightarrow> (\<forall>i<n. ?g i = 0)"
    unfolding address_acc_def Let_def
    by (rule vector_acc [where V = ?V])
      (auto simp: neon_simps all_block widx_simps algebra_simps Let_def)
  then show ?thesis by simp
qed

lemma random_acc_zero:
  "random_acc neon m p n start_word msk = 0
    \<longleftrightarrow> (\<forall>k<n. load64 m (widx p k) = bswap64 (start_word + of_nat k) XOR msk)"
proof -
  let ?V = "\<lambda>k. let b = start_word + of_nat k :: u64 in (b, b + 1)"
  let ?g = "\<lambda>k. load64 m (widx p k) XOR (bswap64 (start_word + of_nat k) XOR msk)"
  have "random_acc neon m p n start_word msk = 0 \<longleftrightarrow> (\<forall>i<n. ?g i = 0)"
    unfolding random_acc_def Let_def
    by (rule vector_acc [where V = ?V])
      (auto simp: neon_simps all_block widx_simps algebra_simps Let_def)
  then show ?thesis by simp
qed

lemma narrow_acc_zero:
  "narrow_acc m p n base_off pass_off seed = 0
    \<longleftrightarrow> (\<forall>k<n. load64 m (widx p k) = narrow_expected base_off pass_off seed k)"
  using or_loop_zero [of 0 n "\<lambda>k. load64 m (widx p k) XOR narrow_expected base_off pass_off seed k" 0]
  by (simp add: narrow_acc_def)

lemma alternating_acc_zero:
  "alternating_acc m p n a b = 0
    \<longleftrightarrow> (\<forall>k<n. load64 m (widx p k) = (if even k then a else b))"
proof -
  let ?e = "\<lambda>k. load64 m (widx p k) = (if even k then a else b)"
  let ?body = "\<lambda>k acc. acc OR (load64 m (widx p k) XOR a) OR (load64 m (widx p (k + 1)) XOR b)"
  let ?I = "\<lambda>k acc. even k \<and> (acc = 0 \<longleftrightarrow> (\<forall>i<k. ?e i))"
  have "case for_by 2 0 n ?body 0 of (s', k') \<Rightarrow>
      ?I k' s' \<and> 0 \<le> k' \<and> n < k' + 2 \<and> (0 \<le> n \<longrightarrow> k' \<le> n)"
    by (rule for_by_inv [where I = ?I]) (auto simp: less_Suc_eq)
  then obtain acc k' where r: "for_by 2 0 n ?body 0 = (acc, k')" and "?I k' acc"
    and "n < k' + 2" "k' \<le> n"
    by (auto split: prod.splits)
  then have "odd n \<Longrightarrow> n = Suc k'" "even n \<Longrightarrow> n = k'"
    by (auto elim!: evenE oddE)
  note k' = this
  show ?thesis
  proof (cases "even n")
    case True
    with k' r \<open>?I k' acc\<close> show ?thesis by (simp add: alternating_acc_def or.assoc)
  next
    case False
    then have n: "n = Suc k'" by (rule k')
    have "alternating_acc m p n a b = 0 \<longleftrightarrow> acc = 0 \<and> load64 m (widx p k') = a"
      using r False n by (simp add: alternating_acc_def or.assoc)
    with \<open>?I k' acc\<close> n show ?thesis by (simp add: All_less_Suc conj_commute)
  qed
qed

lemma stream_mismatch_iff:
  assumes "unat pos < 1024" and "k \<le> n"
  shows "stream_has_mismatch m p n stamp pos k \<longleftrightarrow>
    (\<exists>i < unat n - unat k. load64 m (widx p (unat k + i)) \<noteq> stamp ((unat pos + i) mod 1024))"
  using assms
proof (induction m p n stamp pos k rule: stream_has_mismatch.induct)
  case (1 m p n stamp pos k)
  show ?case
  proof (cases "k < n")
    case False
    with "1.prems" have "k = n" by simp
    then show ?thesis by (simp add: stream_has_mismatch.simps)
  next
    case True
    define cmp where "cmp = (if n - k < 1024 - pos then n - k else 1024 - pos)"
    define c where "c = unat cmp"
    let ?bad = "\<lambda>i. load64 m (widx p (unat k + i)) \<noteq> stamp ((unat pos + i) mod 1024)"
    let ?pos = "(pos + cmp) AND 1023"
    note piece = stream_piece [OF True "1.prems"(1) cmp_def, folded c_def]
    have head: "memcmp_words m (widx p (unat k)) (\<lambda>i. stamp (unat pos + i)) c \<longleftrightarrow> (\<exists>i<c. ?bad i)"
    proof -
      have "(unat pos + i) mod 1024 = unat pos + i" if "i < c" for i
        using that piece(1) by (intro mod_less) linarith
      then show ?thesis by (auto simp: memcmp_words_def widx_simps list_ex_iff)
    qed
    have tail: "stream_has_mismatch m p n stamp ?pos (k + cmp)
        \<longleftrightarrow> (\<exists>i < unat n - unat k - c. ?bad (c + i))"
      if "\<not> memcmp_words m (widx p (unat k)) (\<lambda>i. stamp (unat pos + i)) c"
    proof -
      have "unat ?pos < 1024" using piece(4) by simp
      moreover have "k + cmp \<le> n" using piece(3) by (simp add: word_le_nat_alt piece(2))
      ultimately show ?thesis
        using "1.IH" [OF True refl refl refl, unfolded of_nat_numeral, folded cmp_def, folded c_def] that
        by (simp add: piece(2,4) mod_simps add.assoc)
    qed
    have "stream_has_mismatch m p n stamp pos k \<longleftrightarrow> (\<exists>i<c. ?bad i) \<or> (\<exists>i < unat n - unat k - c. ?bad (c + i))"
      using True head tail
      by (auto simp: stream_has_mismatch.simps [of _ _ _ _ pos] Let_def cmp_def [symmetric] c_def [symmetric])
    also have "\<dots> \<longleftrightarrow> (\<exists>i < unat n - unat k. ?bad i)"
      using ex_less_split [of c "unat n - unat k" ?bad] piece(3) by simp
    finally show ?thesis .
  qed
qed

section \<open>The errors of a chunk\<close>

text \<open>
  The words of a chunk that differ from the expected pattern, as the errors to record:
  the specification of \<open>nxmt_verify_chunk\<close>.
\<close>

definition chunk_errors ::
    "mem \<Rightarrow> u64 \<Rightarrow> nat \<Rightarrow> u64 \<Rightarrow> NxmtPhase \<Rightarrow> NxmtRunConfig \<Rightarrow> NxmtError list" where
  "chunk_errors m p n start_word phase config =
     (let expected = expected_word (c_seed config) phase (c_pass config) start_word
      in map (\<lambda>k. mk_error (c_mode config) phase (c_seed config) (c_pass config) (c_worker_id config)
                 ((start_word + of_nat k) * 8) (expected k) (load64 m (widx p k)))
           (filter (\<lambda>k. load64 m (widx p k) \<noteq> expected k) [0..<n]))"

abbreviation record_all :: "NxmtError list \<Rightarrow> NxmtReport \<Rightarrow> NxmtReport" where
  "record_all es r \<equiv> fold (\<lambda>e r. record_event r e) es r"

lemma verify_walk_errors:
  assumes "\<And>k. k < n \<Longrightarrow> expected k = expected_word (c_seed config) phase (c_pass config) start_word k"
  shows "verify_walk m p n (start_word * 8) phase config expected report
    = record_all (chunk_errors m p n start_word phase config) report"
proof -
  let ?E = "expected_word (c_seed config) phase (c_pass config) start_word"
  let ?err = "\<lambda>k. mk_error (c_mode config) phase (c_seed config) (c_pass config) (c_worker_id config)
                 ((start_word + of_nat k) * 8) (?E k) (load64 m (widx p k))"
  have "verify_walk m p n (start_word * 8) phase config expected report
      = fold (\<lambda>k r. if load64 m (widx p k) \<noteq> ?E k then record_event r (?err k) else r) [0..<n] report"
    unfolding verify_walk_def Let_def
    by (subst for_by_one) (auto intro!: fold_cong_set
        simp: assms record_event_def mk_error_def algebra_simps)
  then show ?thesis
    by (simp add: fold_if_filter chunk_errors_def Let_def fold_map comp_def)
qed

lemma chunk_errors_Nil:
  assumes "\<And>k. k < n \<Longrightarrow> load64 m (widx p k) = expected_word (c_seed config) phase (c_pass config) start_word k"
  shows "chunk_errors m p n start_word phase config = []"
  using assms by (simp add: chunk_errors_def Let_def filter_empty_conv)

text \<open>
  The shape of every two-stage case: nothing is recorded when the first stage finds nothing,
  and the first stage is exact.
\<close>

lemma two_stage_errors:
  assumes exp: "\<And>k. k < n \<Longrightarrow> expected k = expected_word (c_seed config) phase (c_pass config) start_word k"
    and clean: "clean \<longleftrightarrow> (\<forall>k<n. load64 m (widx p k) = expected k)"
  shows "(if clean then report else verify_walk m p n (start_word * 8) phase config expected report)
    = record_all (chunk_errors m p n start_word phase config) report"
  using verify_walk_errors [of n expected config phase start_word m p report, OF exp]
    chunk_errors_Nil [of n m p config phase start_word] exp clean
  by auto

lemma stamp_clean:
  "\<not> stream_has_mismatch m p chunk_words (nxmt_fill_stream_stamp neon (\<lambda>_. 0) seed pass)
      (start_word AND 1023) 0
    \<longleftrightarrow> (\<forall>k < unat chunk_words. load64 m (widx p k)
          = ((start_word * 8 + of_nat k * 8) AND 0x1fff) XOR (seed XOR (pass * kStreamPassMul)))"
proof -
  have pos: "unat (start_word AND 1023) = unat start_word mod 1024"
    using and_mask_eq_mod [of start_word 10] by simp
  show ?thesis
    by (simp add: stream_mismatch_iff pos mod_simps stream_stamp_init stream_word_period
        distrib_right)
qed

lemma verify_chunk_record:
  assumes "unat start_word + unat chunk_words < 2 ^ 61"
  shows "nxmt_verify_chunk neon m p chunk_words start_word phase config report
    = record_all (chunk_errors m p (unat chunk_words) start_word phase config) report"
proof -
  have idx: "unat start_word + k < 2 ^ 61" if "k < unat chunk_words" for k
    using assms that by simp
  have parity: "(start_word + of_nat k + c_pass config) AND 1 \<noteq> 0
      \<longleftrightarrow> ((start_word + c_pass config) AND 1 \<noteq> 0) \<noteq> odd k" for k
    using parity_start_plus [of "start_word + c_pass config" k] by (simp add: ac_simps)
  note simps = expected_word_simps expected_word_index_simps [OF idx]
  show ?thesis
  proof (cases phase)
    case NXMT_PHASE_WALKING
    then show ?thesis
      unfolding NXMT_PHASE_WALKING nxmt_verify_chunk_def Let_def NxmtPhase.case
      by (intro verify_walk_errors) (simp add: simps)
  next
    case NXMT_PHASE_CHECKER
    then show ?thesis
      unfolding NXMT_PHASE_CHECKER nxmt_verify_chunk_def Let_def NxmtPhase.case
      by (intro two_stage_errors) (auto simp: simps parity_start_plus alternating_acc_zero)
  next
    case NXMT_PHASE_BITSPREAD
    then show ?thesis
      unfolding NXMT_PHASE_BITSPREAD nxmt_verify_chunk_def Let_def NxmtPhase.case
      by (intro two_stage_errors) (auto simp: simps parity alternating_acc_zero)
  next
    case NXMT_PHASE_FIXED_A
    then show ?thesis
      unfolding NXMT_PHASE_FIXED_A nxmt_verify_chunk_def Let_def NxmtPhase.case
      by (intro two_stage_errors) (auto simp: simps fixed_mismatch_iff)
  next
    case NXMT_PHASE_FIXED_5
    then show ?thesis
      unfolding NXMT_PHASE_FIXED_5 nxmt_verify_chunk_def Let_def NxmtPhase.case
      by (intro two_stage_errors) (auto simp: simps fixed_mismatch_iff)
  next
    case NXMT_PHASE_ADDRESS
    then show ?thesis
      unfolding NXMT_PHASE_ADDRESS nxmt_verify_chunk_def Let_def NxmtPhase.case
      by (intro two_stage_errors) (auto simp: simps address_acc_zero)
  next
    case NXMT_PHASE_RANDOM
    then show ?thesis
      unfolding NXMT_PHASE_RANDOM nxmt_verify_chunk_def Let_def NxmtPhase.case
      by (intro two_stage_errors) (auto simp: simps random_acc_zero)
  next
    case NXMT_PHASE_NARROW
    then show ?thesis
      unfolding NXMT_PHASE_NARROW nxmt_verify_chunk_def Let_def NxmtPhase.case
      by (intro two_stage_errors)
        (auto simp: simps narrow_acc_zero narrow_expected_def distrib_right)
  next
    case NXMT_PHASE_STREAM
    then show ?thesis
      unfolding NXMT_PHASE_STREAM nxmt_verify_chunk_def Let_def NxmtPhase.case
      by (intro two_stage_errors) (auto simp: simps stamp_clean distrib_right)
  qed
qed

text \<open>
  Property C7.  For every phase, with the vector loops or without them, verifying a chunk
  records exactly the words that differ from \<open>nxmt_expected_value\<close> of their offset, in
  ascending order: the branch-free first stage (the accumulator, or \<^verbatim>\<open>memcmp\<close> against the
  stamp) never hides a mismatch and never reports a word that is right.
\<close>

theorem verify_chunk_exact:
  assumes "unat start_word + unat chunk_words < 2 ^ 61"
  shows "nxmt_verify_chunk neon m p chunk_words start_word phase config report
    = fold (\<lambda>k r.
        let expected = nxmt_expected_value (c_seed config) phase (c_pass config) ((start_word + of_nat k) * 8);
            actual = load64 m (widx p k)
        in if actual \<noteq> expected
           then nxmt_report_record_error r (c_mode config) phase (c_seed config) (c_pass config)
                  (c_worker_id config) ((start_word + of_nat k) * 8) expected actual
           else r) [0..<unat chunk_words] report"
  unfolding verify_chunk_record [OF assms] chunk_errors_def expected_word_def Let_def
  by (simp add: fold_map comp_def record_event_def mk_error_def fold_if_filter [symmetric])
    (rule fold_cong_set, simp add: distrib_right)

theorem verify_chunk_exact_witness:
  "nxmt_verify_chunk True (\<lambda>_. 0) 0x8000 1 3 NXMT_PHASE_FIXED_5
      \<lparr>c_mode = NXMT_MODE_QUICK, c_seed = 0, c_pass = 0, c_worker_id = 2, c_worker_count = 3,
       inject_mismatch = False, has_stop_requested = False, has_progress_bytes = False\<rparr>
      \<lparr>has_first_error = False, first = mk_error NXMT_MODE_QUICK NXMT_PHASE_FIXED_A 0 0 0 0 0 0,
       error_count = 0, min_error_offset = 0, max_error_offset = 0, bit_diff_or = 0\<rparr>
    = nxmt_report_record_error
      \<lparr>has_first_error = False, first = mk_error NXMT_MODE_QUICK NXMT_PHASE_FIXED_A 0 0 0 0 0 0,
       error_count = 0, min_error_offset = 0, max_error_offset = 0, bit_diff_or = 0\<rparr> NXMT_MODE_QUICK NXMT_PHASE_FIXED_5 0 0 2 24 0x5555555555555555 0"
proof -
  have "load64 (\<lambda>_. 0) a = 0" for a by (simp add: load64_def map_replicate_const) code_simp
  then show ?thesis
    by (subst verify_chunk_exact) (simp_all add: nxmt_expected_value_def Let_def)
qed

end
