(* ===== verification/Arena.thy ===== *)
theory Arena
  imports Base
begin

text \<open>
  \<^verbatim>\<open>source/core/arena.c\<close>: the arena computed from a heap range (its whole pages), the
  selection of the memory total to report, the reserve kept back for the runtime heap, the
  percentage in thousandths computed without a 128-bit product, and the division of the
  arena's words among the workers.  A pointer is its 64-bit address.

  The locale \<open>block_partition\<close> is what the runner and the workers rely on: the blocks of
  the workers are consecutive and exhaust the words, hence every word belongs to exactly
  one worker.
\<close>

unbundle bit_operations_syntax

section \<open>Data\<close>

record NxmtArena =
  a_base :: u64
  a_size :: u64
  a_words :: u64

datatype NxmtMemorySource =
    NXMT_MEMORY_SOURCE_NONE | NXMT_MEMORY_SOURCE_PHYSICAL_POOLS
  | NXMT_MEMORY_SOURCE_PROCESS_TOTAL | NXMT_MEMORY_SOURCE_OVERRIDE_HEAP

record NxmtMemorySelection =
  m_total :: u64
  m_source :: NxmtMemorySource
  extended_memory_detected :: bool

lemma unat_half: "unat (drop_bit (Suc 0) scale) = unat scale div 2" for scale :: u64
  by (simp add: drop_bit_Suc unat_div)

lemma unat_half_less: "scale \<noteq> 0 \<Longrightarrow> unat (drop_bit (Suc 0) scale) < unat scale" for scale :: u64
  by (simp add: unat_half unat_gt_0)

section \<open>Operations\<close>

definition align_up_u64 :: "u64 \<Rightarrow> u64 \<Rightarrow> u64 option" where
  "align_up_u64 value align =
     (let mask = align - 1
      in if value > UINT64_MAX - mask then None else Some ((value + mask) AND NOT mask))"

definition align_down_u64 :: "u64 \<Rightarrow> u64 \<Rightarrow> u64" where
  "align_down_u64 value align = value AND NOT (align - 1)"

definition zero_arena :: "u64 \<Rightarrow> NxmtArena" where
  "zero_arena base = \<lparr>a_base = base, a_size = 0, a_words = 0\<rparr>"

text \<open>
  The loop of \<open>scaled_remainder_term\<close>: its state is the quotient, the accumulated
  remainder and the term \<open>remainder * 2^i\<close> as a quotient and a remainder.
\<close>

function scaled_remainder_loop :: "u64 \<Rightarrow> u64 \<Rightarrow> u64 \<Rightarrow> u64 \<Rightarrow> u64 \<Rightarrow> u64 \<Rightarrow> u64" where
  "scaled_remainder_loop denominator scale quot accumulated_remainder term_quotient term_remainder =
     (if scale \<noteq> 0 then
        let odd = (scale AND 1 \<noteq> 0);
            quot = (if odd then quot + term_quotient else quot)
        in if odd \<and> quot = UINT64_MAX then UINT64_MAX
           else
             let (quot, accumulated_remainder) =
                   (if odd \<and> term_remainder \<noteq> 0 then
                      if term_remainder \<ge> denominator - accumulated_remainder
                      then (quot + 1, term_remainder - (denominator - accumulated_remainder))
                      else (quot, accumulated_remainder + term_remainder)
                    else (quot, accumulated_remainder));
                 scale = drop_bit 1 scale
             in if scale = 0 then quot
                else
                  let term_quotient = term_quotient * 2
                  in if term_remainder \<ge> denominator - term_remainder
                     then scaled_remainder_loop denominator scale quot accumulated_remainder
                            (term_quotient + 1) (term_remainder - (denominator - term_remainder))
                     else scaled_remainder_loop denominator scale quot accumulated_remainder
                            term_quotient (term_remainder + term_remainder)
      else quot)"
  by pat_completeness auto
termination
proof (relation "measure (\<lambda>(d, scale, q, a, tq, tr). unat scale)", goal_cases)
  case 1
  show ?case by simp
qed (auto simp: unat_half_less)

declare scaled_remainder_loop.simps [simp del]

definition scaled_remainder_term :: "u64 \<Rightarrow> u64 \<Rightarrow> u64 \<Rightarrow> u64" where
  "scaled_remainder_term remainder denominator scale =
     scaled_remainder_loop denominator scale 0 0 0 remainder"

definition nxmt_arena_from_range :: "u64 \<Rightarrow> u64 \<Rightarrow> NxmtArena" where
  "nxmt_arena_from_range base sz =
     (let raw_base = base
      in case align_up_u64 raw_base NXMT_PAGE_BYTES of
           None \<Rightarrow> zero_arena raw_base
         | Some aligned_base \<Rightarrow>
             if sz > UINT64_MAX - raw_base then zero_arena aligned_base
             else
               let raw_end = raw_base + sz;
                   aligned_end = align_down_u64 raw_end NXMT_PAGE_BYTES
               in if aligned_end \<le> aligned_base then zero_arena aligned_base
                  else \<lparr>a_base = aligned_base, a_size = aligned_end - aligned_base,
                        a_words = (aligned_end - aligned_base) div NXMT_WORD_BYTES\<rparr>)"

definition nxmt_arena_is_large_enough :: "NxmtArena option \<Rightarrow> u64 \<Rightarrow> bool" where
  "nxmt_arena_is_large_enough arena minimum_bytes =
     (case arena of None \<Rightarrow> False | Some a \<Rightarrow> a_size a \<ge> minimum_bytes)"

definition select_memory_source ::
    "NxmtMemorySelection \<Rightarrow> bool \<Rightarrow> u64 \<Rightarrow> NxmtMemorySource \<Rightarrow> NxmtMemorySelection" where
  "select_memory_source selection available tot source =
     (if \<not> available \<or> tot = 0 then selection
      else
        let selection = (if tot > 4 * NXMT_GIB_BYTES
                         then selection\<lparr>extended_memory_detected := True\<rparr> else selection)
        in if m_source selection = NXMT_MEMORY_SOURCE_NONE \<or> tot > m_total selection
           then selection\<lparr>m_total := tot, m_source := source\<rparr> else selection)"

definition nxmt_select_system_memory_total ::
    "bool \<Rightarrow> u64 \<Rightarrow> bool \<Rightarrow> u64 \<Rightarrow> bool \<Rightarrow> u64 \<Rightarrow> NxmtMemorySelection" where
  "nxmt_select_system_memory_total has_physical_pools_total physical_pools_total
       has_process_total process_total has_override_heap override_heap_size =
     (let selection = \<lparr>m_total = 0, m_source = NXMT_MEMORY_SOURCE_NONE,
                        extended_memory_detected = False\<rparr>;
          selection = select_memory_source selection has_physical_pools_total physical_pools_total
                        NXMT_MEMORY_SOURCE_PHYSICAL_POOLS;
          selection = select_memory_source selection has_process_total process_total
                        NXMT_MEMORY_SOURCE_PROCESS_TOTAL
      in select_memory_source selection has_override_heap override_heap_size
           NXMT_MEMORY_SOURCE_OVERRIDE_HEAP)"

definition nxmt_select_launch_safe_memory_total :: "bool \<Rightarrow> u64 \<Rightarrow> NxmtMemorySelection" where
  "nxmt_select_launch_safe_memory_total has_override_heap override_heap_size =
     nxmt_select_system_memory_total False 0 False 0 has_override_heap override_heap_size"

definition nxmt_runtime_heap_reserve :: "u64 \<Rightarrow> u64" where
  "nxmt_runtime_heap_reserve override_heap_size =
     (if override_heap_size < 4 * NXMT_MIB_BYTES then 0
      else if override_heap_size < 64 * NXMT_MIB_BYTES
      then align_down_u64 (override_heap_size div 2) NXMT_PAGE_BYTES
      else if override_heap_size < 512 * NXMT_MIB_BYTES then 16 * NXMT_MIB_BYTES
      else 32 * NXMT_MIB_BYTES)"

definition nxmt_percent_milli :: "u64 \<Rightarrow> u64 \<Rightarrow> u64" where
  "nxmt_percent_milli numerator denominator =
     (let scale = 100000
      in if denominator = 0 then 0
         else
           let whole = numerator div denominator;
               remainder = numerator mod denominator
           in if whole > UINT64_MAX div scale then UINT64_MAX
              else
                let whole_scaled = whole * scale;
                    remainder_scaled = scaled_remainder_term remainder denominator scale
                in if whole_scaled > UINT64_MAX - remainder_scaled then UINT64_MAX
                   else whole_scaled + remainder_scaled)"

definition nxmt_split_block_start :: "u64 \<Rightarrow> u32 \<Rightarrow> u32 \<Rightarrow> u64" where
  "nxmt_split_block_start total_words worker_count worker_index =
     (if worker_count = 0 \<or> worker_index > worker_count then 0
      else
        let base = total_words div ucast worker_count;
            remainder = total_words mod ucast worker_count;
            extra = (if ucast worker_index < remainder then ucast worker_index else remainder)
        in base * ucast worker_index + extra)"

definition nxmt_split_block_size :: "u64 \<Rightarrow> u32 \<Rightarrow> u32 \<Rightarrow> u64" where
  "nxmt_split_block_size total_words worker_count worker_index =
     (if worker_count = 0 \<or> worker_index \<ge> worker_count then 0
      else
        let base = total_words div ucast worker_count;
            remainder = total_words mod ucast worker_count
        in base + (if ucast worker_index < remainder then 1 else 0))"

section \<open>Alignment\<close>

lemma unat_and_not_mask: "unat (v AND NOT (2 ^ k - 1)) = unat v div 2 ^ k * 2 ^ k" for v :: u64
proof -
  have "v AND NOT (2 ^ k - 1) = push_bit k (drop_bit k v)"
    by (rule bit_word_eqI)
      (auto simp: bit_simps mask_eq_exp_minus_1 [symmetric] dest: bit_imp_le_length)
  moreover have "unat (push_bit k (drop_bit k v)) = push_bit k (drop_bit k (unat v))"
  proof (rule bit_eqI)
    fix n
    show "bit (unat (push_bit k (drop_bit k v))) n = bit (push_bit k (drop_bit k (unat v))) n"
      by (auto simp: bit_simps dest: bit_imp_le_length)
  qed
  ultimately show ?thesis by (simp add: push_bit_eq_mult drop_bit_eq_div)
qed

lemma align_down_page: "unat (align_down_u64 v NXMT_PAGE_BYTES) = unat v div 4096 * 4096"
  using unat_and_not_mask [of v 12] by (simp add: align_down_u64_def)

lemma align_up_page:
  "align_up_u64 v NXMT_PAGE_BYTES = None \<longleftrightarrow> unat v + 4095 \<ge> 2 ^ 64"
  "align_up_u64 v NXMT_PAGE_BYTES = Some w \<Longrightarrow> unat w = (unat v + 4095) div 4096 * 4096"
proof -
  have gt: "v > UINT64_MAX - 4095 \<longleftrightarrow> unat v + 4095 \<ge> 2 ^ 64"
  proof -
    have "unat (4095 :: u64) = 4095" by simp
    then show ?thesis unfolding UINT64_MAX_minus_less by (simp only: add.commute)
  qed
  then show "align_up_u64 v NXMT_PAGE_BYTES = None \<longleftrightarrow> unat v + 4095 \<ge> 2 ^ 64"
    by (simp add: align_up_u64_def)
  assume "align_up_u64 v NXMT_PAGE_BYTES = Some w"
  with gt have small: "unat v + 4095 < 2 ^ 64" and w: "w = align_down_u64 (v + 4095) NXMT_PAGE_BYTES"
    by (auto simp: align_up_u64_def align_down_u64_def Let_def split: if_splits)
  from small have "unat (v + 4095) = unat v + 4095" by (simp add: unat_word_ariths)
  then show "unat w = (unat v + 4095) div 4096 * 4096" by (simp only: w align_down_page)
qed

section \<open>The percentage\<close>

text \<open>Addition modulo \<open>d\<close> with one subtraction and no intermediate overflow.\<close>

lemma add_mod_word:
  fixes a t d :: u64
  assumes "a < d" and "t < d"
  shows "t \<ge> d - a \<Longrightarrow> unat (t - (d - a)) + unat d = unat a + unat t \<and> t - (d - a) < d"
    and "\<not> t \<ge> d - a \<Longrightarrow> unat (a + t) = unat a + unat t \<and> a + t < d"
proof -
  have lt: "unat a < unat d" "unat t < unat d" using assms by (simp_all add: word_less_nat_alt)
  have da: "unat (d - a) = unat d - unat a" using lt by (simp add: unat_sub word_le_nat_alt)
  {
    assume "t \<ge> d - a"
    then have le: "unat d - unat a \<le> unat t" by (simp add: word_le_nat_alt da)
    then have "unat (t - (d - a)) = unat t - (unat d - unat a)"
      by (subst unat_sub) (simp_all add: word_le_nat_alt da)
    with le lt show "unat (t - (d - a)) + unat d = unat a + unat t \<and> t - (d - a) < d"
      by (auto simp: word_less_nat_alt)
  next
    assume "\<not> t \<ge> d - a"
    then have "unat a + unat t < unat d" using lt by (simp add: word_le_nat_alt da)
    moreover have "unat d < 2 ^ 64" using unsigned_less [of d] by simp
    ultimately show "unat (a + t) = unat a + unat t \<and> a + t < d"
      by (simp add: unat_word_ariths word_less_nat_alt)
  }
qed

text \<open>The first half of an iteration: the term is added when the bit of the scale is set.\<close>

lemma scaled_add_step:
  fixes a d q tq tr :: u64
  assumes a: "a < d" and tr: "tr < d" and q: "unat q + unat tq + 1 < 2 ^ 64"
  shows "case (if tr \<noteq> 0 then if tr \<ge> d - a then (q + tq + 1, tr - (d - a)) else (q + tq, a + tr)
                 else (q + tq, a)) of (q', a') \<Rightarrow> a' < d \<and> unat q' \<le> unat q + unat tq + 1
      \<and> unat q' * unat d + unat a' = unat q * unat d + unat a + (unat tq * unat d + unat tr)"
proof -
  have qt: "unat (q + tq) = unat q + unat tq" using q by (intro unat_add_small) simp
  then have qt1: "unat (q + tq + 1) = unat q + unat tq + 1"
    using q unat_add_small [of "q + tq" 1] by simp
  show ?thesis
    using add_mod_word [OF a tr] a unfolding split_def
    by (cases "tr = 0"; cases "tr \<ge> d - a") (simp_all only: if_True if_False fst_conv snd_conv simp_thms
        qt qt1 distrib_right unat_0, simp_all)
qed

text \<open>The second half: the term is doubled.\<close>

lemma scaled_double_step:
  fixes d tq tr :: u64
  assumes tr: "tr < d" and tq: "2 * unat tq + 1 < 2 ^ 64"
  shows "case (if tr \<ge> d - tr then (tq * 2 + 1, tr - (d - tr)) else (tq * 2, tr + tr)) of (tq', tr') \<Rightarrow>
      tr' < d \<and> unat tq' \<le> 2 * unat tq + 1
      \<and> unat tq' * unat d + unat tr' = 2 * (unat tq * unat d + unat tr)"
proof -
  have t2: "unat (tq * 2) = 2 * unat tq" using tq by (simp add: unat_word_ariths)
  then have t21: "unat (tq * 2 + 1) = 2 * unat tq + 1" using tq unat_add_small [of "tq * 2" 1] by simp
  show ?thesis
    using add_mod_word [OF tr tr] unfolding split_def
    by (cases "tr \<ge> d - tr") (simp_all only: if_True if_False fst_conv snd_conv simp_thms
        t2 t21 distrib_right, simp_all)
qed

lemma scaled_remainder_loop_correct:
  assumes "a < d" and "tr < d" and "unat q + (unat tq + 1) * unat s < 2 ^ 64 - 1"
  shows "unat (scaled_remainder_loop d s q a tq tr)
    = (unat q * unat d + unat a + (unat tq * unat d + unat tr) * unat s) div unat d"
  using assms
proof (induction "unat s" arbitrary: s q a tq tr rule: less_induct)
  case less
  let ?D = "unat d" and ?odd = "s AND 1 \<noteq> 0"
  let ?T = "unat tq * ?D + unat tr"
  have div: "(unat x * ?D + unat y) div ?D = unat x" if "y < d" for x y :: u64
  proof -
    have "unat y < ?D" using that by (simp add: word_less_nat_alt)
    then show ?thesis by simp
  qed
  show ?case
  proof (cases "s = 0")
    case True
    then show ?thesis using div [OF less.prems(1), of q] by (simp add: scaled_remainder_loop.simps)
  next
    case False
    define h where "h = drop_bit 1 s"
    have uh: "unat h = unat s div 2" by (simp add: h_def unat_half)
    have odd: "?odd \<longleftrightarrow> odd (unat s)" by (rule and_one_iff_odd)
    have s: "unat s = 2 * unat h + (if ?odd then 1 else 0)" unfolding odd uh by simp
    have bound: "unat q + (unat tq + 1) * (2 * unat h + (if ?odd then 1 else 0)) < 2 ^ 64 - 1"
      using less.prems(3) unfolding s [symmetric] .
    define r where "r = (if ?odd \<and> tr \<noteq> 0 then if tr \<ge> d - a
        then ((if ?odd then q + tq else q) + 1, tr - (d - a)) else ((if ?odd then q + tq else q), a + tr)
      else ((if ?odd then q + tq else q), a))"
    have early: "\<not> (?odd \<and> (if ?odd then q + tq else q) = UINT64_MAX)"
    proof
      assume max: "?odd \<and> (if ?odd then q + tq else q) = UINT64_MAX"
      then have "unat q + unat tq < 2 ^ 64 - 1" using bound by (simp add: algebra_simps)
      then have "unat (q + tq) < 2 ^ 64 - 1" by (subst unat_add_small) simp_all
      moreover from max have "q + tq = UINT64_MAX" by presburger
      ultimately show False by simp
    qed
    obtain q1 a1 where r: "r = (q1, a1)" and a1: "a1 < d"
      and q1: "unat q1 \<le> unat q + (if ?odd then unat tq + 1 else 0)"
      and sum: "unat q1 * ?D + unat a1 = unat q * ?D + unat a + (if ?odd then ?T else 0)"
    proof (cases ?odd)
      case True
      then have "unat q + unat tq + 1 < 2 ^ 64" using bound by (simp add: algebra_simps)
      from scaled_add_step [OF less.prems(1,2) this]
      have "case r of (q', a') \<Rightarrow> a' < d \<and> unat q' \<le> unat q + unat tq + 1
          \<and> unat q' * ?D + unat a' = unat q * ?D + unat a + ?T"
        using True by (simp only: r_def if_True if_False simp_thms)
      then show ?thesis using that True by (cases r) simp
    next
      case False
      then show ?thesis using that [of q a] less.prems(1) by (simp add: r_def)
    qed
    define e where "e = (if tr \<ge> d - tr then (tq * 2 + 1, tr - (d - tr)) else (tq * 2, tr + tr))"
    have loop: "scaled_remainder_loop d s q a tq tr
        = (if h = 0 then q1 else scaled_remainder_loop d h q1 a1 (fst e) (snd e))"
    proof -
      have early': "(?odd \<and> (if ?odd then q + tq else q) = UINT64_MAX) = False" using early by blast
      show ?thesis
        unfolding scaled_remainder_loop.simps [of d s] Let_def r [unfolded r_def] h_def [symmetric]
          early' if_False prod.case
        using False by (simp add: e_def)
    qed
    show ?thesis
    proof (cases "h = 0")
      case True
      moreover have "unat s \<noteq> 0" using \<open>s \<noteq> 0\<close> by (metis unat_eq_zero)
      ultimately have "unat s = 1" and "?odd" using s by (simp_all split: if_splits)
      with True show ?thesis using loop sum div [OF a1, of q1] by simp
    next
      case False
      then have "1 \<le> unat h" by (simp add: Suc_le_eq unat_gt_0)
      then have "(unat tq + 1) * 2 * 1 \<le> (unat tq + 1) * 2 * unat h" by (rule mult_le_mono2)
      then have "2 * unat tq + 1 < 2 ^ 64" using bound by (simp add: algebra_simps)
      from scaled_double_step [OF less.prems(2) this] obtain tq2 tr2 where e: "e = (tq2, tr2)"
        and tr2: "tr2 < d" and tq2: "unat tq2 \<le> 2 * unat tq + 1"
        and dbl: "unat tq2 * ?D + unat tr2 = 2 * ?T"
        by (cases e) (auto simp: e_def)
      have "(unat tq2 + 1) * unat h \<le> (2 * unat tq + 2) * unat h" using tq2 by (intro mult_le_mono1) simp
      then have "unat q1 + (unat tq2 + 1) * unat h < 2 ^ 64 - 1"
        using bound q1 by (auto simp: algebra_simps split: if_splits)
      moreover have "unat h < unat s" using \<open>s \<noteq> 0\<close> by (simp add: h_def unat_half_less)
      ultimately have "unat (scaled_remainder_loop d h q1 a1 tq2 tr2)
          = (unat q1 * ?D + unat a1 + (unat tq2 * ?D + unat tr2) * unat h) div ?D"
        using less.hyps [of h a1 tr2 q1 tq2] a1 tr2 by blast
      also have "unat q1 * ?D + unat a1 + (unat tq2 * ?D + unat tr2) * unat h
          = unat q * ?D + unat a + ?T * unat s"
        unfolding sum dbl s by (simp add: algebra_simps)
      finally show ?thesis using loop e False by simp
    qed
  qed
qed

lemma percent_milli_value:
  "unat (nxmt_percent_milli n d)
    = (if d = 0 then 0 else min (2 ^ 64 - 1) (unat n * 100000 div unat d))"
proof (cases "d = 0")
  case True
  then show ?thesis by (simp add: nxmt_percent_milli_def)
next
  case False
  let ?N = "unat n" and ?D = "unat d" and ?w = "n div d" and ?r = "n mod d"
  have D: "0 < ?D" using False by (simp add: unat_gt_0)
  define rs where "rs = scaled_remainder_term ?r d 100000"
  have "?r < d" using False by (simp add: word_less_nat_alt unat_mod D)
  then have rs: "unat rs = unat ?r * 100000 div ?D"
    using scaled_remainder_loop_correct [of 0 d ?r 0 0 100000] False
    by (simp add: rs_def scaled_remainder_term_def word_neq_0_conv)
  define w' r' where "w' = ?N div ?D" and "r' = ?N mod ?D"
  have "?N = w' * ?D + r'" by (simp add: w'_def r'_def)
  then have "?N * 100000 = r' * 100000 + (w' * 100000) * ?D" by (simp add: algebra_simps)
  then have "?N * 100000 div ?D = w' * 100000 + r' * 100000 div ?D" using D by simp
  then have split: "?N * 100000 div ?D = unat ?w * 100000 + unat rs"
    by (simp add: rs unat_div unat_mod w'_def r'_def)
  have m1: "unat (UINT64_MAX div 100000) = (2 ^ 64 - 1) div 100000"
    by (simp add: unat_div)
  show ?thesis
  proof (cases "?w > UINT64_MAX div 100000")
    case True
    then have "(2 ^ 64 - 1) div 100000 < unat ?w" by (simp add: word_less_nat_alt m1)
    then have "2 ^ 64 - 1 \<le> unat ?w * 100000" by simp
    with True False show ?thesis by (simp add: nxmt_percent_milli_def split)
  next
    case small: False
    then have "unat ?w \<le> (2 ^ 64 - 1) div 100000" by (simp add: word_less_nat_alt m1)
    then have ws: "unat (?w * 100000) = unat ?w * 100000" by (simp add: unat_word_ariths)
    have ms: "unat (UINT64_MAX - rs) = 2 ^ 64 - 1 - unat rs"
      by (subst unat_sub) simp_all
    have def: "nxmt_percent_milli n d
        = (if ?w * 100000 > UINT64_MAX - rs then UINT64_MAX else ?w * 100000 + rs)"
      using False small by (simp add: nxmt_percent_milli_def Let_def rs_def)
    show ?thesis
    proof (cases "?w * 100000 > UINT64_MAX - rs")
      case True
      then have "2 ^ 64 - 1 \<le> unat ?w * 100000 + unat rs"
        by (simp add: word_less_nat_alt ws ms)
      with True False show ?thesis by (simp add: def split)
    next
      case fits: False
      then have "unat ?w * 100000 + unat rs \<le> 2 ^ 64 - 1"
        using unat64_less [of rs] by (simp add: word_less_nat_alt ws ms)
      with fits False show ?thesis
        by (simp add: def split unat_add_small ws)
    qed
  qed
qed

section \<open>The arena of a range\<close>

text \<open>A page \<open>q\<close> is inside a byte range when all of its 4096 bytes are.\<close>

definition page_inside :: "nat \<Rightarrow> nat \<Rightarrow> nat \<Rightarrow> bool" where
  "page_inside q lo len \<longleftrightarrow> lo \<le> 4096 * q \<and> 4096 * (q + 1) \<le> lo + len"

definition wf_arena :: "NxmtArena \<Rightarrow> bool" where
  "wf_arena a \<longleftrightarrow> unat (a_words a) * 8 = unat (a_size a) \<and> unat (a_base a) + unat (a_size a) < 2 ^ 64
     \<and> (a_size a \<noteq> 0 \<longrightarrow> 4096 dvd unat (a_base a) \<and> 4096 dvd unat (a_size a))"

lemma page_bounds:
  fixes b e q :: nat
  shows "(b + 4095) div 4096 * 4096 \<le> 4096 * q \<longleftrightarrow> b \<le> 4096 * q"
    and "4096 * (q + 1) \<le> e div 4096 * 4096 \<longleftrightarrow> 4096 * (q + 1) \<le> e"
proof -
  have "(b + 4095) div 4096 \<le> q \<longleftrightarrow> b + 4095 < (q + 1) * 4096"
    by (subst div_less_iff_less_mult [symmetric]) auto
  then show "(b + 4095) div 4096 * 4096 \<le> 4096 * q \<longleftrightarrow> b \<le> 4096 * q" by auto
  have "q + 1 \<le> e div 4096 \<longleftrightarrow> (q + 1) * 4096 \<le> e"
    by (rule less_eq_div_iff_mult_less_eq) simp
  moreover have "4096 * (q + 1) \<le> x * 4096 \<longleftrightarrow> q + 1 \<le> x" for x :: nat by auto
  ultimately show "4096 * (q + 1) \<le> e div 4096 * 4096 \<longleftrightarrow> 4096 * (q + 1) \<le> e"
    by (metis mult.commute)
qed

lemma arena_from_range_cases:
  fixes base sz :: u64
  defines "up \<equiv> (unat base + 4095) div 4096 * 4096"
    and "down \<equiv> (unat base + unat sz) div 4096 * 4096"
    and "a \<equiv> nxmt_arena_from_range base sz"
  shows "(unat base + unat sz < 2 ^ 64 \<and> up < down \<and> unat (a_base a) = up
      \<and> unat (a_size a) = down - up \<and> unat (a_words a) = (down - up) div 8)
    \<or> (\<not> (unat base + unat sz < 2 ^ 64 \<and> up < down) \<and> a_size a = 0 \<and> a_words a = 0)"
proof (cases "align_up_u64 base NXMT_PAGE_BYTES")
  case None
  then have "2 ^ 64 \<le> unat base + 4095" by (simp only: align_up_page)
  then have "2 ^ 64 \<le> up" using page_bounds(2) [of "2 ^ 52 - 1"] by (simp add: up_def)
  moreover have "down \<le> unat base + unat sz" by (simp add: down_def)
  ultimately have "\<not> (unat base + unat sz < 2 ^ 64 \<and> up < down)" by simp
  with None show ?thesis by (simp add: a_def nxmt_arena_from_range_def zero_arena_def Let_def)
next
  case (Some ab)
  then have ab: "unat ab = up" by (simp only: align_up_page up_def)
  show ?thesis
  proof (cases "unat base + unat sz < 2 ^ 64")
    case True
    then have sum: "unat (base + sz) = unat base + unat sz" by (rule unat_add_small)
    have ok: "\<not> sz > UINT64_MAX - base" using True by (simp add: UINT64_MAX_minus_less)
    define ae where "ae = align_down_u64 (base + sz) NXMT_PAGE_BYTES"
    have ae: "unat ae = down" unfolding ae_def align_down_page sum down_def ..
    show ?thesis
    proof (cases "up < down")
      case True
      then have "\<not> ae \<le> ab" and "unat (ae - ab) = down - up"
        by (simp_all add: word_le_nat_alt ae ab unat_sub)
      with True Some ok \<open>unat base + unat sz < 2 ^ 64\<close> show ?thesis
        by (simp add: a_def nxmt_arena_from_range_def Let_def ab unat_div flip: ae_def)
    next
      case False
      then have "ae \<le> ab" by (simp add: word_le_nat_alt ae ab)
      with False Some ok show ?thesis
        by (simp add: a_def nxmt_arena_from_range_def zero_arena_def Let_def flip: ae_def)
    qed
  next
    case False
    then have "sz > UINT64_MAX - base" by (simp add: UINT64_MAX_minus_less)
    with False Some show ?thesis
      by (simp add: a_def nxmt_arena_from_range_def zero_arena_def Let_def)
  qed
qed

lemma arena_from_range_pages:
  "page_inside q (unat (a_base (nxmt_arena_from_range base sz)))
       (unat (a_size (nxmt_arena_from_range base sz)))
    \<longleftrightarrow> unat base + unat sz < 2 ^ 64 \<and> page_inside q (unat base) (unat sz)"
proof -
  let ?up = "(unat base + 4095) div 4096 * 4096" and ?down = "(unat base + unat sz) div 4096 * 4096"
  let ?a = "nxmt_arena_from_range base sz"
  have pages: "page_inside q (unat base) (unat sz) \<longleftrightarrow> ?up \<le> 4096 * q \<and> 4096 * (q + 1) \<le> ?down"
    unfolding page_inside_def page_bounds ..
  from arena_from_range_cases [of base sz] show ?thesis
  proof (elim disjE conjE)
    assume "?up < ?down" "unat (a_base ?a) = ?up" "unat (a_size ?a) = ?down - ?up"
      "unat base + unat sz < 2 ^ 64"
    then show ?thesis unfolding pages by (simp add: page_inside_def)
  next
    assume none: "\<not> (unat base + unat sz < 2 ^ 64 \<and> ?up < ?down)" and "a_size ?a = 0"
    then have "\<not> page_inside q (unat (a_base ?a)) (unat (a_size ?a))" by (simp add: page_inside_def)
    moreover have "?up < ?down" if "?up \<le> 4096 * q" "4096 * (q + 1) \<le> ?down"
      using that(1) by (rule order.strict_trans1) (rule order.strict_trans2 [OF _ that(2)], simp)
    ultimately show ?thesis using none unfolding pages by blast
  qed
qed

lemma arena_from_range_wf: "wf_arena (nxmt_arena_from_range base sz)"
proof -
  let ?up = "(unat base + 4095) div 4096 * 4096" and ?down = "(unat base + unat sz) div 4096 * 4096"
  let ?a = "nxmt_arena_from_range base sz"
  from arena_from_range_cases [of base sz] show ?thesis
  proof (elim disjE conjE)
    assume a: "?up < ?down" "unat (a_base ?a) = ?up" "unat (a_size ?a) = ?down - ?up"
      "unat (a_words ?a) = (?down - ?up) div 8" and small: "unat base + unat sz < 2 ^ 64"
    have "?down \<le> unat base + unat sz" by simp
    with a small have "unat (a_base ?a) + unat (a_size ?a) < 2 ^ 64" by linarith
    moreover have "4096 dvd ?down - ?up" by (intro dvd_diff_nat) simp_all
    moreover from this have "8 dvd ?down - ?up" by (rule dvd_trans [rotated]) simp
    ultimately show ?thesis unfolding wf_arena_def a(2-4) by simp
  next
    assume "a_size ?a = 0" "a_words ?a = 0"
    then show ?thesis using unat64_less [of "a_base ?a"] by (simp add: wf_arena_def)
  qed
qed

section \<open>The selection of the memory total and the reserve\<close>

text \<open>
  The readings that take part in the selection, in the order of the calls: the available
  ones that are not zero.
\<close>

definition memory_candidates ::
    "bool \<Rightarrow> u64 \<Rightarrow> bool \<Rightarrow> u64 \<Rightarrow> bool \<Rightarrow> u64 \<Rightarrow> (u64 \<times> NxmtMemorySource) list" where
  "memory_candidates has_physical physical has_process process has_override override =
     map snd (filter (\<lambda>(available, t, _). available \<and> t \<noteq> 0)
       [(has_physical, physical, NXMT_MEMORY_SOURCE_PHYSICAL_POOLS),
        (has_process, process, NXMT_MEMORY_SOURCE_PROCESS_TOTAL),
        (has_override, override, NXMT_MEMORY_SOURCE_OVERRIDE_HEAP)])"

text \<open>A selection is right for the readings considered so far.\<close>

definition selects :: "(u64 \<times> NxmtMemorySource) list \<Rightarrow> NxmtMemorySelection \<Rightarrow> bool" where
  "selects cs sel \<longleftrightarrow>
     (if cs = [] then m_total sel = 0 \<and> m_source sel = NXMT_MEMORY_SOURCE_NONE
      else m_total sel = Max (fst ` set cs)
        \<and> find (\<lambda>c. fst c = m_total sel) cs = Some (m_total sel, m_source sel))
     \<and> (extended_memory_detected sel \<longleftrightarrow> (\<exists>(t, s) \<in> set cs. t > 4 * NXMT_GIB_BYTES))"

lemma find_append: "find P (xs @ ys) = (case find P xs of None \<Rightarrow> find P ys | Some x \<Rightarrow> Some x)"
  by (induction xs) auto

lemma selects_step:
  assumes sel: "selects cs sel" and s: "s \<noteq> NXMT_MEMORY_SOURCE_NONE"
    and cs: "\<And>c. c \<in> set cs \<Longrightarrow> snd c \<noteq> NXMT_MEMORY_SOURCE_NONE"
  shows "selects (cs @ map snd (filter (\<lambda>(available, t, _). available \<and> t \<noteq> 0) [(available, t, s)]))
    (select_memory_source sel available t s)"
proof (cases "available \<and> t \<noteq> 0")
  case False
  with sel show ?thesis by (auto simp: select_memory_source_def)
next
  case True
  show ?thesis
  proof (cases "cs = []")
    case True
    with sel \<open>available \<and> t \<noteq> 0\<close> show ?thesis
      by (simp add: selects_def select_memory_source_def Let_def)
  next
    case False
    define hi where "hi = Max (fst ` set cs)"
    from False sel have sel': "m_total sel = hi"
      "find (\<lambda>c. fst c = hi) cs = Some (hi, m_source sel)"
      "extended_memory_detected sel \<longleftrightarrow> (\<exists>(t, s) \<in> set cs. t > 4 * NXMT_GIB_BYTES)"
      by (auto simp: selects_def hi_def)
    then have "(hi, m_source sel) \<in> set cs" by (auto simp: find_Some_iff)
    then have src: "m_source sel \<noteq> NXMT_MEMORY_SOURCE_NONE" using cs by force
    have le: "fst c \<le> hi" if "c \<in> set cs" for c using that by (simp add: hi_def)
    then have none: "t > hi \<Longrightarrow> find (\<lambda>c. fst c = t) cs = None" by (force simp: find_None_iff)
    have Max: "Max (insert t (fst ` set cs)) = max t hi" using False by (simp add: hi_def)
    show ?thesis
    proof (cases "t > hi")
      case True
      with \<open>available \<and> t \<noteq> 0\<close> src sel' none show ?thesis
        unfolding selects_def by (auto simp: Max select_memory_source_def Let_def find_append)
    next
      case False
      with \<open>available \<and> t \<noteq> 0\<close> src sel' show ?thesis
        unfolding selects_def
        by (auto simp: Max select_memory_source_def Let_def find_append max_absorb2 not_less)
    qed
  qed
qed

lemma select_system_memory_spec:
  "selects (memory_candidates hp p hq q ho ov) (nxmt_select_system_memory_total hp p hq q ho ov)"
proof -
  let ?c = "\<lambda>x. map snd (filter (\<lambda>(available, t, _). available \<and> t \<noteq> 0) [x])"
  have 0: "selects [] \<lparr>m_total = 0, m_source = NXMT_MEMORY_SOURCE_NONE, extended_memory_detected = False\<rparr>"
    by (simp add: selects_def)
  have "memory_candidates hp p hq q ho ov
      = (([] @ ?c (hp, p, NXMT_MEMORY_SOURCE_PHYSICAL_POOLS))
          @ ?c (hq, q, NXMT_MEMORY_SOURCE_PROCESS_TOTAL))
          @ ?c (ho, ov, NXMT_MEMORY_SOURCE_OVERRIDE_HEAP)"
    by (simp add: memory_candidates_def)
  then show ?thesis
    unfolding nxmt_select_system_memory_total_def Let_def
    by (simp only:, intro selects_step 0) (auto split: if_splits)
qed

lemma heap_reserve_spec:
  "4096 dvd unat (nxmt_runtime_heap_reserve s) \<and> 2 * unat (nxmt_runtime_heap_reserve s) \<le> unat s
    \<and> unat (nxmt_runtime_heap_reserve s) \<le> 32 * 1024 * 1024
    \<and> (nxmt_runtime_heap_reserve s = 0 \<longleftrightarrow> unat s < 4 * 1024 * 1024)"
proof -
  consider "unat s < 4 * 1024 * 1024" | "4 * 1024 * 1024 \<le> unat s" "unat s < 64 * 1024 * 1024"
    | "64 * 1024 * 1024 \<le> unat s" "unat s < 512 * 1024 * 1024" | "512 * 1024 * 1024 \<le> unat s"
    by linarith
  then show ?thesis
  proof cases
    case 2
    let ?r = "nxmt_runtime_heap_reserve s"
    have "?r = align_down_u64 (s div 2) NXMT_PAGE_BYTES"
      using 2 by (simp add: nxmt_runtime_heap_reserve_def word_less_nat_alt)
    then have r: "unat ?r = unat s div 2 div 4096 * 4096" by (simp only: align_down_page unat_div) simp
    moreover have "4 * 1024 * 1024 div 2 div 4096 \<le> unat s div 2 div 4096"
      using 2(1) by (intro div_le_mono)
    then have "unat ?r \<noteq> 0" using r by simp
    then have "?r \<noteq> 0" by (metis unat_0)
    moreover have "unat s div 2 div 4096 * 4096 \<le> unat s div 2" by simp
    ultimately show ?thesis using 2 by (auto simp: r)
  qed (simp_all add: nxmt_runtime_heap_reserve_def word_less_nat_alt)
qed

section \<open>The blocks of the workers\<close>

locale block_partition =
  fixes start len :: "u64 \<Rightarrow> u32 \<Rightarrow> u32 \<Rightarrow> u64"
  assumes start_0: "0 < n \<Longrightarrow> start t n 0 = 0"
    and start_all: "0 < n \<Longrightarrow> start t n n = t"
    and start_next: "i < n \<Longrightarrow> unat (start t n (i + 1)) = unat (start t n i) + unat (len t n i)"
begin

text \<open>Block \<open>i\<close>, counted in natural numbers.\<close>

definition lo_at :: "u64 \<Rightarrow> u32 \<Rightarrow> nat \<Rightarrow> nat" where
  "lo_at t n i = unat (start t n (of_nat i))"

definition block :: "u64 \<Rightarrow> u32 \<Rightarrow> u32 \<Rightarrow> nat set" where
  "block t n i = {unat (start t n i) ..< unat (start t n i) + unat (len t n i)}"

lemma of_nat_index: "i < unat n \<Longrightarrow> (of_nat i :: u32) < n \<and> unat (of_nat i :: u32) = i" for n :: u32
  using unat32_less [of n] by (simp add: word_less_nat_alt unat_of_nat)

lemma lo_at_Suc: "i < unat n \<Longrightarrow> lo_at t n (Suc i) = lo_at t n i + unat (len t n (of_nat i))"
  using start_next [of "of_nat i" n t] of_nat_index [of i n] by (simp add: lo_at_def add.commute)

lemma lo_at_mono: "i \<le> j \<Longrightarrow> j \<le> unat n \<Longrightarrow> lo_at t n i \<le> lo_at t n j"
proof (induction j)
  case 0
  then show ?case by simp
next
  case (Suc j)
  show ?case
  proof (cases "i = Suc j")
    case False
    with Suc have "lo_at t n i \<le> lo_at t n j" by simp
    also have "\<dots> \<le> lo_at t n (Suc j)" using Suc.prems by (simp add: lo_at_Suc)
    finally show ?thesis .
  qed simp
qed

lemma block_lo_at: "i < n \<Longrightarrow> block t n i = {lo_at t n (unat i) ..< lo_at t n (Suc (unat i))}"
  using lo_at_Suc [of "unat i" n t] by (simp add: block_def lo_at_def word_less_nat_alt)

lemma block_le_total: "i < n \<Longrightarrow> unat (start t n i) + unat (len t n i) \<le> unat t"
proof -
  assume i: "i < n"
  then have n: "0 < n" by (metis word_gt_0 word_not_simps(1))
  have "lo_at t n (Suc (unat i)) \<le> lo_at t n (unat n)"
    using i by (intro lo_at_mono) (simp_all add: word_less_nat_alt Suc_le_eq)
  also have "\<dots> = unat t" using start_all [OF n] by (simp add: lo_at_def)
  finally show ?thesis
    using i lo_at_Suc [of "unat i" n t] by (simp add: lo_at_def word_less_nat_alt)
qed

lemma blocks_disjoint:
  assumes "i < n" and "j < n" and "i \<noteq> j"
  shows "block t n i \<inter> block t n j = {}"
  using assms
proof (induction i j rule: linorder_wlog)
  case (le i j)
  then have "Suc (unat i) \<le> unat j" by (simp add: word_le_nat_alt word_eq_iff_unat)
  then have "lo_at t n (Suc (unat i)) \<le> lo_at t n (unat j)"
    using le by (intro lo_at_mono) (simp_all add: word_less_nat_alt)
  then show ?case using le by (auto simp: block_lo_at)
next
  case (sym i j)
  then show ?case by (simp add: Int_commute)
qed

lemma lo_at_cover: "w < lo_at t n k \<Longrightarrow> k \<le> unat n \<Longrightarrow> 0 < n \<Longrightarrow> \<exists>i<k. lo_at t n i \<le> w \<and> w < lo_at t n (Suc i)"
proof (induction k)
  case 0
  then show ?case using start_0 by (simp add: lo_at_def)
next
  case (Suc k)
  show ?case
  proof (cases "w < lo_at t n k")
    case True
    with Suc show ?thesis by (auto simp: less_Suc_eq)
  next
    case False
    with Suc show ?thesis by (intro exI [of _ k]) simp
  qed
qed

lemma blocks_cover:
  assumes n: "0 < n"
  shows "(\<Union>i \<in> {i. i < n}. block t n i) = {..< unat t}"
proof (intro equalityI subsetI)
  fix w assume "w \<in> (\<Union>i \<in> {i. i < n}. block t n i)"
  then show "w \<in> {..< unat t}" using block_le_total [of _ n t] by (force simp: block_def)
next
  fix w assume "w \<in> {..< unat t}"
  then have "w < lo_at t n (unat n)" using start_all [OF n] by (simp add: lo_at_def)
  from lo_at_cover [OF this order.refl n] obtain i where i: "i < unat n"
    "lo_at t n i \<le> w" "w < lo_at t n (Suc i)" by blast
  from of_nat_index [OF i(1)] i show "w \<in> (\<Union>i \<in> {i. i < n}. block t n i)"
    by (intro UN_I [of "of_nat i"]) (simp_all add: block_lo_at)
qed

end

lemma split_block_values:
  assumes "0 < n"
  shows "i \<le> n \<Longrightarrow> unat (nxmt_split_block_start t n i)
      = unat t div unat n * unat i + min (unat i) (unat t mod unat n)"
    and "i < n \<Longrightarrow> unat (nxmt_split_block_size t n i)
      = unat t div unat n + (if unat i < unat t mod unat n then 1 else 0)"
proof -
  let ?b = "t div ucast n" and ?r = "t mod ucast n"
  have n: "0 < unat n" using assms by (simp add: word_less_nat_alt)
  have b: "unat ?b = unat t div unat n" and r: "unat ?r = unat t mod unat n"
    by (simp_all add: unat_div unat_mod)
  have t: "unat t = unat t div unat n * unat n + unat t mod unat n" by simp
  {
    assume i: "i \<le> n"
    then have "unat t div unat n * unat i \<le> unat t div unat n * unat n"
      by (intro mult_le_mono2) (simp add: word_le_nat_alt)
    then have sum: "unat t div unat n * unat i + min (unat i) (unat t mod unat n) \<le> unat t"
      using t by linarith
    have "unat (?b * ucast i) = unat t div unat n * unat i"
      using sum unat64_less [of t] by (subst unat_mult_small) (simp_all add: b)
    moreover define e where "e = (if ucast i < ?r then ucast i else ?r)"
    moreover have "unat e = min (unat i) (unat t mod unat n)"
      by (simp add: e_def word_less_nat_alt r min_def)
    ultimately have "unat (?b * ucast i + e) = unat t div unat n * unat i + min (unat i) (unat t mod unat n)"
      using sum unat64_less [of t] by (subst unat_add_small) simp_all
    moreover have "nxmt_split_block_start t n i = ?b * ucast i + e"
      using i assms by (auto simp: nxmt_split_block_start_def Let_def e_def)
    ultimately show "unat (nxmt_split_block_start t n i)
        = unat t div unat n * unat i + min (unat i) (unat t mod unat n)" by simp
  next
    assume i: "i < n"
    then have size: "nxmt_split_block_size t n i = ?b + (if ucast i < ?r then 1 else 0)"
      using assms by (auto simp: nxmt_split_block_size_def Let_def)
    have less: "ucast i < ?r \<longleftrightarrow> unat i < unat t mod unat n"
      by (simp add: word_less_nat_alt r)
    have "unat t div unat n + (if unat i < unat t mod unat n then 1 else 0) \<le> unat t"
    proof -
      have "unat t div unat n * 1 \<le> unat t div unat n * unat n" using n by (intro mult_le_mono2) simp
      then have "unat t div unat n + (if unat i < unat t mod unat n then 1 else 0)
          \<le> unat t div unat n * unat n + unat t mod unat n"
        by (intro add_mono) auto
      then show ?thesis by simp
    qed
    then show "unat (nxmt_split_block_size t n i)
        = unat t div unat n + (if unat i < unat t mod unat n then 1 else 0)"
      unfolding size less using unat64_less [of t] unat_add_small [of ?b 1]
      by (auto simp: b split: if_splits)
  }
qed

interpretation split: block_partition nxmt_split_block_start nxmt_split_block_size
proof
  fix n i :: u32 and t :: u64
  show "nxmt_split_block_start t n 0 = 0" if "0 < n"
    using split_block_values(1) [OF that, of 0 t] by (simp add: word_eq_iff_unat)
  show "nxmt_split_block_start t n n = t" if "0 < n"
    using split_block_values(1) [OF that, of n t] that
    by (simp add: word_eq_iff_unat word_less_nat_alt min_absorb2)
  show "unat (nxmt_split_block_start t n (i + 1))
      = unat (nxmt_split_block_start t n i) + unat (nxmt_split_block_size t n i)" if i: "i < n"
  proof -
    have n: "0 < n" using i by (metis word_gt_0 word_not_simps(1))
    have "unat i + 1 < 2 ^ 32" using i unat32_less [of n] by (simp add: word_less_nat_alt)
    then have i1: "unat (i + 1) = unat i + 1" by (simp add: unat_word_ariths)
    then have "i + 1 \<le> n" using i by (simp add: word_le_nat_alt word_less_nat_alt)
    then show ?thesis using i split_block_values [OF n] by (auto simp: i1 add.commute [of 1 i] distrib_left)
  qed
qed

section \<open>Properties\<close>

text \<open>
  Property C14.  The blocks of the workers divide the arena: every word belongs to exactly one
  worker, the blocks lie within the arena, and their sizes differ by at most one word.
\<close>

theorem blocks_partition_arena:
  assumes n: "0 < worker_count"
  shows "(\<forall>w < unat words. \<exists>!i. i < worker_count
        \<and> unat (nxmt_split_block_start words worker_count i) \<le> w
        \<and> w < unat (nxmt_split_block_start words worker_count i) + unat (nxmt_split_block_size words worker_count i))
    \<and> (\<forall>i j. i < worker_count \<longrightarrow> j < worker_count \<longrightarrow>
        unat (nxmt_split_block_start words worker_count i) + unat (nxmt_split_block_size words worker_count i) \<le> unat words
        \<and> unat (nxmt_split_block_size words worker_count i) \<le> unat (nxmt_split_block_size words worker_count j) + 1)"
proof (intro conjI allI impI)
  fix w assume w: "w < unat words"
  then have "w \<in> (\<Union>i \<in> {i. i < worker_count}. split.block words worker_count i)"
    by (simp add: split.blocks_cover [OF n])
  then obtain i where i: "i < worker_count" "w \<in> split.block words worker_count i" by blast
  let ?in = "\<lambda>i. unat (nxmt_split_block_start words worker_count i) \<le> w
    \<and> w < unat (nxmt_split_block_start words worker_count i) + unat (nxmt_split_block_size words worker_count i)"
  have in_block: "w \<in> split.block words worker_count j \<longleftrightarrow> ?in j" for j by (simp add: split.block_def)
  show "\<exists>!i. i < worker_count \<and> ?in i"
  proof (rule ex1I [of _ i])
    show "i < worker_count \<and> ?in i" using i in_block by blast
    fix j assume "j < worker_count \<and> ?in j"
    with split.blocks_disjoint [of j worker_count i words] i in_block show "j = i" by blast
  qed
next
  fix i j assume ij: "i < worker_count" "j < worker_count"
  show "unat (nxmt_split_block_start words worker_count i) + unat (nxmt_split_block_size words worker_count i) \<le> unat words"
    by (rule split.block_le_total [OF ij(1)])
  show "unat (nxmt_split_block_size words worker_count i) \<le> unat (nxmt_split_block_size words worker_count j) + 1"
    using ij by (simp add: split_block_values(2) [OF n])
qed

theorem blocks_partition_arena_witness:
  "\<exists>!i. i < (3 :: u32) \<and> unat (nxmt_split_block_start 10 3 i) \<le> 7
    \<and> 7 < unat (nxmt_split_block_start 10 3 i) + unat (nxmt_split_block_size 10 3 i)"
proof -
  have "0 < (3 :: u32)" "7 < unat (10 :: u64)" by simp_all
  with blocks_partition_arena [of 3 10] show ?thesis by blast
qed

text \<open>
  Property C29.  The arena of a heap range consists of exactly the whole pages inside the
  range, and is empty when the range runs past the end of the address space; its word count
  is its size in words.
\<close>

theorem arena_is_whole_pages:
  "wf_arena (nxmt_arena_from_range base sz)
    \<and> (\<forall>q. page_inside q (unat (a_base (nxmt_arena_from_range base sz)))
              (unat (a_size (nxmt_arena_from_range base sz)))
          \<longleftrightarrow> unat base + unat sz < 2 ^ 64 \<and> page_inside q (unat base) (unat sz))"
  by (simp only: arena_from_range_wf arena_from_range_pages simp_thms)

text \<open>
  Property C26.  The percentage in thousandths is the exact quotient
  \<open>numerator * 100000 div denominator\<close>, saturated at the largest 64-bit value, and 0 for a
  zero denominator, although the product is never formed.
\<close>

theorem percent_milli_exact:
  "unat (nxmt_percent_milli numerator denominator)
    = (if denominator = 0 then 0
       else min (2 ^ 64 - 1) (unat numerator * 100000 div unat denominator))"
  by (rule percent_milli_value)

text \<open>
  Property C30.  The memory total selected is the largest of the available readings that are
  not zero, with the source of the first reading that has it, and none if there is no such
  reading; extended memory is detected exactly when one of them exceeds 4 GiB.
\<close>

theorem memory_selection_is_maximum:
  "selects (memory_candidates has_physical physical has_process process has_override override)
     (nxmt_select_system_memory_total has_physical physical has_process process has_override override)"
  by (rule select_system_memory_spec)

text \<open>
  The runtime heap reserve is page aligned, at most half of the heap and at most
  32 MiB, and is zero exactly below 4 MiB.
\<close>

theorem heap_reserve_bounds:
  "4096 dvd unat (nxmt_runtime_heap_reserve heap) \<and> 2 * unat (nxmt_runtime_heap_reserve heap) \<le> unat heap
    \<and> unat (nxmt_runtime_heap_reserve heap) \<le> 32 * 1024 * 1024
    \<and> (nxmt_runtime_heap_reserve heap = 0 \<longleftrightarrow> unat heap < 4 * 1024 * 1024)"
  by (rule heap_reserve_spec)

end
