(* ===== verification/Runner.thy ===== *)
theory Runner
  imports Chunk_Verify Arena
begin

text \<open>
  The pass of one worker: the phase tables, \<open>nxmt_write_phase\<close>, \<open>nxmt_verify_phase\<close> and
  \<open>nxmt_runner_run_pass\<close> of \<^verbatim>\<open>source/core/runner.c\<close>.

  \<open>RunState\<close> holds what the worker's pointers reach: the memory, the shared progress
  counter (this worker's additions to it), the report and the statistics, and the pressure
  state; \<open>w_polls\<close> counts the reads of the stop flag.  \<open>Env\<close> is everything the pass does not
  control: whether the build has vector instructions, the value of the stop flag at each
  poll, and what happens to the memory between one poll and the next (\<open>env_drift\<close>: nothing
  in a healthy console; a defective cell or another writer otherwise).  The worker polls
  before every chunk and before every phase, so the environment acts between any two
  chunks.
\<close>

unbundle bit_operations_syntax

section \<open>State and environment\<close>

record NxmtRunStats =
  bytes_written :: u64
  bytes_verified :: u64
  pressure_checksum :: u64
  current_phase :: NxmtPhase

record RunState =
  w_mem :: mem
  w_progress :: u64
  w_polls :: nat
  w_pressure :: u64
  w_report :: NxmtReport
  w_stats :: NxmtRunStats

record Env =
  env_neon :: bool
  env_stop :: "nat \<Rightarrow> bool"
  env_drift :: "nat \<Rightarrow> mem \<Rightarrow> mem"

section \<open>Phases of a mode and small helpers\<close>

definition quick_phases :: "NxmtPhase list" where
  "quick_phases = [NXMT_PHASE_FIXED_A, NXMT_PHASE_ADDRESS, NXMT_PHASE_RANDOM]"

definition memory_load_phases :: "NxmtPhase list" where
  "memory_load_phases =
     [NXMT_PHASE_FIXED_A, NXMT_PHASE_FIXED_5, NXMT_PHASE_CHECKER, NXMT_PHASE_BITSPREAD,
      NXMT_PHASE_STREAM, NXMT_PHASE_ADDRESS, NXMT_PHASE_RANDOM, NXMT_PHASE_WALKING]"

definition nxmt_extreme_cpu_pressure :: "u64 \<Rightarrow> u64 \<Rightarrow> u64" where
  "nxmt_extreme_cpu_pressure state value =
     (let value = fst (for_by 1 0 64
            (\<lambda>i value.
               let value = nxmt_mix64 (value + of_nat i);
                   value = value XOR push_bit 13 value;
                   value = value XOR drop_bit 7 value
               in value XOR push_bit 17 value) value)
      in state XOR value)"

definition nxmt_phase_count_for_mode :: "NxmtMode \<Rightarrow> nat" where
  "nxmt_phase_count_for_mode mode =
     (if mode = NXMT_MODE_QUICK then length quick_phases else length memory_load_phases)"

definition nxmt_phase_for_mode :: "NxmtMode \<Rightarrow> nat \<Rightarrow> NxmtPhase" where
  "nxmt_phase_for_mode mode index =
     (if mode = NXMT_MODE_QUICK then quick_phases ! index else memory_load_phases ! index)"

definition nxmt_runner_phase_count :: "NxmtMode \<Rightarrow> nat" where
  "nxmt_runner_phase_count mode = nxmt_phase_count_for_mode mode"

definition nxmt_runner_is_aligned :: "NxmtArena \<Rightarrow> bool" where
  "nxmt_runner_is_aligned arena \<longleftrightarrow> a_base arena mod 8 = 0"

text \<open>Reading the stop flag; the environment acts first.\<close>

definition nxmt_runner_stop_requested :: "Env \<Rightarrow> NxmtRunConfig \<Rightarrow> RunState \<Rightarrow> bool \<times> RunState" where
  "nxmt_runner_stop_requested env config s =
     (has_stop_requested config \<and> env_stop env (w_polls s),
      s\<lparr>w_mem := env_drift env (w_polls s) (w_mem s), w_polls := w_polls s + 1\<rparr>)"

definition nxmt_runner_abort_status :: "NxmtReport \<Rightarrow> u64 \<Rightarrow> NxmtStatus" where
  "nxmt_runner_abort_status report initial_errors =
     (if error_count report \<noteq> initial_errors then NXMT_STATUS_FAIL else NXMT_STATUS_ABORTED)"

definition nxmt_progress_add :: "NxmtRunConfig \<Rightarrow> u64 \<Rightarrow> RunState \<Rightarrow> RunState" where
  "nxmt_progress_add config delta s =
     (if has_progress_bytes config \<and> delta \<noteq> 0 then s\<lparr>w_progress := w_progress s + delta\<rparr> else s)"

section \<open>The chunked loops\<close>

text \<open>
  The loop both phase functions have: poll, cut a chunk of at most \<open>check_chunk\<close> words,
  process it, advance.  The counter is 64 bits wide and wraps, so for counts within one
  chunk of 2^64 the loop would not end; \<open>None\<close> is that case.
\<close>

definition check_chunk :: u64 where
  "check_chunk = push_bit 20 1 div NXMT_WORD_BYTES"

partial_function (option) chunk_loop ::
    "(RunState \<Rightarrow> bool \<times> RunState) \<Rightarrow> u64 \<Rightarrow> (u64 \<Rightarrow> u64 \<Rightarrow> RunState \<Rightarrow> RunState)
      \<Rightarrow> u64 \<Rightarrow> RunState \<Rightarrow> (bool \<times> RunState) option" where
  "chunk_loop poll count body processed s =
     (if processed < count then
        (let (stop, s) = poll s
         in if stop then Some (False, s)
            else
              let chunk = (if processed + check_chunk > count then count - processed else check_chunk);
                  s = body processed chunk s
              in chunk_loop poll count body (processed + chunk) s)
      else Some (True, s))"

text \<open>The pressure fold of the extreme mode over a chunk in memory.\<close>

definition pressure_chunk :: "NxmtRunConfig \<Rightarrow> u64 \<Rightarrow> u64 \<Rightarrow> RunState \<Rightarrow> RunState" where
  "pressure_chunk config chunk_p chunk s =
     (if c_mode config = NXMT_MODE_EXTREME
      then s\<lparr>w_pressure := fst (for_by 1 0 (unat chunk)
             (\<lambda>k pressure_state. nxmt_extreme_cpu_pressure pressure_state (load64 (w_mem s) (widx chunk_p k)))
             (w_pressure s))\<rparr>
      else s)"

definition write_body :: "Env \<Rightarrow> u64 \<Rightarrow> u64 \<Rightarrow> NxmtPhase \<Rightarrow> NxmtRunConfig \<Rightarrow> u64 \<Rightarrow> u64 \<Rightarrow> RunState \<Rightarrow> RunState" where
  "write_body env write_base start phase config processed chunk s =
     (let chunk_p = write_base + 8 * processed;
          s = s\<lparr>w_mem := nxmt_write_chunk (env_neon env) (w_mem s) chunk_p chunk (start + processed)
                  phase (c_seed config) (c_pass config)\<rparr>;
          s = pressure_chunk config chunk_p chunk s
      in nxmt_progress_add config (chunk * NXMT_WORD_BYTES) s)"

definition nxmt_write_phase ::
    "Env \<Rightarrow> u64 \<Rightarrow> u64 \<Rightarrow> u64 \<Rightarrow> NxmtPhase \<Rightarrow> NxmtRunConfig \<Rightarrow> RunState \<Rightarrow> (bool \<times> RunState) option" where
  "nxmt_write_phase env base start count phase config s =
     (let write_base = base + start * NXMT_WORD_BYTES
      in case chunk_loop (nxmt_runner_stop_requested env config) count
                (write_body env write_base start phase config) 0 s of
           None \<Rightarrow> None
         | Some (False, s) \<Rightarrow> Some (False, s)
         | Some (True, s) \<Rightarrow>
             Some (True,
               if inject_mismatch config \<and> count > 0
               then s\<lparr>w_mem := store64 (w_mem s) write_base (load64 (w_mem s) write_base XOR 0x100)\<rparr>
               else s))"

definition verify_body :: "Env \<Rightarrow> u64 \<Rightarrow> u64 \<Rightarrow> NxmtPhase \<Rightarrow> NxmtRunConfig \<Rightarrow> u64 \<Rightarrow> u64 \<Rightarrow> RunState \<Rightarrow> RunState" where
  "verify_body env read_base start phase config processed chunk s =
     (let chunk_p = read_base + 8 * processed;
          s = s\<lparr>w_report := nxmt_verify_chunk (env_neon env) (w_mem s) chunk_p chunk (start + processed)
                  phase config (w_report s)\<rparr>;
          s = pressure_chunk config chunk_p chunk s
      in nxmt_progress_add config (chunk * NXMT_WORD_BYTES) s)"

definition nxmt_verify_phase ::
    "Env \<Rightarrow> u64 \<Rightarrow> u64 \<Rightarrow> u64 \<Rightarrow> NxmtPhase \<Rightarrow> NxmtRunConfig \<Rightarrow> RunState \<Rightarrow> (bool \<times> RunState) option" where
  "nxmt_verify_phase env base start count phase config s =
     (let read_base = base + start * NXMT_WORD_BYTES
      in chunk_loop (nxmt_runner_stop_requested env config) count
           (verify_body env read_base start phase config) 0 s)"

section \<open>The pass\<close>

definition set_checksum :: "RunState \<Rightarrow> RunState" where
  "set_checksum s = s\<lparr>w_stats := (w_stats s)\<lparr>pressure_checksum := w_pressure s\<rparr>\<rparr>"

text \<open>
  One iteration of the loop over the phases: \<open>True\<close> when the loop goes on.  The three exits
  (stop before the phase, in its write half, in its verify half) are the same: the checksum
  is stored and the abort status returned.
\<close>

definition run_phase ::
    "Env \<Rightarrow> u64 \<Rightarrow> u64 \<Rightarrow> u64 \<Rightarrow> NxmtPhase \<Rightarrow> NxmtRunConfig \<Rightarrow> RunState \<Rightarrow> (bool \<times> RunState) option" where
  "run_phase env base start count phase config s =
     (let (stop, s) = nxmt_runner_stop_requested env config s
      in if stop then Some (False, s)
         else
           let s = s\<lparr>w_stats := (w_stats s)\<lparr>current_phase := phase\<rparr>\<rparr>
           in case nxmt_write_phase env base start count phase config s of
                None \<Rightarrow> None
              | Some (False, s) \<Rightarrow> Some (False, s)
              | Some (True, s) \<Rightarrow>
                  let s = s\<lparr>w_stats := (w_stats s)\<lparr>bytes_written
                                := bytes_written (w_stats s) + count * NXMT_WORD_BYTES\<rparr>\<rparr>
                  in case nxmt_verify_phase env base start count phase config s of
                       None \<Rightarrow> None
                     | Some (False, s) \<Rightarrow> Some (False, s)
                     | Some (True, s) \<Rightarrow>
                         Some (True, s\<lparr>w_stats := (w_stats s)\<lparr>bytes_verified
                                := bytes_verified (w_stats s) + count * NXMT_WORD_BYTES\<rparr>\<rparr>))"

fun run_phases ::
    "Env \<Rightarrow> u64 \<Rightarrow> u64 \<Rightarrow> u64 \<Rightarrow> NxmtRunConfig \<Rightarrow> u64 \<Rightarrow> nat list \<Rightarrow> RunState \<Rightarrow> (NxmtStatus \<times> RunState) option" where
  "run_phases env base start count config initial_errors [] s =
     (let s = set_checksum s
      in Some (if error_count (w_report s) \<noteq> initial_errors then NXMT_STATUS_FAIL else NXMT_STATUS_PASS, s))"
| "run_phases env base start count config initial_errors (p # ps) s =
     (let phase = nxmt_phase_for_mode (c_mode config) p
      in case run_phase env base start count phase config s of
           None \<Rightarrow> None
         | Some (False, s) \<Rightarrow> Some (nxmt_runner_abort_status (w_report s) initial_errors, set_checksum s)
         | Some (True, s) \<Rightarrow> run_phases env base start count config initial_errors ps s)"

text \<open>
  The four pointers may be null: the arena and the configuration are options, the report
  and the statistics (which the state holds) have a flag.
\<close>

definition nxmt_runner_run_pass ::
    "Env \<Rightarrow> NxmtArena option \<Rightarrow> NxmtRunConfig option \<Rightarrow> bool \<Rightarrow> bool \<Rightarrow> RunState \<Rightarrow> (NxmtStatus \<times> RunState) option" where
  "nxmt_runner_run_pass env arena config has_report has_stats s =
     (if \<not> has_stats then Some (NXMT_STATUS_UNSUPPORTED, s)
      else
        let s = s\<lparr>w_stats := \<lparr>bytes_written = 0, bytes_verified = 0, pressure_checksum = 0,
                    current_phase = NXMT_PHASE_FIXED_A\<rparr>\<rparr>
        in case (arena, config) of
             (Some arena, Some config) \<Rightarrow>
               if \<not> has_report then Some (NXMT_STATUS_UNSUPPORTED, s)
               else if a_base arena = 0 \<or> a_words arena = 0 \<or> c_worker_count config = 0
                      \<or> c_worker_id config \<ge> c_worker_count config
               then Some (NXMT_STATUS_UNSUPPORTED, s)
               else if \<not> nxmt_runner_is_aligned arena then Some (NXMT_STATUS_UNSUPPORTED, s)
               else
                 let initial_errors = error_count (w_report s);
                     s = s\<lparr>w_pressure := c_seed config XOR ucast (c_worker_id config)\<rparr>;
                     start = nxmt_split_block_start (a_words arena) (c_worker_count config) (c_worker_id config);
                     count = nxmt_split_block_size (a_words arena) (c_worker_count config) (c_worker_id config);
                     phase_count = nxmt_phase_count_for_mode (c_mode config)
                 in run_phases env (a_base arena) start count config initial_errors [0..<phase_count] s
           | _ \<Rightarrow> Some (NXMT_STATUS_UNSUPPORTED, s))"

end
