(* ===== verification/Pass_Contract.thy ===== *)
theory Pass_Contract
  imports Runner
begin

text \<open>
  The proof rules of the pass: total correctness of the chunked loop from an invariant,
  what one write half and one verify half do, and the locale \<open>pass_contract\<close>: a property
  that every phase keeps (or leaves through an abort) is a property of the whole pass,
  which then returns.
\<close>

unbundle bit_operations_syntax

section \<open>The chunked loop\<close>

lemma check_chunk_value: "check_chunk = 131072"
  by (simp add: check_chunk_def push_bit_eq_mult)

lemma next_chunk:
  fixes processed count :: u64
  assumes "processed < count" and "unat count + 131072 \<le> 2 ^ 64"
  defines "c \<equiv> (if processed + check_chunk > count then count - processed else check_chunk)"
  shows "unat c = min 131072 (unat count - unat processed)"
    and "unat (processed + c) = unat processed + unat c"
proof -
  have lt: "unat processed < unat count" using assms(1) by (simp add: word_less_nat_alt)
  have "unat (processed + 131072) = unat processed + 131072"
    using lt assms(2) by (subst unat_add_small) simp_all
  moreover have "unat (count - processed) = unat count - unat processed"
    using assms(1) by (simp add: unat_sub)
  ultimately show c: "unat c = min 131072 (unat count - unat processed)"
    by (simp add: c_def check_chunk_value word_less_nat_alt min_def) arith
  show "unat (processed + c) = unat processed + unat c"
    using lt assms(2) by (intro unat_add_small) (simp add: c)
qed

text \<open>The length of the chunk that starts at word \<open>k\<close> of \<open>n\<close>.\<close>

abbreviation chunk_len :: "nat \<Rightarrow> nat \<Rightarrow> nat" where
  "chunk_len n k \<equiv> min 131072 (n - k)"

lemma chunk_loop_rule:
  assumes count: "unat count + 131072 \<le> 2 ^ 64"
    and step: "\<And>k s stop s1. I k s \<Longrightarrow> k < unat count \<Longrightarrow> poll s = (stop, s1) \<Longrightarrow>
      if stop then Q s1
      else I (k + chunk_len (unat count) k) (body (of_nat k) (of_nat (chunk_len (unat count) k)) s1)"
    and "I (unat processed) s" and "unat processed \<le> unat count"
  shows "\<exists>b s'. chunk_loop poll count body processed s = Some (b, s')
    \<and> (if b then I (unat count) s' else Q s')"
  using assms(3,4)
proof (induction "unat count - unat processed" arbitrary: processed s rule: less_induct)
  case less
  show ?case
  proof (cases "processed < count")
    case False
    with less.prems have "unat processed = unat count" by (simp add: word_less_nat_alt)
    then have "processed = count" by (simp add: word_eq_iff_unat)
    with less.prems show ?thesis by (intro exI [of _ True]) (simp add: chunk_loop.simps)
  next
    case True
    define c where "c = (if processed + check_chunk > count then count - processed else check_chunk)"
    note c = next_chunk [OF True count, folded c_def]
    have lt: "unat processed < unat count" using True by (simp add: word_less_nat_alt)
    obtain stop s1 where p: "poll s = (stop, s1)" by (cases "poll s")
    have unfold: "chunk_loop poll count body processed s
        = (if stop then Some (False, s1) else chunk_loop poll count body (processed + c) (body processed c s1))"
      using True by (simp add: chunk_loop.simps [of poll count body processed] p Let_def flip: c_def)
    have nxt: "if stop then Q s1 else I (unat (processed + c)) (body processed c s1)"
      using step [OF less.prems(1) lt p] unfolding c(1) [symmetric] c(2) by (cases stop) simp_all
    show ?thesis
    proof (cases stop)
      case True
      with nxt show ?thesis by (auto simp: unfold)
    next
      case False
      moreover have "unat count - unat (processed + c) < unat count - unat processed"
        "unat (processed + c) \<le> unat count"
        using c lt by auto
      ultimately show ?thesis using nxt less.hyps [of "processed + c" "body processed c s1"]
        by (simp add: unfold)
    qed
  qed
qed

section \<open>Field updates of the helpers\<close>

lemma pressure_chunk_fields [simp]:
  "w_mem (pressure_chunk config p c s) = w_mem s"
  "w_progress (pressure_chunk config p c s) = w_progress s"
  "w_polls (pressure_chunk config p c s) = w_polls s"
  "w_report (pressure_chunk config p c s) = w_report s"
  "w_stats (pressure_chunk config p c s) = w_stats s"
  by (simp_all add: pressure_chunk_def)

lemma progress_add_fields [simp]:
  "w_mem (nxmt_progress_add config d s) = w_mem s"
  "w_polls (nxmt_progress_add config d s) = w_polls s"
  "w_pressure (nxmt_progress_add config d s) = w_pressure s"
  "w_report (nxmt_progress_add config d s) = w_report s"
  "w_stats (nxmt_progress_add config d s) = w_stats s"
  "w_progress (nxmt_progress_add config d s)
     = w_progress s + (if has_progress_bytes config then d else 0)"
  by (simp_all add: nxmt_progress_add_def)

lemma stop_requested_fields:
  assumes "nxmt_runner_stop_requested env config s = (stop, s1)"
  shows "stop \<longleftrightarrow> has_stop_requested config \<and> env_stop env (w_polls s)"
    and "w_mem s1 = env_drift env (w_polls s) (w_mem s)"
    and "w_report s1 = w_report s" and "w_stats s1 = w_stats s" and "w_progress s1 = w_progress s"
    and "w_pressure s1 = w_pressure s" and "w_polls s1 = w_polls s + 1"
  using assms by (auto simp: nxmt_runner_stop_requested_def)

lemmas field_simps = stop_requested_fields pressure_chunk_fields progress_add_fields

section \<open>The contract of a phase\<close>

text \<open>The arguments the pass accepts, and the state after its first assignments.\<close>

definition valid_args :: "NxmtArena \<Rightarrow> NxmtRunConfig \<Rightarrow> bool" where
  "valid_args arena config \<longleftrightarrow> a_base arena \<noteq> 0 \<and> a_words arena \<noteq> 0 \<and> c_worker_count config \<noteq> 0
     \<and> c_worker_id config < c_worker_count config \<and> aligned8 (a_base arena)"

definition start_state :: "NxmtRunConfig \<Rightarrow> RunState \<Rightarrow> RunState" where
  "start_state config s = s\<lparr>w_stats := \<lparr>bytes_written = 0, bytes_verified = 0, pressure_checksum = 0,
      current_phase = NXMT_PHASE_FIXED_A\<rparr>, w_pressure := c_seed config XOR ucast (c_worker_id config)\<rparr>"

abbreviation slice_start :: "NxmtArena \<Rightarrow> NxmtRunConfig \<Rightarrow> u64" where
  "slice_start arena config \<equiv>
     nxmt_split_block_start (a_words arena) (c_worker_count config) (c_worker_id config)"

abbreviation slice_count :: "NxmtArena \<Rightarrow> NxmtRunConfig \<Rightarrow> u64" where
  "slice_count arena config \<equiv>
     nxmt_split_block_size (a_words arena) (c_worker_count config) (c_worker_id config)"

abbreviation phases_of :: "NxmtRunConfig \<Rightarrow> nat" where
  "phases_of config \<equiv> nxmt_phase_count_for_mode (c_mode config)"

abbreviation nth_phase :: "NxmtRunConfig \<Rightarrow> nat \<Rightarrow> NxmtPhase" where
  "nth_phase config i \<equiv> nxmt_phase_for_mode (c_mode config) i"

lemma slice_le_words:
  "valid_args arena config \<Longrightarrow>
    unat (slice_start arena config) + unat (slice_count arena config) \<le> unat (a_words arena)"
  by (rule split.block_le_total) (simp add: valid_args_def)

lemma run_pass_valid:
  assumes "valid_args arena config"
  shows "nxmt_runner_run_pass env (Some arena) (Some config) True True s
    = run_phases env (a_base arena) (slice_start arena config) (slice_count arena config) config
        (error_count (w_report s)) [0..<phases_of config] (start_state config s)"
  using assms
  by (auto simp: nxmt_runner_run_pass_def valid_args_def nxmt_runner_is_aligned_def aligned8_def
      start_state_def Let_def)

lemma runner_aligned: "nxmt_runner_is_aligned arena = aligned8 (a_base arena)"
  by (simp add: nxmt_runner_is_aligned_def aligned8_def)

lemma run_pass_invalid:
  assumes "\<not> valid_args arena config"
  shows "\<exists>s'. nxmt_runner_run_pass env (Some arena) (Some config) True True s
    = Some (NXMT_STATUS_UNSUPPORTED, s') \<and> w_report s' = w_report s"
  using assms by (auto simp: nxmt_runner_run_pass_def valid_args_def runner_aligned Let_def)

locale pass_contract =
  fixes ok :: "Env \<Rightarrow> NxmtArena \<Rightarrow> NxmtRunConfig \<Rightarrow> bool"
    and inv :: "Env \<Rightarrow> NxmtArena \<Rightarrow> NxmtRunConfig \<Rightarrow> RunState \<Rightarrow> nat \<Rightarrow> RunState \<Rightarrow> bool"
    and aborted :: "Env \<Rightarrow> NxmtArena \<Rightarrow> NxmtRunConfig \<Rightarrow> RunState \<Rightarrow> RunState \<Rightarrow> bool"
  assumes inv_start: "inv env arena config (start_state config s) 0 (start_state config s)"
    and inv_phase: "ok env arena config \<Longrightarrow> valid_args arena config \<Longrightarrow> inv env arena config s0 i s
      \<Longrightarrow> i < phases_of config
      \<Longrightarrow> \<exists>b s'. run_phase env (a_base arena) (slice_start arena config) (slice_count arena config)
              (nth_phase config i) config s = Some (b, s')
            \<and> (if b then inv env arena config s0 (Suc i) s' else aborted env arena config s0 s')"
begin

lemma phases_from:
  assumes ok: "ok env arena config" "valid_args arena config"
  shows "inv env arena config s0 i s \<Longrightarrow> i \<le> phases_of config \<Longrightarrow>
    \<exists>st s'. run_phases env (a_base arena) (slice_start arena config) (slice_count arena config) config errs
        [i..<phases_of config] s = Some (st, set_checksum s')
      \<and> (aborted env arena config s0 s' \<and> st = nxmt_runner_abort_status (w_report s') errs
         \<or> inv env arena config s0 (phases_of config) s'
           \<and> st = (if error_count (w_report s') \<noteq> errs then NXMT_STATUS_FAIL else NXMT_STATUS_PASS))"
proof (induction "phases_of config - i" arbitrary: i s)
  case 0
  then have "i = phases_of config" by simp
  with 0 show ?case
    by (intro exI [of _ "if error_count (w_report s) \<noteq> errs then NXMT_STATUS_FAIL else NXMT_STATUS_PASS"]
        exI [of _ s]) (simp add: set_checksum_def Let_def)
next
  case (Suc d)
  then have i: "i < phases_of config" by simp
  from inv_phase [OF ok Suc.prems(1) i] obtain b s' where
    step: "run_phase env (a_base arena) (slice_start arena config) (slice_count arena config)
      (nth_phase config i) config s = Some (b, s')"
    and post: "if b then inv env arena config s0 (Suc i) s' else aborted env arena config s0 s'"
    by blast
  have "[i..<phases_of config] = i # [Suc i..<phases_of config]" using i by (rule upt_conv_Cons)
  then have unfold: "run_phases env (a_base arena) (slice_start arena config) (slice_count arena config) config errs
        [i..<phases_of config] s
      = (if b then run_phases env (a_base arena) (slice_start arena config) (slice_count arena config) config errs
           [Suc i..<phases_of config] s'
         else Some (nxmt_runner_abort_status (w_report s') errs, set_checksum s'))"
    by (simp add: step Let_def)
  show ?case
  proof (cases b)
    case True
    with post Suc i show ?thesis unfolding unfold by simp
  next
    case False
    with post show ?thesis unfolding unfold by auto
  qed
qed

lemma pass_returns:
  assumes ok: "ok env arena config" "valid_args arena config"
  shows "\<exists>st s'. nxmt_runner_run_pass env (Some arena) (Some config) True True s = Some (st, set_checksum s')
    \<and> (aborted env arena config (start_state config s) s'
         \<and> st = nxmt_runner_abort_status (w_report s') (error_count (w_report s))
       \<or> inv env arena config (start_state config s) (phases_of config) s'
         \<and> st = (if error_count (w_report s') \<noteq> error_count (w_report s)
                 then NXMT_STATUS_FAIL else NXMT_STATUS_PASS))"
  using phases_from [OF ok inv_start, where errs = "error_count (w_report s)"]
  by (simp add: run_pass_valid [OF ok(2)])

end

end
