(* ===== verification/Pass_Sound.thy ===== *)
theory Pass_Sound
  imports Pass_Contract
begin

text \<open>
  What a pass reports, whatever the environment does: the stop flag may be raised at any
  poll and the memory may change between any two chunks.  Everything recorded is a genuine
  mismatch of the worker's own slice, the status is \<open>FAIL\<close> exactly when something was
  recorded, and the pass returns.
\<close>

section \<open>Genuine errors\<close>

text \<open>The error a mismatch at word \<open>k\<close> of a slice gives, when \<open>actual\<close> was read there.\<close>

definition word_error :: "NxmtRunConfig \<Rightarrow> NxmtPhase \<Rightarrow> u64 \<Rightarrow> nat \<Rightarrow> u64 \<Rightarrow> NxmtError" where
  "word_error config phase start k actual =
     mk_error (c_mode config) phase (c_seed config) (c_pass config) (c_worker_id config)
       ((start + of_nat k) * 8)
       (nxmt_expected_value (c_seed config) phase (c_pass config) ((start + of_nat k) * 8)) actual"

definition genuine :: "NxmtRunConfig \<Rightarrow> NxmtPhase \<Rightarrow> u64 \<Rightarrow> nat \<Rightarrow> NxmtError \<Rightarrow> bool" where
  "genuine config phase start n e \<longleftrightarrow>
     (\<exists>k<n. e = word_error config phase start k (e_actual e) \<and> e_actual e \<noteq> e_expected e)"

lemma chunk_errors_word_error:
  "chunk_errors m p n start phase config
    = map (\<lambda>k. word_error config phase start k (load64 m (widx p k)))
        (filter (\<lambda>k. load64 m (widx p k)
            \<noteq> nxmt_expected_value (c_seed config) phase (c_pass config) ((start + of_nat k) * 8)) [0..<n])"
  by (simp add: chunk_errors_def word_error_def expected_word_def Let_def)

lemma word_error_shift: "word_error config phase (start + of_nat j) k = word_error config phase start (j + k)"
  by (simp add: word_error_def add.assoc fun_eq_iff)

lemma chunk_errors_genuine:
  assumes "e \<in> set (chunk_errors m p n (start + of_nat j) phase config)" and "j + n \<le> N"
  shows "genuine config phase start N e"
proof -
  from assms(1) obtain k where "k < n"
    and e: "e = word_error config phase start (j + k) (load64 m (widx p k))"
    and "load64 m (widx p k)
      \<noteq> nxmt_expected_value (c_seed config) phase (c_pass config) ((start + of_nat (j + k)) * 8)"
    by (auto simp: chunk_errors_word_error word_error_shift add.assoc)
  moreover have "e_actual e = load64 m (widx p k)"
    and "e_expected e = nxmt_expected_value (c_seed config) phase (c_pass config) ((start + of_nat (j + k)) * 8)"
    by (simp_all add: e word_error_def mk_error_def)
  ultimately show ?thesis
    using assms(2) unfolding genuine_def by (intro exI [of _ "j + k"]) simp
qed

lemma chunk_errors_length: "length (chunk_errors m p n start phase config) \<le> n"
  unfolding chunk_errors_word_error by (simp add: length_filter_le [THEN order_trans])

lemma wf_word_error: "wf_error (word_error config phase start k actual)"
  by (simp add: word_error_def mk_error_def wf_error_def)

lemma genuine_wf: "genuine config phase start n e \<Longrightarrow> wf_error e"
  by (metis genuine_def wf_word_error)

lemma error_count_record_all:
  "error_count (record_all es r) = error_count r + of_nat (length es)"
proof (induction es arbitrary: r)
  case (Cons e es)
  have "error_count (record_event r e) = error_count r + 1"
    by (auto simp: record_event_def nxmt_report_record_error_def Let_def)
  with Cons show ?case by (simp add: algebra_simps)
qed simp

section \<open>The two halves of a phase\<close>

text \<open>Whether the stop flag can be seen raised at all.\<close>

definition stoppable :: "Env \<Rightarrow> NxmtRunConfig \<Rightarrow> bool" where
  "stoppable env config \<longleftrightarrow> has_stop_requested config \<and> (\<exists>t. env_stop env t)"

lemma poll_stoppable:
  "nxmt_runner_stop_requested env config s = (True, s1) \<Longrightarrow> stoppable env config"
  by (auto simp: stoppable_def nxmt_runner_stop_requested_def)

lemma write_phase_keeps_report:
  assumes "unat count + 131072 \<le> 2 ^ 64"
  shows "\<exists>b s'. nxmt_write_phase env base start count phase config s = Some (b, s')
    \<and> w_report s' = w_report s \<and> w_stats s' = w_stats s \<and> (b \<or> stoppable env config)"
proof -
  let ?I = "\<lambda>s'. w_report s' = w_report s \<and> w_stats s' = w_stats s"
  have "\<exists>b s'. chunk_loop (nxmt_runner_stop_requested env config) count
      (write_body env (base + start * 8) start phase config) 0 s = Some (b, s')
      \<and> (if b then ?I s' else ?I s' \<and> stoppable env config)"
    by (rule chunk_loop_rule [OF assms, where I = "\<lambda>k. ?I"])
      (auto simp: write_body_def Let_def stop_requested_fields dest: poll_stoppable)
  then show ?thesis by (auto simp: nxmt_write_phase_def Let_def split: bool.splits)
qed

lemma verify_body_report:
  assumes "unat start + unat count < 2 ^ 61" and "k < unat count"
  defines "c \<equiv> chunk_len (unat count) k"
  shows "w_report (verify_body env p start phase config (of_nat k) (of_nat c) s)
    = record_all (chunk_errors (w_mem s) (widx p k) c (start + of_nat k) phase config) (w_report s)"
proof -
  have "unat start + k < 2 ^ 64" "k < 2 ^ 64" "c < 2 ^ 64" "k + c \<le> unat count"
    using assms by (auto simp: c_def)
  then have "unat (start + of_nat k) = unat start + k" "unat (of_nat c :: u64) = c"
    by (simp_all add: unat_word_ariths unat_of_nat)
  moreover from this have "unat (start + of_nat k) + unat (of_nat c :: u64) < 2 ^ 61"
    using assms(1) \<open>k + c \<le> unat count\<close> by linarith
  ultimately show ?thesis
    by (simp add: verify_body_def Let_def verify_chunk_record widx_def)
qed

lemma verify_phase_genuine:
  assumes small: "unat start + unat count < 2 ^ 61"
  shows "\<exists>b s' es. nxmt_verify_phase env base start count phase config s = Some (b, s')
    \<and> w_report s' = record_all es (w_report s) \<and> length es \<le> unat count
    \<and> (\<forall>e \<in> set es. genuine config phase start (unat count) e) \<and> w_stats s' = w_stats s
    \<and> (b \<or> stoppable env config)"
proof -
  let ?I = "\<lambda>k s'. \<exists>es. w_report s' = record_all es (w_report s) \<and> length es \<le> k
    \<and> (\<forall>e \<in> set es. genuine config phase start (unat count) e) \<and> w_stats s' = w_stats s"
  let ?body = "verify_body env (base + start * 8) start phase config"
  have count: "unat count + 131072 \<le> 2 ^ 64" using small by simp
  have "\<exists>b s'. chunk_loop (nxmt_runner_stop_requested env config) count ?body 0 s = Some (b, s')
      \<and> (if b then ?I (unat count) s' else ?I (unat count) s' \<and> stoppable env config)"
  proof (rule chunk_loop_rule [OF count, where I = ?I])
    fix k s0 stop s1
    assume I: "?I k s0" and k: "k < unat count"
      and poll: "nxmt_runner_stop_requested env config s0 = (stop, s1)"
    let ?c = "chunk_len (unat count) k"
    from I obtain es where es: "w_report s0 = record_all es (w_report s)" "length es \<le> k"
      "\<forall>e \<in> set es. genuine config phase start (unat count) e" "w_stats s0 = w_stats s" by blast
    show "if stop then ?I (unat count) s1 \<and> stoppable env config else ?I (k + ?c) (?body (of_nat k) (of_nat ?c) s1)"
    proof (cases stop)
      case True
      with es k poll show ?thesis
        by (auto simp: stop_requested_fields [OF poll] dest: poll_stoppable intro!: exI [of _ es])
    next
      case False
      let ?new = "chunk_errors (w_mem s1) (widx (base + start * 8) k) ?c (start + of_nat k) phase config"
      have "?I (k + ?c) (?body (of_nat k) (of_nat ?c) s1)"
      proof (intro exI [of _ "es @ ?new"] conjI ballI)
        show "w_report (?body (of_nat k) (of_nat ?c) s1) = record_all (es @ ?new) (w_report s)"
          using es(1) by (simp add: verify_body_report [OF small k] stop_requested_fields [OF poll])
        show "length (es @ ?new) \<le> k + ?c"
          using es(2) chunk_errors_length [of _ _ ?c] by (simp add: add_mono)
        show "w_stats (?body (of_nat k) (of_nat ?c) s1) = w_stats s"
          by (simp add: verify_body_def Let_def stop_requested_fields [OF poll] es(4))
        fix e assume "e \<in> set (es @ ?new)"
        with es(3) k show "genuine config phase start (unat count) e"
          by (auto elim!: chunk_errors_genuine)
      qed
      with False show ?thesis by simp
    qed
  qed (auto intro!: exI [of _ "[]"])
  then show ?thesis unfolding nxmt_verify_phase_def Let_def by (auto split: if_splits)
qed

section \<open>The pass\<close>

text \<open>The errors a pass can record: of one of the phases of the mode.\<close>

definition genuine_in_pass :: "NxmtArena \<Rightarrow> NxmtRunConfig \<Rightarrow> NxmtError \<Rightarrow> bool" where
  "genuine_in_pass arena config e \<longleftrightarrow>
     (\<exists>i < phases_of config. genuine config (nth_phase config i) (slice_start arena config)
        (unat (slice_count arena config)) e)"

definition recorded :: "NxmtArena \<Rightarrow> NxmtRunConfig \<Rightarrow> RunState \<Rightarrow> nat \<Rightarrow> RunState \<Rightarrow> bool" where
  "recorded arena config s i s' \<longleftrightarrow>
     (\<exists>es. w_report s' = record_all es (w_report s) \<and> length es \<le> i * unat (slice_count arena config)
        \<and> (\<forall>e \<in> set es. genuine_in_pass arena config e))"

lemma run_phase_recorded:
  assumes words: "unat (a_words arena) < 2 ^ 61" and valid: "valid_args arena config"
    and rec: "recorded arena config s0 i s" and i: "i < phases_of config"
  shows "\<exists>b s'. run_phase env (a_base arena) (slice_start arena config) (slice_count arena config)
      (nth_phase config i) config s = Some (b, s') \<and> recorded arena config s0 (Suc i) s'
      \<and> (b \<or> stoppable env config)"
proof -
  let ?start = "slice_start arena config" and ?count = "slice_count arena config"
    and ?phase = "nth_phase config i"
  have small: "unat ?start + unat ?count < 2 ^ 61"
    using slice_le_words [OF valid] words by simp
  then have count: "unat ?count + 131072 \<le> 2 ^ 64" by simp
  have mono: "recorded arena config s0 (Suc i) s'" if "w_report s' = w_report s" for s'
    using rec that unfolding recorded_def by (auto simp: add_increasing)
  obtain stop s1 where poll: "nxmt_runner_stop_requested env config s = (stop, s1)" by fastforce
  show ?thesis
  proof (cases stop)
    case True
    with mono [of s1] stop_requested_fields(3) [OF poll] poll_stoppable poll show ?thesis
      by (auto simp: run_phase_def)
  next
    case False
    let ?s1 = "s1\<lparr>w_stats := (w_stats s1)\<lparr>current_phase := ?phase\<rparr>\<rparr>"
    from write_phase_keeps_report [OF count, of env "a_base arena" ?start ?phase config ?s1]
    obtain b s2 where wr: "nxmt_write_phase env (a_base arena) ?start ?count ?phase config ?s1 = Some (b, s2)"
      and r2: "w_report s2 = w_report s" and st2: "b \<or> stoppable env config"
      by (auto simp: stop_requested_fields [OF poll])
    show ?thesis
    proof (cases b)
      case False
      with mono [OF r2] st2 \<open>\<not> stop\<close> show ?thesis by (auto simp: run_phase_def poll Let_def wr)
    next
      case True
      let ?s2 = "s2\<lparr>w_stats := (w_stats s2)\<lparr>bytes_written := bytes_written (w_stats s2) + ?count * 8\<rparr>\<rparr>"
      from verify_phase_genuine [OF small, of env "a_base arena" ?phase config ?s2] obtain b' s3 es' where
        verify: "nxmt_verify_phase env (a_base arena) ?start ?count ?phase config ?s2 = Some (b', s3)" and
        r3: "w_report s3 = record_all es' (w_report s2)" "length es' \<le> unat ?count"
          "\<forall>e \<in> set es'. genuine config ?phase ?start (unat ?count) e"
        and st3: "b' \<or> stoppable env config" by auto
      from rec obtain es where "w_report s = record_all es (w_report s0)"
        "length es \<le> i * unat ?count" "\<forall>e \<in> set es. genuine_in_pass arena config e"
        by (auto simp: recorded_def)
      with r3 i have "recorded arena config s0 (Suc i) s'" if "w_report s' = w_report s3" for s'
        unfolding recorded_def using that r2
        by (intro exI [of _ "es @ es'"]) (auto simp: genuine_in_pass_def)
      then show ?thesis using \<open>\<not> stop\<close> \<open>b\<close> st3
        by (cases b') (auto simp: run_phase_def poll Let_def wr verify)
    qed
  qed
qed

interpretation sound: pass_contract
  "\<lambda>env arena config. unat (a_words arena) < 2 ^ 61"
  "\<lambda>env arena config. recorded arena config"
  "\<lambda>env arena config s0 s. recorded arena config s0 (phases_of config) s \<and> stoppable env config"
proof
  fix arena config s
  show "recorded arena config (start_state config s) 0 (start_state config s)"
    by (auto simp: recorded_def)
next
  fix env arena config s0 i s
  assume *: "unat (a_words arena) < 2 ^ 61" "valid_args arena config" "recorded arena config s0 i s"
    and i: "i < phases_of config"
  have mono: "recorded arena config s0 (phases_of config) s'" if "recorded arena config s0 (Suc i) s'" for s'
  proof -
    have "Suc i * unat (slice_count arena config) \<le> phases_of config * unat (slice_count arena config)"
      using i by (intro mult_le_mono1) simp
    with that show ?thesis unfolding recorded_def by fastforce
  qed
  from run_phase_recorded [OF * i, of env] mono show "\<exists>b s'. run_phase env (a_base arena)
      (slice_start arena config) (slice_count arena config) (nth_phase config i) config s = Some (b, s')
      \<and> (if b then recorded arena config s0 (Suc i) s'
         else recorded arena config s0 (phases_of config) s' \<and> stoppable env config)"
    by (elim exE conjE) (intro exI conjI, assumption, auto split: if_splits)
qed

end
