(* ===== verification/Pass_Healthy.thy ===== *)
theory Pass_Healthy
  imports Pass_Sound
begin

text \<open>
  The pass on memory that keeps what is written (\<open>quiet\<close>: the environment leaves the bytes of
  the slice alone and requests no stop; it may do anything to the rest of the memory, as the
  other workers do), exactly: what each half of a phase stores, records and accounts for,
  with and without the injected mismatch.  The pressure state is an XOR over the words
  written and the words read back, so on quiet memory the two halves of a phase cancel.
\<close>

unbundle bit_operations_syntax

section \<open>What the environment keeps\<close>

text \<open>The bytes the environment never changes.\<close>

definition keeps :: "Env \<Rightarrow> u64 \<Rightarrow> bool" where
  "keeps env x \<longleftrightarrow> (\<forall>t m. env_drift env t m x = m x)"

definition kept :: "Env \<Rightarrow> u64 \<Rightarrow> nat \<Rightarrow> bool" where
  "kept env p n \<longleftrightarrow> (\<forall>x. in_slice p n x \<longrightarrow> keeps env x)"

definition quiet :: "Env \<Rightarrow> NxmtRunConfig \<Rightarrow> u64 \<Rightarrow> nat \<Rightarrow> bool" where
  "quiet env config p n \<longleftrightarrow> kept env p n \<and> \<not> stoppable env config"

lemma keeps_poll:
  "keeps env x \<Longrightarrow> nxmt_runner_stop_requested env config s = (stop, s1) \<Longrightarrow> w_mem s1 x = w_mem s x"
  by (auto simp: keeps_def stop_requested_fields)

lemma load_slice_cong:
  assumes "kept env p n" and "k < n"
    and "\<And>x. keeps env x \<Longrightarrow> m x = m' x"
  shows "load64 m (widx p k) = load64 m' (widx p k)"
  using assms by (intro load64_cong) (auto simp: kept_def in_slice_word)

section \<open>The pressure state as an exclusive or\<close>

definition pressure_of :: "u64 \<Rightarrow> u64" where
  "pressure_of value = nxmt_extreme_cpu_pressure 0 value"

lemma extreme_pressure_xor: "nxmt_extreme_cpu_pressure state value = state XOR pressure_of value"
  by (simp add: pressure_of_def nxmt_extreme_cpu_pressure_def Let_def)

definition pressure_xor :: "NxmtRunConfig \<Rightarrow> (nat \<Rightarrow> u64) \<Rightarrow> nat \<Rightarrow> u64" where
  "pressure_xor config f n =
     (if c_mode config = NXMT_MODE_EXTREME then fold (\<lambda>k x. x XOR pressure_of (f k)) [0..<n] 0 else 0)"

lemma fold_xor_start: "fold (\<lambda>k x. x XOR g k) ks a = a XOR fold (\<lambda>k x. x XOR g k) ks 0" for a :: u64
proof (induction ks arbitrary: a)
  case (Cons k ks)
  show ?case using Cons [of "a XOR g k"] Cons [of "g k"] by (simp add: xor.assoc)
qed simp

lemma pressure_xor_add:
  "pressure_xor config f (j + n) = pressure_xor config f j XOR pressure_xor config (\<lambda>k. f (j + k)) n"
proof -
  have "[j..<j + n] = map (\<lambda>k. j + k) [0..<n]" by (simp add: map_add_upt add.commute)
  then have "fold (\<lambda>k x. x XOR pressure_of (f k)) [j..<j + n] a
      = a XOR fold (\<lambda>k x. x XOR pressure_of (f (j + k))) [0..<n] 0" for a
    by (subst fold_xor_start) (simp add: fold_map comp_def)
  then show ?thesis by (simp add: pressure_xor_def upt_add_eq_append [of 0 j n, simplified])
qed

lemma pressure_xor_cong:
  "(\<And>k. k < n \<Longrightarrow> f k = g k) \<Longrightarrow> pressure_xor config f n = pressure_xor config g n"
  unfolding pressure_xor_def by (auto intro!: fold_cong_set)

lemma pressure_chunk_xor:
  "w_pressure (pressure_chunk config p c s)
    = w_pressure s XOR pressure_xor config (\<lambda>k. load64 (w_mem s) (widx p k)) (unat c)"
  by (simp add: pressure_chunk_def pressure_xor_def extreme_pressure_xor for_by_one [simplified]
      fold_xor_start [of _ _ "w_pressure s"])

section \<open>The write half\<close>

lemma chunk_words_small:
  fixes start count :: u64
  assumes "unat start + unat count < 2 ^ 61" and "k < unat count"
  defines "c \<equiv> chunk_len (unat count) k"
  shows "unat (of_nat c :: u64) = c" and "unat (start + of_nat k) + c < 2 ^ 61"
    and "k + c \<le> unat count" and "unat (of_nat k :: u64) = k"
proof -
  have b: "unat start + k < 2 ^ 64" "k < 2 ^ 64" "c < 2 ^ 64" "k + c \<le> unat count"
    using assms by (auto simp: c_def)
  then have u: "unat (start + of_nat k) = unat start + k"
    by (simp add: unat_word_ariths unat_of_nat)
  from b show "unat (of_nat c :: u64) = c" "unat (of_nat k :: u64) = k" "k + c \<le> unat count"
    by (simp_all add: unat_of_nat)
  show "unat (start + of_nat k) + c < 2 ^ 61" using u b assms(1) by linarith
qed

lemma progress_split: "of_nat (k + c) * 8 = of_nat k * 8 + of_nat c * (8 :: u64)"
  by (simp add: algebra_simps)

lemma write_body_effect:
  fixes config phase and start count :: u64 and env s
  assumes small: "unat start + unat count < 2 ^ 61" and k: "k < unat count" and al: "aligned8 p"
  defines "f \<equiv> expected_word (c_seed config) phase (c_pass config) start"
    and "c \<equiv> chunk_len (unat count) k"
  defines "s' \<equiv> write_body env p start phase config (of_nat k) (of_nat c) s"
  shows "w_mem s' = fill (widx p k) (\<lambda>i. f (k + i)) c (w_mem s)"
    and "w_pressure s' = w_pressure s XOR pressure_xor config (\<lambda>i. f (k + i)) c"
    and "w_progress s' = w_progress s + (if has_progress_bytes config then of_nat c * 8 else 0)"
    and "w_report s' = w_report s" and "w_stats s' = w_stats s"
proof -
  note cw = chunk_words_small [OF small k, folded c_def]
  have f: "expected_word (c_seed config) phase (c_pass config) (start + of_nat k) = (\<lambda>i. f (k + i))"
    by (simp add: f_def expected_word_def fun_eq_iff add.assoc)
  have chunk: "nxmt_write_chunk (env_neon env) m (widx p k) (of_nat c) (start + of_nat k) phase (c_seed config)
      (c_pass config) = fill (widx p k) (\<lambda>i. f (k + i)) c m" for m
    using write_chunk_fill [of "start + of_nat k" "of_nat c"] cw by (simp add: f)
  show mem: "w_mem s' = fill (widx p k) (\<lambda>i. f (k + i)) c (w_mem s)"
    by (simp add: s'_def write_body_def Let_def chunk flip: widx_def)
  have "load64 (fill (widx p k) (\<lambda>i. f (k + i)) c m) (widx (widx p k) i) = f (k + i)" if "i < c" for i m
    using al that cw(2) by (intro wm.load_fill) auto
  then have "pressure_xor config (\<lambda>i. load64 (fill (widx p k) (\<lambda>i. f (k + i)) c m) (widx (widx p k) i)) c
      = pressure_xor config (\<lambda>i. f (k + i)) c" for m
    by (rule pressure_xor_cong)
  then show "w_pressure s' = w_pressure s XOR pressure_xor config (\<lambda>i. f (k + i)) c"
    by (simp add: s'_def write_body_def Let_def pressure_chunk_xor chunk cw flip: widx_def)
  show "w_progress s' = w_progress s + (if has_progress_bytes config then of_nat c * 8 else 0)"
    "w_report s' = w_report s" "w_stats s' = w_stats s"
    by (simp_all add: s'_def write_body_def Let_def)
qed

text \<open>The words a slice holds after the write half, with the injected mismatch.\<close>

definition written_word :: "NxmtRunConfig \<Rightarrow> NxmtPhase \<Rightarrow> u64 \<Rightarrow> nat \<Rightarrow> u64" where
  "written_word config phase start k =
     expected_word (c_seed config) phase (c_pass config) start k
       XOR (if inject_mismatch config \<and> k = 0 then 0x100 else 0)"

text \<open>A half phase either completes, with the effect below, or sees the stop flag on the way.\<close>

lemma write_phase_kept:
  fixes config phase and base start count :: u64
  defines "f \<equiv> expected_word (c_seed config) phase (c_pass config) start" and "p \<equiv> base + start * 8"
  assumes kept: "kept env p (unat count)" and small: "unat start + unat count < 2 ^ 61"
    and al: "aligned8 base"
  shows "\<exists>b s'. nxmt_write_phase env base start count phase config s = Some (b, s') \<and> w_report s' = w_report s
    \<and> (if b then
       (\<forall>k < unat count. load64 (w_mem s') (widx p k) = written_word config phase start k)
    \<and> (\<forall>x. keeps env x \<longrightarrow> \<not> in_slice p (unat count) x \<longrightarrow> w_mem s' x = w_mem s x)
    \<and> w_pressure s' = w_pressure s XOR pressure_xor config f (unat count)
    \<and> w_progress s' = w_progress s + (if has_progress_bytes config then count * 8 else 0)
    \<and> w_stats s' = w_stats s
    else stoppable env config)"
proof -
  let ?n = "unat count"
  let ?I = "\<lambda>k s'. (\<forall>x. keeps env x \<longrightarrow> w_mem s' x = fill p f k (w_mem s) x)
    \<and> w_pressure s' = w_pressure s XOR pressure_xor config f k
    \<and> w_progress s' = w_progress s + (if has_progress_bytes config then of_nat k * 8 else 0)
    \<and> w_report s' = w_report s \<and> w_stats s' = w_stats s"
  let ?Q = "\<lambda>s'. w_report s' = w_report s \<and> stoppable env config"
  have alp: "aligned8 p" using al aligned8_add [of base start] by (simp add: p_def mult.commute)
  have count: "?n + 131072 \<le> 2 ^ 64" using small by simp
  have "\<exists>b s'. chunk_loop (nxmt_runner_stop_requested env config) count (write_body env p start phase config) 0 s
      = Some (b, s') \<and> (if b then ?I ?n s' else ?Q s')"
  proof (rule chunk_loop_rule [OF count, where I = ?I])
    fix k s0 stop s1
    assume I: "?I k s0" and k: "k < ?n" and poll: "nxmt_runner_stop_requested env config s0 = (stop, s1)"
    let ?c = "chunk_len ?n k"
    note e = write_body_effect [OF small k alp, where phase = phase and config = config and env = env and s = s1, folded f_def]
    have "fill (widx p k) (\<lambda>i. f (k + i)) ?c (w_mem s1) x = fill p f (k + ?c) (w_mem s) x" if "keeps env x" for x
      unfolding fill_with_add using I that keeps_poll [OF that poll] by (intro fill_pointwise) simp
    moreover have "stop \<Longrightarrow> stoppable env config" using poll poll_stoppable by (cases stop) auto
    ultimately show "if stop then ?Q s1 else ?I (k + ?c) (write_body env p start phase config (of_nat k) (of_nat ?c) s1)"
      using I unfolding e by (simp add: stop_requested_fields [OF poll] pressure_xor_add progress_split
          xor.assoc f_def del: of_nat_add)
  qed (simp_all add: pressure_xor_def)
  then obtain b s' where run: "chunk_loop (nxmt_runner_stop_requested env config) count
      (write_body env p start phase config) 0 s = Some (b, s')" and post: "if b then ?I ?n s' else ?Q s'"
    by blast
  show ?thesis
  proof (cases b)
    case False
    with run post show ?thesis by (auto simp: nxmt_write_phase_def p_def)
  next
    case True
    with run post have loop: "chunk_loop (nxmt_runner_stop_requested env config) count
      (write_body env p start phase config) 0 s = Some (True, s')" and I: "?I ?n s'" by simp_all
    have load: "load64 (w_mem s') (widx p k) = f k" if k: "k < ?n" for k
    proof -
      have "load64 (w_mem s') (widx p k) = load64 (fill p f ?n (w_mem s)) (widx p k)"
        using I by (intro load_slice_cong [OF kept k]) simp
      with k small alp show ?thesis by (simp add: wm.load_fill)
    qed
    let ?s = "if inject_mismatch config \<and> count > 0
      then s'\<lparr>w_mem := store64 (w_mem s') p (load64 (w_mem s') p XOR 0x100)\<rparr> else s'"
    have "nxmt_write_phase env base start count phase config s = Some (True, ?s)"
      using loop by (simp add: nxmt_write_phase_def Let_def p_def)
    moreover have "load64 (w_mem ?s) (widx p k) = written_word config phase start k" if k: "k < ?n" for k
    proof (cases "inject_mismatch config")
      case True
      have "0 < count" using k by (simp add: word_less_nat_alt)
      moreover have "widx p k \<noteq> p" if "k \<noteq> 0"
        using that k small widx_inj [of p k 0] by auto
      ultimately show ?thesis using True k load [of k] load [of 0] alp
        by (auto simp: written_word_def f_def wm.load_store_other)
    next
      case False
      with load [OF k] show ?thesis by (simp add: written_word_def f_def)
    qed
    moreover have "w_mem ?s x = w_mem s x" if kept: "keeps env x" and out: "\<not> in_slice p ?n x" for x
    proof (cases "count > 0")
      case True
      then have "\<not> x - p < 8" using out by (force simp: in_slice_def word_less_nat_alt)
      with I kept fill_frame [OF out] show ?thesis by (simp add: store64_frame)
    next
      case False
      with I kept fill_frame [OF out] show ?thesis by simp
    qed
    ultimately show ?thesis using I by (intro exI [of _ True] exI [of _ ?s]) auto
  qed
qed

section \<open>The verify half\<close>

lemma chunk_errors_add:
  "chunk_errors m p (j + n) start phase config
    = chunk_errors m p j start phase config
      @ chunk_errors m (widx p j) n (start + of_nat j) phase config"
proof -
  have "[j..<j + n] = map (\<lambda>k. j + k) [0..<n]" by (simp add: map_add_upt add.commute)
  then show ?thesis
    by (simp add: chunk_errors_word_error upt_add_eq_append [of 0 j n, simplified] filter_map comp_def
        word_error_shift add.assoc widx_add)
qed

lemma chunk_errors_cong:
  assumes "\<And>k. k < n \<Longrightarrow> load64 m (widx p k) = load64 m' (widx p k)"
  shows "chunk_errors m p n start phase config = chunk_errors m' p n start phase config"
proof -
  let ?e = "\<lambda>k. nxmt_expected_value (c_seed config) phase (c_pass config) ((start + of_nat k) * 8)"
  have "filter (\<lambda>k. load64 m (widx p k) \<noteq> ?e k) [0..<n] = filter (\<lambda>k. load64 m' (widx p k) \<noteq> ?e k) [0..<n]"
    using assms by (intro filter_cong) auto
  then show ?thesis using assms by (simp add: chunk_errors_word_error)
qed

lemma verify_phase_kept:
  fixes base start count :: u64
  defines "p \<equiv> base + start * 8"
  assumes kept: "kept env p (unat count)" and small: "unat start + unat count < 2 ^ 61"
  shows "\<exists>b s'. nxmt_verify_phase env base start count phase config s = Some (b, s')
    \<and> (if b then w_report s' = record_all (chunk_errors (w_mem s) p (unat count) start phase config) (w_report s)
    \<and> (\<forall>x. keeps env x \<longrightarrow> w_mem s' x = w_mem s x)
    \<and> w_pressure s' = w_pressure s XOR pressure_xor config (\<lambda>k. load64 (w_mem s) (widx p k)) (unat count)
    \<and> w_progress s' = w_progress s + (if has_progress_bytes config then count * 8 else 0)
    \<and> w_stats s' = w_stats s
    else stoppable env config \<and> (\<exists>k \<le> unat count.
      w_report s' = record_all (chunk_errors (w_mem s) p k start phase config) (w_report s)))"
proof -
  let ?n = "unat count" and ?v = "\<lambda>k. load64 (w_mem s) (widx p k)"
  let ?I = "\<lambda>k s'. w_report s' = record_all (chunk_errors (w_mem s) p k start phase config) (w_report s)
    \<and> (\<forall>x. keeps env x \<longrightarrow> w_mem s' x = w_mem s x) \<and> w_pressure s' = w_pressure s XOR pressure_xor config ?v k
    \<and> w_progress s' = w_progress s + (if has_progress_bytes config then of_nat k * 8 else 0)
    \<and> w_stats s' = w_stats s"
  let ?Q = "\<lambda>s'. stoppable env config \<and> (\<exists>k \<le> ?n.
      w_report s' = record_all (chunk_errors (w_mem s) p k start phase config) (w_report s))"
  have count: "?n + 131072 \<le> 2 ^ 64" using small by simp
  have "\<exists>b s'. chunk_loop (nxmt_runner_stop_requested env config) count (verify_body env p start phase config) 0 s
      = Some (b, s') \<and> (if b then ?I ?n s' else ?Q s')"
  proof (rule chunk_loop_rule [OF count, where I = ?I])
    fix k s0 stop s1
    assume I: "?I k s0" and k: "k < ?n" and poll: "nxmt_runner_stop_requested env config s0 = (stop, s1)"
    let ?c = "chunk_len ?n k"
    let ?s' = "verify_body env p start phase config (of_nat k) (of_nat ?c) s1"
    have s1: "w_mem s1 x = w_mem s x" if "keeps env x" for x
      using I that keeps_poll [OF that poll] by simp
    have load: "load64 (w_mem s1) (widx p (k + i)) = ?v (k + i)" if "i < ?c" for i
      using that s1 by (intro load_slice_cong [OF kept]) auto
    have "chunk_errors (w_mem s1) (widx p k) ?c (start + of_nat k) phase config
        = chunk_errors (w_mem s) (widx p k) ?c (start + of_nat k) phase config"
      using load by (intro chunk_errors_cong) (simp add: widx_add)
    then have "w_report ?s' = record_all (chunk_errors (w_mem s) p (k + ?c) start phase config) (w_report s)"
      using I by (simp add: verify_body_report [OF small k] chunk_errors_add stop_requested_fields [OF poll])
    moreover have "pressure_xor config (\<lambda>i. load64 (w_mem s1) (widx p (k + i))) ?c
        = pressure_xor config (\<lambda>i. ?v (k + i)) ?c"
      using load by (rule pressure_xor_cong)
    then have "w_pressure ?s' = w_pressure s XOR pressure_xor config ?v (k + ?c)"
      using I chunk_words_small(1) [OF small k]
      by (simp add: verify_body_def Let_def pressure_chunk_xor pressure_xor_add xor.assoc widx_add
          stop_requested_fields [OF poll] flip: widx_def)
    moreover have "w_progress ?s' = w_progress s + (if has_progress_bytes config then of_nat (k + ?c) * 8 else 0)"
      "w_stats ?s' = w_stats s"
      using I by (simp_all add: verify_body_def Let_def s1 stop_requested_fields [OF poll] progress_split del: of_nat_add)
    moreover have "\<forall>x. keeps env x \<longrightarrow> w_mem ?s' x = w_mem s x"
      using s1 by (simp add: verify_body_def Let_def)
    moreover have "stop \<Longrightarrow> ?Q s1"
      using I k poll poll_stoppable [of env config s0 s1] by (auto simp: stop_requested_fields [OF poll] intro!: exI [of _ k])
    ultimately show "if stop then ?Q s1 else ?I (k + ?c) ?s'" by simp
  qed (simp_all add: pressure_xor_def chunk_errors_def)
  moreover have whole: "of_nat ?n = count" by simp
  ultimately show ?thesis unfolding nxmt_verify_phase_def Let_def p_def [symmetric] whole by blast
qed

section \<open>The pass\<close>

lemma written_word_ok: "written_word config phase start k
    = nxmt_expected_value (c_seed config) phase (c_pass config) ((start + of_nat k) * 8)
    \<longleftrightarrow> \<not> (inject_mismatch config \<and> k = 0)"
proof -
  have "(x XOR 0x100 = x) = False" for x :: u64
  proof -
    have "x XOR 0x100 = x \<longleftrightarrow> (x XOR 0x100) XOR x = 0" by simp
    also have "\<dots> \<longleftrightarrow> False" by (simp add: xor.assoc xor.commute [of 256])
    finally show ?thesis .
  qed
  then show ?thesis by (simp add: written_word_def expected_word_def)
qed

definition injected_error :: "NxmtRunConfig \<Rightarrow> NxmtPhase \<Rightarrow> u64 \<Rightarrow> NxmtError" where
  "injected_error config phase start = word_error config phase start 0 (written_word config phase start 0)"

lemma chunk_errors_written:
  assumes "\<And>k. k < n \<Longrightarrow> load64 m (widx p k) = written_word config phase start k"
  shows "chunk_errors m p n start phase config
    = (if inject_mismatch config \<and> n > 0 then [injected_error config phase start] else [])"
proof -
  let ?bad = "\<lambda>k. load64 m (widx p k)
      \<noteq> nxmt_expected_value (c_seed config) phase (c_pass config) ((start + of_nat k) * 8)"
  have bad: "?bad k \<longleftrightarrow> inject_mismatch config \<and> k = 0" if "k < n" for k
    by (simp only: assms [OF that] written_word_ok not_not)
  have "filter ?bad [0..<n] = filter (\<lambda>k. inject_mismatch config \<and> k = 0) [0..<n]"
    by (rule filter_cong) (auto simp only: bad set_upt atLeastLessThan_iff)
  also have "\<dots> = (if inject_mismatch config \<and> n > 0 then [0] else [])"
    by (cases n) (auto simp: upt_rec [of 0] filter_empty_conv)
  finally have "filter ?bad [0..<n] = (if inject_mismatch config \<and> n > 0 then [0] else [])" .
  moreover have "load64 m p = written_word config phase start 0" if "n > 0" using assms [OF that] by simp
  ultimately show ?thesis by (simp add: chunk_errors_word_error injected_error_def)
qed

definition injected :: "NxmtArena \<Rightarrow> NxmtRunConfig \<Rightarrow> nat \<Rightarrow> NxmtError list" where
  "injected arena config i =
     (if inject_mismatch config \<and> slice_count arena config > 0
      then map (\<lambda>j. injected_error config (nth_phase config j) (slice_start arena config)) [0..<i] else [])"

text \<open>The state after \<open>i\<close> phases, and after a stop.\<close>

abbreviation kept_slice :: "Env \<Rightarrow> NxmtArena \<Rightarrow> NxmtRunConfig \<Rightarrow> bool" where
  "kept_slice env arena config \<equiv>
     kept env (a_base arena + slice_start arena config * 8) (unat (slice_count arena config))"

abbreviation quiet_slice :: "Env \<Rightarrow> NxmtArena \<Rightarrow> NxmtRunConfig \<Rightarrow> bool" where
  "quiet_slice env arena config \<equiv>
     quiet env config (a_base arena + slice_start arena config * 8) (unat (slice_count arena config))"

definition quiet_inv :: "Env \<Rightarrow> NxmtArena \<Rightarrow> NxmtRunConfig \<Rightarrow> RunState \<Rightarrow> nat \<Rightarrow> RunState \<Rightarrow> bool" where
  "quiet_inv env arena config s0 i s \<longleftrightarrow>
     w_report s = record_all (injected arena config i) (w_report s0)
     \<and> bytes_written (w_stats s) = bytes_written (w_stats s0) + of_nat i * (slice_count arena config * 8)
     \<and> bytes_verified (w_stats s) = bytes_verified (w_stats s0) + of_nat i * (slice_count arena config * 8)
     \<and> current_phase (w_stats s)
         = (if i = 0 then current_phase (w_stats s0) else nth_phase config (i - 1))
     \<and> w_progress s = w_progress s0
         + (if has_progress_bytes config then of_nat (2 * i) * (slice_count arena config * 8) else 0)
     \<and> (\<not> inject_mismatch config \<longrightarrow> w_pressure s = w_pressure s0)
     \<and> (\<forall>x. keeps env x \<longrightarrow> \<not> in_slice (a_base arena + slice_start arena config * 8) (unat (slice_count arena config)) x
           \<longrightarrow> w_mem s x = w_mem s0 x)"

definition quiet_stop :: "Env \<Rightarrow> NxmtArena \<Rightarrow> NxmtRunConfig \<Rightarrow> RunState \<Rightarrow> RunState \<Rightarrow> bool" where
  "quiet_stop env arena config s0 s \<longleftrightarrow>
     stoppable env config \<and> (\<not> inject_mismatch config \<longrightarrow> w_report s = w_report s0)"

lemma run_phase_kept:
  assumes ok: "kept_slice env arena config" "unat (a_words arena) < 2 ^ 61" and valid: "valid_args arena config"
    and inv: "quiet_inv env arena config s0 i s"
  shows "\<exists>b s'. run_phase env (a_base arena) (slice_start arena config) (slice_count arena config)
      (nth_phase config i) config s = Some (b, s')
    \<and> (if b then quiet_inv env arena config s0 (Suc i) s' else quiet_stop env arena config s0 s')"
proof -
  let ?start = "slice_start arena config" and ?count = "slice_count arena config"
    and ?phase = "nth_phase config i"
  let ?p = "a_base arena + ?start * 8" and ?n = "unat ?count"
  have small: "unat ?start + ?n < 2 ^ 61" using slice_le_words [OF valid] ok(2) by simp
  obtain stop s1 where poll: "nxmt_runner_stop_requested env config s = (stop, s1)" by fastforce
  note s1 = stop_requested_fields [OF poll]
  let ?s1 = "s1\<lparr>w_stats := (w_stats s1)\<lparr>current_phase := ?phase\<rparr>\<rparr>"
  have al: "aligned8 (a_base arena)" using valid by (simp add: valid_args_def)
  have clean: "w_report s = w_report s0" if "\<not> inject_mismatch config"
    using inv that by (simp add: quiet_inv_def injected_def)
  show ?thesis
  proof (cases stop)
    case True
    moreover from this poll have "stoppable env config" using poll_stoppable by simp
    ultimately show ?thesis using clean
      by (intro exI [of _ False] exI [of _ s1]) (simp add: run_phase_def poll quiet_stop_def s1)
  next
    case go: False
    from write_phase_kept [OF ok(1) small al, of ?phase config ?s1] obtain b s2 where
      wr: "nxmt_write_phase env (a_base arena) ?start ?count ?phase config ?s1 = Some (b, s2)"
      and rep: "w_report s2 = w_report s"
      and post: "if b then (\<forall>k < ?n. load64 (w_mem s2) (widx ?p k) = written_word config ?phase ?start k)
          \<and> (\<forall>x. keeps env x \<longrightarrow> \<not> in_slice ?p ?n x \<longrightarrow> w_mem s2 x = w_mem s1 x)
          \<and> w_pressure s2 = w_pressure s1 XOR pressure_xor config
              (expected_word (c_seed config) ?phase (c_pass config) ?start) ?n
          \<and> w_progress s2 = w_progress s1 + (if has_progress_bytes config then ?count * 8 else 0)
          \<and> w_stats s2 = (w_stats s1)\<lparr>current_phase := ?phase\<rparr>
        else stoppable env config"
      by (auto simp: s1(3))
    show ?thesis
    proof (cases b)
      case False
      with wr post rep clean go show ?thesis
        by (intro exI [of _ False] exI [of _ s2]) (simp add: run_phase_def poll Let_def quiet_stop_def)
    next
      case True
      with post have words: "\<And>k. k < ?n \<Longrightarrow> load64 (w_mem s2) (widx ?p k) = written_word config ?phase ?start k"
        and frame: "\<And>x. keeps env x \<Longrightarrow> \<not> in_slice ?p ?n x \<Longrightarrow> w_mem s2 x = w_mem s x"
        and s2: "w_pressure s2 = w_pressure s XOR pressure_xor config
            (expected_word (c_seed config) ?phase (c_pass config) ?start) ?n"
          "w_progress s2 = w_progress s + (if has_progress_bytes config then ?count * 8 else 0)"
          "w_stats s2 = (w_stats s)\<lparr>current_phase := ?phase\<rparr>"
        using keeps_poll [OF _ poll] by (auto simp: s1 simp del: s1(2))
      let ?s2 = "s2\<lparr>w_stats := (w_stats s2)\<lparr>bytes_written := bytes_written (w_stats s2) + ?count * 8\<rparr>\<rparr>"
      have "unat ?count > 0 \<longleftrightarrow> ?count > 0" by (simp add: word_less_nat_alt)
      then have errs: "chunk_errors (w_mem s2) ?p ?n ?start ?phase config
          = (if inject_mismatch config \<and> ?count > 0 then [injected_error config ?phase ?start] else [])"
        using chunk_errors_written [OF words] by simp
      have no_errs: "chunk_errors (w_mem s2) ?p k ?start ?phase config = []" if "k \<le> ?n" "\<not> inject_mismatch config" for k
        using chunk_errors_written [of k "w_mem s2" ?p config ?phase ?start] words that by simp
      have sel: "w_mem ?s2 = w_mem s2" "w_report ?s2 = w_report s2" "w_pressure ?s2 = w_pressure s2"
        "w_progress ?s2 = w_progress s2" by simp_all
      from verify_phase_kept [OF ok(1) small, of ?phase config ?s2, unfolded sel] obtain b' s3 where
        verify: "nxmt_verify_phase env (a_base arena) ?start ?count ?phase config ?s2 = Some (b', s3)"
        and post': "if b' then w_report s3 = record_all (chunk_errors (w_mem s2) ?p ?n ?start ?phase config) (w_report s2)
            \<and> (\<forall>x. keeps env x \<longrightarrow> w_mem s3 x = w_mem s2 x)
            \<and> w_pressure s3 = w_pressure s2 XOR pressure_xor config (\<lambda>k. load64 (w_mem s2) (widx ?p k)) ?n
            \<and> w_progress s3 = w_progress s2 + (if has_progress_bytes config then ?count * 8 else 0)
            \<and> w_stats s3 = w_stats ?s2
          else stoppable env config \<and> (\<exists>k \<le> ?n.
            w_report s3 = record_all (chunk_errors (w_mem s2) ?p k ?start ?phase config) (w_report s2))"
        by blast
      show ?thesis
      proof (cases b')
        case False
        with post' no_errs clean rep have "quiet_stop env arena config s0 s3" by (auto simp: quiet_stop_def)
        with False verify wr True go show ?thesis
          by (intro exI [of _ False] exI [of _ s3]) (simp add: run_phase_def poll Let_def)
      next
        case ok': True
        with post' have s3: "w_report s3 = record_all (chunk_errors (w_mem s2) ?p ?n ?start ?phase config) (w_report s2)"
          "\<And>x. keeps env x \<Longrightarrow> w_mem s3 x = w_mem s2 x"
          "w_pressure s3 = w_pressure s2 XOR pressure_xor config (\<lambda>k. load64 (w_mem s2) (widx ?p k)) ?n"
          "w_progress s3 = w_progress s2 + (if has_progress_bytes config then ?count * 8 else 0)"
          "w_stats s3 = w_stats ?s2" by simp_all
        let ?s' = "s3\<lparr>w_stats := (w_stats s3)\<lparr>bytes_verified := bytes_verified (w_stats s3) + ?count * 8\<rparr>\<rparr>"
        have "run_phase env (a_base arena) ?start ?count ?phase config s = Some (True, ?s')"
          using go wr verify True ok' by (simp add: run_phase_def poll Let_def)
        moreover have "w_pressure s3 = w_pressure s" if "\<not> inject_mismatch config"
        proof -
          have "pressure_xor config (\<lambda>k. load64 (w_mem s2) (widx ?p k)) ?n
              = pressure_xor config (expected_word (c_seed config) ?phase (c_pass config) ?start) ?n"
            using that words by (intro pressure_xor_cong) (simp add: written_word_def)
          then show ?thesis by (simp add: s3 s2 xor.assoc)
        qed
        moreover have "w_report s3 = record_all (injected arena config (Suc i)) (w_report s0)"
          using inv unfolding s3 errs rep by (simp add: quiet_inv_def injected_def)
        ultimately show ?thesis
          using inv frame unfolding quiet_inv_def
          by (intro exI [of _ True] exI [of _ ?s']) (auto simp: s3 s2 algebra_simps)
      qed
    qed
  qed
qed

interpretation healthy: pass_contract
  "\<lambda>env arena config. kept_slice env arena config \<and> unat (a_words arena) < 2 ^ 61"
  "quiet_inv"
  "quiet_stop"
proof
  fix env arena config s
  show "quiet_inv env arena config (start_state config s) 0 (start_state config s)"
    by (simp add: quiet_inv_def injected_def)
qed (use run_phase_kept in blast)

text \<open>
  Memory that keeps the slice never gives an error, also when the pass is stopped midway.
\<close>

lemma kept_pass:
  assumes "kept_slice env arena config" "unat (a_words arena) < 2 ^ 61" and "valid_args arena config"
    and inject: "\<not> inject_mismatch config"
  shows "\<exists>st s'. nxmt_runner_run_pass env (Some arena) (Some config) True True s = Some (st, s')
    \<and> w_report s' = w_report s
    \<and> (st = NXMT_STATUS_PASS \<and> bytes_verified (w_stats s') = of_nat (phases_of config) * (slice_count arena config * 8)
       \<or> st = NXMT_STATUS_ABORTED \<and> stoppable env config)"
  using healthy.pass_returns [OF conjI [OF assms(1,2)] assms(3), of s] inject
  by (auto simp: quiet_inv_def quiet_stop_def injected_def start_state_def set_checksum_def
      nxmt_runner_abort_status_def)

section \<open>The pressure function\<close>

lemma pressure_step_inj:
  fixes v w :: u64
  defines "f \<equiv> \<lambda>v :: u64. let v = v XOR push_bit 13 v; v = v XOR drop_bit 7 v in v XOR push_bit 17 v"
  assumes "f v = f w"
  shows "v = w"
proof -
  let ?a = "\<lambda>v :: u64. v XOR push_bit 13 v" and ?b = "\<lambda>v :: u64. v XOR drop_bit 7 v"
  have "?b (?a v) XOR push_bit 17 (?b (?a v)) = ?b (?a w) XOR push_bit 17 (?b (?a w))"
    using assms by (simp add: Let_def)
  then have "?b (?a v) = ?b (?a w)" by (rule xor_push_bit_inj) simp
  then have "?a v = ?a w" by (rule xor_drop_bit_inj) simp
  then show ?thesis by (rule xor_push_bit_inj) simp
qed

lemma fold_inj:
  "(\<And>k. inj (f k)) \<Longrightarrow> inj (fold f ks)"
  by (induction ks) (auto intro: inj_compose simp del: comp_apply)

text \<open>
  The value a word contributes to the pressure state determines the word: a
  read-back that differs in any bit from what was written changes the extreme mode's
  checksum when it is the only one.
\<close>

theorem pressure_injective:
  "nxmt_extreme_cpu_pressure state v = nxmt_extreme_cpu_pressure state w \<longleftrightarrow> v = w"
proof
  assume eq: "nxmt_extreme_cpu_pressure state v = nxmt_extreme_cpu_pressure state w"
  let ?s = "\<lambda>v :: u64. let v = v XOR push_bit 13 v; v = v XOR drop_bit 7 v in v XOR push_bit 17 v"
  let ?f = "\<lambda>i v. ?s (nxmt_mix64 (v + of_nat i))"
  have val: "nxmt_extreme_cpu_pressure 0 v = fold ?f [0..<64] v" for v
    unfolding nxmt_extreme_cpu_pressure_def Let_def
    by (subst for_by_one) (simp_all add: Let_def del: upt_rec_numeral)
  have "inj (?f i)" for i
    by (rule injI, drule pressure_step_inj) (simp add: nxmt_mix64_eq_iff)
  then have "inj (fold ?f [0..<64])" by (rule fold_inj)
  moreover have "fold ?f [0..<64] v = fold ?f [0..<64] w"
    using eq unfolding extreme_pressure_xor [of state] pressure_of_def val
    by (simp only: xor.commute [of state] xor_right_cancel)
  ultimately show "v = w" by (rule injD)
qed simp

end
