(* ===== verification/Pass_Detect.thy ===== *)
theory Pass_Detect
  imports Pass_Healthy
begin

text \<open>
  What a pass finds when the memory is defective and nobody stops it.  The locale
  \<open>fault_model\<close> turns what one verify half must see into a result about the whole pass; it
  is interpreted for words that can never hold the expected value (of which a stuck bit is
  the typical case) and for two addresses that select the same cell.
\<close>

unbundle bit_operations_syntax

section \<open>What a verify half sees\<close>

text \<open>
  \<open>K\<close> is kept by the environment, and \<open>J\<close> holds of the memory whenever the environment has
  just acted, which it does before every chunk is read.
\<close>

lemma verify_phase_observes:
  fixes base start count :: u64
  assumes small: "unat start + unat count < 2 ^ 61" and nostop: "\<not> stoppable env config"
    and K: "K (w_mem s)" "\<And>t m. K m \<Longrightarrow> K (env_drift env t m)" "\<And>t m. K m \<Longrightarrow> J (env_drift env t m)"
  defines "p \<equiv> base + start * 8"
  shows "\<exists>s' es. nxmt_verify_phase env base start count phase config s = Some (True, s')
    \<and> w_report s' = record_all es (w_report s) \<and> length es \<le> unat count
    \<and> (\<forall>k < unat count. \<exists>m. J m
        \<and> (load64 m (widx p k) \<noteq> expected_word (c_seed config) phase (c_pass config) start k
           \<longrightarrow> word_error config phase start k (load64 m (widx p k)) \<in> set es))"
proof -
  let ?n = "unat count"
  let ?sees = "\<lambda>es k. \<exists>m. J m
        \<and> (load64 m (widx p k) \<noteq> expected_word (c_seed config) phase (c_pass config) start k
           \<longrightarrow> word_error config phase start k (load64 m (widx p k)) \<in> set es)"
  let ?I = "\<lambda>k s'. K (w_mem s') \<and> (\<exists>es. w_report s' = record_all es (w_report s) \<and> length es \<le> k
      \<and> (\<forall>i<k. ?sees es i))"
  let ?body = "verify_body env p start phase config"
  have count: "?n + 131072 \<le> 2 ^ 64" using small by simp
  have "\<exists>b s'. chunk_loop (nxmt_runner_stop_requested env config) count ?body 0 s = Some (b, s')
      \<and> (if b then ?I ?n s' else False)"
  proof (rule chunk_loop_rule [OF count, where I = ?I])
    fix k s0 stop s1
    assume I: "?I k s0" and k: "k < ?n" and poll: "nxmt_runner_stop_requested env config s0 = (stop, s1)"
    let ?c = "chunk_len ?n k" and ?m = "w_mem s1"
    have "\<not> stop" using nostop poll by (cases stop) (auto dest: poll_stoppable)
    from I obtain es where Km: "K (w_mem s0)" and es: "w_report s0 = record_all es (w_report s)"
      "length es \<le> k" "\<And>i. i < k \<Longrightarrow> ?sees es i" by blast
    let ?new = "chunk_errors ?m (widx p k) ?c (start + of_nat k) phase config"
    let ?s' = "?body (of_nat k) (of_nat ?c) s1"
    have m: "K ?m" "J ?m" using Km K by (simp_all add: stop_requested_fields [OF poll])
    have "w_mem ?s' = ?m" by (simp add: verify_body_def Let_def)
    moreover have "w_report ?s' = record_all (es @ ?new) (w_report s)"
      using es(1) by (simp add: verify_body_report [OF small k] stop_requested_fields [OF poll])
    moreover have "length (es @ ?new) \<le> k + ?c"
      using es(2) chunk_errors_length [of _ _ ?c] by (simp add: add_mono)
    moreover have "?sees (es @ ?new) i" if i: "i < k + ?c" for i
    proof (cases "i < k")
      case True
      from es(3) [OF this] show ?thesis by fastforce
    next
      case False
      then obtain j where j: "i = k + j" "j < ?c" using i by (metis add_less_cancel_left le_iff_add not_less)
      have "word_error config phase start i (load64 ?m (widx p i)) \<in> set ?new"
        if "load64 ?m (widx p i) \<noteq> expected_word (c_seed config) phase (c_pass config) start i"
        using that j unfolding chunk_errors_word_error expected_word_def
        by (auto simp: word_error_shift widx_add add.assoc image_iff simp del: word_plus_and_or
            intro!: bexI [of _ j])
      with m show ?thesis by (intro exI [of _ ?m]) auto
    qed
    ultimately show "if stop then False else ?I (k + ?c) ?s'"
      using \<open>\<not> stop\<close> m(1) by (intro if_not_P [THEN iffD2]) (auto intro!: exI [of _ "es @ ?new"])
  qed (use K in \<open>auto intro!: exI [of _ "[]"]\<close>)
  then obtain b s' where loop: "chunk_loop (nxmt_runner_stop_requested env config) count ?body 0 s = Some (b, s')"
    and post: "if b then ?I ?n s' else False" by blast
  from post have b: b and I: "?I ?n s'" by (cases b; simp)+
  from I obtain es where "w_report s' = record_all es (w_report s)" "length es \<le> ?n" "\<forall>i<?n. ?sees es i"
    by blast
  with loop b show ?thesis
    unfolding nxmt_verify_phase_def Let_def p_def by (intro exI [of _ s'] exI [of _ es]) simp
qed

section \<open>Fault models\<close>

locale fault_model =
  fixes faulty :: "Env \<Rightarrow> NxmtArena \<Rightarrow> NxmtRunConfig \<Rightarrow> bool"
    and seen :: "Env \<Rightarrow> NxmtArena \<Rightarrow> NxmtRunConfig \<Rightarrow> NxmtPhase \<Rightarrow> NxmtError list \<Rightarrow> bool"
  assumes seen_mono: "seen env arena config phase es \<Longrightarrow> set es \<subseteq> set es' \<Longrightarrow> seen env arena config phase es'"
    and verify_sees: "faulty env arena config \<Longrightarrow> valid_args arena config \<Longrightarrow> unat (a_words arena) < 2 ^ 61
      \<Longrightarrow> \<not> stoppable env config \<Longrightarrow>
      \<exists>s' es. nxmt_verify_phase env (a_base arena) (slice_start arena config) (slice_count arena config)
          phase config s = Some (True, s')
        \<and> w_report s' = record_all es (w_report s) \<and> length es \<le> unat (slice_count arena config)
        \<and> seen env arena config phase es"
begin

definition seen_upto :: "Env \<Rightarrow> NxmtArena \<Rightarrow> NxmtRunConfig \<Rightarrow> RunState \<Rightarrow> nat \<Rightarrow> RunState \<Rightarrow> bool" where
  "seen_upto env arena config s0 i s \<longleftrightarrow>
     (\<exists>es. w_report s = record_all es (w_report s0) \<and> length es \<le> i * unat (slice_count arena config)
        \<and> (\<forall>j<i. seen env arena config (nth_phase config j) es))"

lemma run_phase_sees:
  assumes faulty: "faulty env arena config" and words: "unat (a_words arena) < 2 ^ 61"
    and nostop: "\<not> stoppable env config" and valid: "valid_args arena config"
    and inv: "seen_upto env arena config s0 i s"
  shows "\<exists>s'. run_phase env (a_base arena) (slice_start arena config) (slice_count arena config)
      (nth_phase config i) config s = Some (True, s') \<and> seen_upto env arena config s0 (Suc i) s'"
proof -
  let ?start = "slice_start arena config" and ?count = "slice_count arena config"
    and ?phase = "nth_phase config i"
  have count: "unat ?count + 131072 \<le> 2 ^ 64" using slice_le_words [OF valid] words by simp
  obtain stop s1 where poll: "nxmt_runner_stop_requested env config s = (stop, s1)" by fastforce
  then have stop: "\<not> stop" using nostop by (cases stop) (auto dest: poll_stoppable)
  let ?s1 = "s1\<lparr>w_stats := (w_stats s1)\<lparr>current_phase := ?phase\<rparr>\<rparr>"
  from write_phase_keeps_report [OF count, of env "a_base arena" ?start ?phase config ?s1] nostop
  obtain s2 where wr: "nxmt_write_phase env (a_base arena) ?start ?count ?phase config ?s1 = Some (True, s2)"
    and r2: "w_report s2 = w_report s" by (auto simp: stop_requested_fields [OF poll])
  let ?s2 = "s2\<lparr>w_stats := (w_stats s2)\<lparr>bytes_written := bytes_written (w_stats s2) + ?count * 8\<rparr>\<rparr>"
  from verify_sees [OF faulty valid words nostop, of ?phase ?s2] r2 obtain s3 es' where
    verify: "nxmt_verify_phase env (a_base arena) ?start ?count ?phase config ?s2 = Some (True, s3)"
    and r3: "w_report s3 = record_all es' (w_report s)" "length es' \<le> unat ?count"
      "seen env arena config ?phase es'" by auto
  from inv obtain es where "w_report s = record_all es (w_report s0)" "length es \<le> i * unat ?count"
    "\<And>j. j < i \<Longrightarrow> seen env arena config (nth_phase config j) es" by (auto simp: seen_upto_def)
  moreover from this r3(3) have "seen env arena config (nth_phase config j) (es @ es')" if "j < Suc i" for j
    using that seen_mono [of env arena config _ es "es @ es'"] seen_mono [of env arena config _ es' "es @ es'"]
    by (auto simp: less_Suc_eq)
  ultimately have "seen_upto env arena config s0 (Suc i) s'" if "w_report s' = w_report s3" for s'
    unfolding seen_upto_def using that r3 by (intro exI [of _ "es @ es'"]) auto
  then show ?thesis using stop by (simp add: run_phase_def poll Let_def wr verify)
qed

end

sublocale fault_model \<subseteq> pass_contract
  "\<lambda>env arena config. faulty env arena config \<and> unat (a_words arena) < 2 ^ 61 \<and> \<not> stoppable env config"
  seen_upto "\<lambda>env arena config s0 s. False"
proof
  fix env arena config s
  show "seen_upto env arena config (start_state config s) 0 (start_state config s)"
    by (auto simp: seen_upto_def)
qed (use run_phase_sees in fastforce)

lemma error_list_small:
  assumes "valid_args arena config" and "unat (a_words arena) < 2 ^ 61"
    and "length es \<le> phases_of config * unat (slice_count arena config)"
  shows "length es < 2 ^ 64"
proof -
  have "phases_of config \<le> 8"
    by (simp add: nxmt_phase_count_for_mode_def quick_phases_def memory_load_phases_def)
  then have "phases_of config * unat (slice_count arena config) \<le> 8 * unat (slice_count arena config)"
    by (rule mult_le_mono1)
  with assms(3) have "length es \<le> 8 * unat (slice_count arena config)" by (rule order_trans)
  then show ?thesis using slice_le_words [OF assms(1)] assms(2) by simp
qed

lemma error_count_changes:
  assumes "length es < 2 ^ 64"
  shows "error_count (record_all es r) \<noteq> error_count r \<longleftrightarrow> es \<noteq> []"
proof -
  have "(of_nat (length es) :: u64) = 0 \<longleftrightarrow> es = []"
    using assms by (auto simp: word_eq_iff_unat unat_of_nat64 simp del: of_nat_eq_0_iff)
  then show ?thesis by (simp add: error_count_record_all)
qed

lemma run_pass_verdict:
  assumes words: "unat (a_words arena) < 2 ^ 61"
  shows "\<exists>st s' es. nxmt_runner_run_pass env (Some arena) (Some config) True True s = Some (st, s')
    \<and> w_report s' = record_all es (w_report s) \<and> length es < 2 ^ 64
    \<and> (\<forall>e \<in> set es. genuine_in_pass arena config e)
    \<and> (if valid_args arena config
       then (st = NXMT_STATUS_FAIL \<longleftrightarrow> es \<noteq> []) \<and> st \<noteq> NXMT_STATUS_UNSUPPORTED
         \<and> (st = NXMT_STATUS_ABORTED \<longrightarrow> stoppable env config)
       else st = NXMT_STATUS_UNSUPPORTED \<and> es = [])"
proof (cases "valid_args arena config")
  case False
  then have "\<exists>s'. nxmt_runner_run_pass env (Some arena) (Some config) True True s
      = Some (NXMT_STATUS_UNSUPPORTED, s') \<and> w_report s' = w_report s"
    by (rule run_pass_invalid)
  with False show ?thesis by (auto intro!: exI [of _ "[]"])
next
  case True
  from sound.pass_returns [OF words True, where s = s and env = env] obtain st s' where
    run: "nxmt_runner_run_pass env (Some arena) (Some config) True True s = Some (st, set_checksum s')"
    and post: "recorded arena config (start_state config s) (phases_of config) s'
        \<and> (stoppable env config \<and> st = nxmt_runner_abort_status (w_report s') (error_count (w_report s))
          \<or> st = (if error_count (w_report s') \<noteq> error_count (w_report s)
                 then NXMT_STATUS_FAIL else NXMT_STATUS_PASS))"
    by blast
  then obtain es where es: "w_report s' = record_all es (w_report s)"
    "length es \<le> phases_of config * unat (slice_count arena config)"
    "\<forall>e \<in> set es. genuine_in_pass arena config e"
    by (auto simp: recorded_def start_state_def)
  note small = error_list_small [OF True words es(2)]
  have count: "error_count (w_report s') \<noteq> error_count (w_report s) \<longleftrightarrow> es \<noteq> []"
    unfolding es(1) by (rule error_count_changes [OF small])
  with run post es small True show ?thesis
    by (intro exI [of _ st] exI [of _ "set_checksum s'"] exI [of _ es])
      (auto simp: set_checksum_def nxmt_runner_abort_status_def split: if_splits)
qed

context fault_model begin

lemma pass_detects:
  assumes "faulty env arena config" and "unat (a_words arena) < 2 ^ 61" and "\<not> stoppable env config"
    and valid: "valid_args arena config"
  shows "\<exists>st s' es. nxmt_runner_run_pass env (Some arena) (Some config) True True s = Some (st, s')
    \<and> w_report s' = record_all es (w_report s)
    \<and> (\<forall>i < phases_of config. seen env arena config (nth_phase config i) es)
    \<and> st = (if es \<noteq> [] then NXMT_STATUS_FAIL else NXMT_STATUS_PASS)"
proof -
  from pass_returns [of env arena config s] assms obtain st s' where
    run: "nxmt_runner_run_pass env (Some arena) (Some config) True True s = Some (st, set_checksum s')"
    and inv: "seen_upto env arena config (start_state config s) (phases_of config) s'"
    and st: "st = (if error_count (w_report s') \<noteq> error_count (w_report s)
                 then NXMT_STATUS_FAIL else NXMT_STATUS_PASS)"
    by blast
  from inv obtain es where es: "w_report s' = record_all es (w_report s)"
    "length es \<le> phases_of config * unat (slice_count arena config)"
    "\<forall>i < phases_of config. seen env arena config (nth_phase config i) es"
    by (auto simp: seen_upto_def start_state_def)
  have "st = (if es \<noteq> [] then NXMT_STATUS_FAIL else NXMT_STATUS_PASS)"
    unfolding st es(1) error_count_changes [OF error_list_small [OF valid assms(2) es(2)]] ..
  then show ?thesis using run es by (auto simp: set_checksum_def)
qed

end

section \<open>Words that cannot hold the expected value\<close>

abbreviation word_addr :: "NxmtArena \<Rightarrow> NxmtRunConfig \<Rightarrow> nat \<Rightarrow> u64" where
  "word_addr arena config k \<equiv> widx (a_base arena + slice_start arena config * 8) k"

definition wrong_word :: "Env \<Rightarrow> NxmtArena \<Rightarrow> NxmtRunConfig \<Rightarrow> NxmtPhase \<Rightarrow> nat \<Rightarrow> bool" where
  "wrong_word env arena config phase k \<longleftrightarrow>
     (\<forall>t m. load64 (env_drift env t m) (word_addr arena config k)
        \<noteq> expected_word (c_seed config) phase (c_pass config) (slice_start arena config) k)"

text \<open>The error for word \<open>k\<close> is recorded, with a value the environment left there.\<close>

definition reports_word :: "Env \<Rightarrow> NxmtArena \<Rightarrow> NxmtRunConfig \<Rightarrow> NxmtPhase \<Rightarrow> NxmtError list \<Rightarrow> nat \<Rightarrow> bool" where
  "reports_word env arena config phase es k \<longleftrightarrow>
     (\<exists>t m. word_error config phase (slice_start arena config) k
        (load64 (env_drift env t m) (word_addr arena config k)) \<in> set es)"

interpretation defect: fault_model
  "\<lambda>env arena config. True"
  "\<lambda>env arena config phase es. \<forall>k < unat (slice_count arena config).
     wrong_word env arena config phase k \<longrightarrow> reports_word env arena config phase es k"
proof
  fix env arena config phase and es es' :: "NxmtError list"
  assume "\<forall>k < unat (slice_count arena config).
     wrong_word env arena config phase k \<longrightarrow> reports_word env arena config phase es k" "set es \<subseteq> set es'"
  then show "\<forall>k < unat (slice_count arena config).
     wrong_word env arena config phase k \<longrightarrow> reports_word env arena config phase es' k"
    unfolding reports_word_def by blast
next
  fix env arena config phase and s :: RunState
  assume valid: "valid_args arena config" and words: "unat (a_words arena) < 2 ^ 61"
    and nostop: "\<not> stoppable env config"
  let ?start = "slice_start arena config" and ?count = "slice_count arena config"
  have small: "unat ?start + unat ?count < 2 ^ 61" using slice_le_words [OF valid] words by simp
  from verify_phase_observes [OF small nostop, of "\<lambda>_. True" s "\<lambda>m. \<exists>t m'. m = env_drift env t m'"
      "a_base arena" phase]
  show "\<exists>s' es. nxmt_verify_phase env (a_base arena) ?start ?count phase config s = Some (True, s')
      \<and> w_report s' = record_all es (w_report s) \<and> length es \<le> unat ?count
      \<and> (\<forall>k < unat ?count. wrong_word env arena config phase k \<longrightarrow> reports_word env arena config phase es k)"
    unfolding wrong_word_def reports_word_def by blast
qed

text \<open>A bit of a word that always reads \<open>v\<close>.\<close>

definition stuck_bit :: "Env \<Rightarrow> u64 \<Rightarrow> nat \<Rightarrow> bool \<Rightarrow> bool" where
  "stuck_bit env a b v \<longleftrightarrow> (\<forall>t m. bit (load64 (env_drift env t m) a) b = v)"

lemma fixed_pattern_bits:
  assumes "b < 64"
  shows "bit (0xaaaaaaaaaaaaaaaa :: u64) b = odd b" and "bit (0x5555555555555555 :: u64) b = even b"
proof -
  have "list_all (\<lambda>b. bit (0xaaaaaaaaaaaaaaaa :: u64) b = odd b) [0..<64]" by code_simp
  then show "bit (0xaaaaaaaaaaaaaaaa :: u64) b = odd b" using assms by (simp add: list_all_iff)
  have "list_all (\<lambda>b. bit (0x5555555555555555 :: u64) b = even b) [0..<64]" by code_simp
  then show "bit (0x5555555555555555 :: u64) b = even b" using assms by (simp add: list_all_iff)
qed

lemma stuck_bit_wrong:
  assumes "stuck_bit env (word_addr arena config k) b v" and "b < 64"
  shows "wrong_word env arena config (if v = odd b then NXMT_PHASE_FIXED_5 else NXMT_PHASE_FIXED_A) k"
  unfolding wrong_word_def
proof (intro allI notI)
  fix t m
  let ?w = "load64 (env_drift env t m) (word_addr arena config k)"
  assume "?w = expected_word (c_seed config) (if v = odd b then NXMT_PHASE_FIXED_5 else NXMT_PHASE_FIXED_A)
      (c_pass config) (slice_start arena config) k"
  then have "bit ?w b \<noteq> v"
    using fixed_pattern_bits [OF assms(2)] by (cases "v = odd b") (simp_all add: expected_word_simps)
  with assms(1) show False unfolding stuck_bit_def by blast
qed

lemma fixed_phases_of_load:
  assumes "c_mode config \<noteq> NXMT_MODE_QUICK"
  shows "\<exists>i < phases_of config. nth_phase config i = (if w then NXMT_PHASE_FIXED_5 else NXMT_PHASE_FIXED_A)"
  using assms
  by (intro exI [of _ "if w then 1 else 0"])
    (simp add: nxmt_phase_count_for_mode_def nxmt_phase_for_mode_def memory_load_phases_def)

section \<open>Two addresses of one cell\<close>

text \<open>The defect of an address line: word \<open>a\<close> always reads what was last stored at word \<open>b\<close>.\<close>

definition aliased :: "Env \<Rightarrow> NxmtArena \<Rightarrow> NxmtRunConfig \<Rightarrow> bool" where
  "aliased env arena config \<longleftrightarrow>
     (\<exists>i < unat (slice_count arena config). \<exists>j < unat (slice_count arena config). i \<noteq> j
        \<and> (\<forall>t m. env_drift env t m
             = store64 m (word_addr arena config i) (load64 m (word_addr arena config j))))"

lemma expected_address_inj:
  assumes "i < 2 ^ 61" and "j < 2 ^ 61" and "i \<noteq> j"
  shows "expected_word seed NXMT_PHASE_ADDRESS pass start i \<noteq> expected_word seed NXMT_PHASE_ADDRESS pass start j"
proof
  assume "expected_word seed NXMT_PHASE_ADDRESS pass start i = expected_word seed NXMT_PHASE_ADDRESS pass start j"
  then have "(start * 8 + of_nat i * 8) XOR (seed XOR pass * 0x100000001b3)
      = (start * 8 + of_nat j * 8) XOR (seed XOR pass * 0x100000001b3)"
    by (simp only: expected_word_simps)
  then have "start * 8 + of_nat i * 8 = start * 8 + of_nat j * 8"
    by (simp only: xor_right_cancel)
  then have "widx (start * 8) i = widx (start * 8) j" by (simp add: widx_def mult.commute)
  with widx_inj assms show False by blast
qed

interpretation aliasing: fault_model aliased "\<lambda>env arena config phase es. phase = NXMT_PHASE_ADDRESS \<longrightarrow> es \<noteq> []"
proof
  fix env arena config phase and s :: RunState
  assume aliased: "aliased env arena config" and valid: "valid_args arena config"
    and words: "unat (a_words arena) < 2 ^ 61" and nostop: "\<not> stoppable env config"
  let ?start = "slice_start arena config" and ?count = "slice_count arena config"
  let ?E = "expected_word (c_seed config) phase (c_pass config) ?start"
  have small: "unat ?start + unat ?count < 2 ^ 61" using slice_le_words [OF valid] words by simp
  from aliased obtain i j where i: "i < unat ?count" and j: "j < unat ?count" and "i \<noteq> j"
    and drift: "\<And>t m. env_drift env t m
      = store64 m (word_addr arena config i) (load64 m (word_addr arena config j))"
    unfolding aliased_def by blast
  have b: "i < 2 ^ 61" "j < 2 ^ 61" using i j small by simp_all
  have al: "aligned8 (a_base arena + ?start * 8)"
    using valid aligned8_add [of "a_base arena" ?start] by (simp add: valid_args_def mult.commute)
  have ne: "word_addr arena config i \<noteq> word_addr arena config j" using widx_inj b \<open>i \<noteq> j\<close> by blast
  let ?x = "load64 (w_mem s) (word_addr arena config j)"
  let ?K = "\<lambda>m. load64 m (word_addr arena config j) = ?x"
  let ?J = "\<lambda>m. load64 m (word_addr arena config i) = ?x \<and> load64 m (word_addr arena config j) = ?x"
  from verify_phase_observes [OF small nostop, of ?K s ?J "a_base arena" phase] al ne
  obtain s' es where run: "nxmt_verify_phase env (a_base arena) ?start ?count phase config s = Some (True, s')"
    "w_report s' = record_all es (w_report s)" "length es \<le> unat ?count"
    and sees: "\<And>k. k < unat ?count \<Longrightarrow> \<exists>m. ?J m \<and> (load64 m (word_addr arena config k) \<noteq> ?E k
      \<longrightarrow> word_error config phase ?start k (load64 m (word_addr arena config k)) \<in> set es)"
    by (auto simp: drift wm.load_store_other)
  have "es \<noteq> []" if "phase = NXMT_PHASE_ADDRESS"
  proof
    assume "es = []"
    with sees [OF i] sees [OF j] have "?E i = ?x" "?E j = ?x" by auto
    with expected_address_inj [OF b \<open>i \<noteq> j\<close>] that show False by metis
  qed
  with run show "\<exists>s' es. nxmt_verify_phase env (a_base arena) ?start ?count phase config s = Some (True, s')
      \<and> w_report s' = record_all es (w_report s) \<and> length es \<le> unat ?count
      \<and> (phase = NXMT_PHASE_ADDRESS \<longrightarrow> es \<noteq> [])"
    by blast
qed auto

lemma address_phase_of: "\<exists>i < phases_of config. nth_phase config i = NXMT_PHASE_ADDRESS"
  by (intro exI [of _ "if c_mode config = NXMT_MODE_QUICK then 1 else 5"])
    (simp add: nxmt_phase_count_for_mode_def nxmt_phase_for_mode_def memory_load_phases_def quick_phases_def)

end
