(* ===== verification/Pass_Frame.thy ===== *)
theory Pass_Frame
  imports Pass_Detect
begin

text \<open>
  Two further contracts of the pass: when it stops (at the first poll that sees the flag,
  and a pass that was not stopped has polled before every chunk without seeing it), and
  what it writes (the bytes of its own slice only, also when it is stopped midway).
\<close>

unbundle bit_operations_syntax

section \<open>Stopping\<close>

definition sees_stop :: "Env \<Rightarrow> NxmtRunConfig \<Rightarrow> nat \<Rightarrow> bool" where
  "sees_stop env config t \<longleftrightarrow> has_stop_requested config \<and> env_stop env t"

text \<open>From poll \<open>t0\<close> to the current one no poll has seen the flag; or the last one did, the first to.\<close>

definition unseen :: "Env \<Rightarrow> NxmtRunConfig \<Rightarrow> nat \<Rightarrow> RunState \<Rightarrow> bool" where
  "unseen env config t0 s \<longleftrightarrow> t0 \<le> w_polls s \<and> (\<forall>t. t0 \<le> t \<and> t < w_polls s \<longrightarrow> \<not> sees_stop env config t)"

definition stopped :: "Env \<Rightarrow> NxmtRunConfig \<Rightarrow> nat \<Rightarrow> RunState \<Rightarrow> bool" where
  "stopped env config t0 s \<longleftrightarrow> (\<exists>t. t0 \<le> t \<and> w_polls s = Suc t \<and> sees_stop env config t
     \<and> (\<forall>u. t0 \<le> u \<and> u < t \<longrightarrow> \<not> sees_stop env config u))"

lemma poll_unseen:
  assumes "unseen env config t0 s" and "nxmt_runner_stop_requested env config s = (stop, s1)"
  shows "if stop then stopped env config t0 s1 else unseen env config t0 s1"
  using assms unfolding nxmt_runner_stop_requested_def
  by (auto simp: unseen_def stopped_def sees_stop_def less_Suc_eq)

lemma unseen_cong: "w_polls s' = w_polls s \<Longrightarrow> unseen env config t0 s' = unseen env config t0 s"
  by (simp add: unseen_def)

lemma stopped_cong: "w_polls s' = w_polls s \<Longrightarrow> stopped env config t0 s' = stopped env config t0 s"
  by (simp add: stopped_def)

section \<open>The frame\<close>

lemma in_slice_sub: "in_slice (widx p k) c x \<Longrightarrow> k + c \<le> n \<Longrightarrow> in_slice p n x"
  unfolding in_slice_def by (force simp: widx_add)

text \<open>Outside the slice, the bytes the environment keeps are those of the start.\<close>

definition tracked :: "Env \<Rightarrow> u64 \<Rightarrow> nat \<Rightarrow> RunState \<Rightarrow> RunState \<Rightarrow> bool" where
  "tracked env p n s0 s \<longleftrightarrow> (\<forall>x. keeps env x \<longrightarrow> \<not> in_slice p n x \<longrightarrow> w_mem s x = w_mem s0 x)"

lemma tracked_poll:
  "tracked env p n s0 s \<Longrightarrow> nxmt_runner_stop_requested env config s = (stop, s1) \<Longrightarrow> tracked env p n s0 s1"
  by (auto simp: tracked_def keeps_poll)

lemma tracked_cong: "w_mem s' = w_mem s \<Longrightarrow> tracked env p n s0 s' = tracked env p n s0 s"
  by (simp add: tracked_def)

lemma body_fields:
  "w_polls (write_body env p start phase config k c s) = w_polls s"
  "w_polls (verify_body env p start phase config k c s) = w_polls s"
  "w_mem (verify_body env p start phase config k c s) = w_mem s"
  by (simp_all add: write_body_def verify_body_def Let_def)

lemma write_phase_tracked:
  fixes base start count :: u64
  assumes small: "unat start + unat count < 2 ^ 61" and al: "aligned8 base"
    and pre: "unseen env config t0 s" "tracked env (base + start * 8) (unat count) s0 s"
  shows "\<exists>b s'. nxmt_write_phase env base start count phase config s = Some (b, s')
    \<and> (if b then unseen env config t0 s' else stopped env config t0 s')
    \<and> tracked env (base + start * 8) (unat count) s0 s'"
proof -
  let ?p = "base + start * 8" and ?n = "unat count"
  let ?body = "write_body env ?p start phase config"
  let ?I = "\<lambda>k s'. unseen env config t0 s' \<and> tracked env ?p ?n s0 s'"
  let ?Q = "\<lambda>s'. stopped env config t0 s' \<and> tracked env ?p ?n s0 s'"
  have alp: "aligned8 ?p" using al aligned8_add [of base start] by (simp add: mult.commute)
  have count: "?n + 131072 \<le> 2 ^ 64" using small by simp
  have "\<exists>b s'. chunk_loop (nxmt_runner_stop_requested env config) count ?body 0 s = Some (b, s')
      \<and> (if b then ?I ?n s' else ?Q s')"
  proof (rule chunk_loop_rule [OF count, where I = ?I])
    fix k s1 stop s2
    assume I: "?I k s1" and k: "k < ?n" and poll: "nxmt_runner_stop_requested env config s1 = (stop, s2)"
    let ?c = "chunk_len ?n k"
    let ?s' = "?body (of_nat k) (of_nat ?c) s2"
    have tr: "tracked env ?p ?n s0 s2" using I tracked_poll poll by blast
    note e = write_body_effect [OF small k alp, where phase = phase and config = config and env = env and s = s2]
    have "k + ?c \<le> ?n" using k by simp
    then have out: "\<not> in_slice (widx ?p k) ?c x" if "\<not> in_slice ?p ?n x" for x
      using that in_slice_sub by blast
    have "tracked env ?p ?n s0 ?s'"
      using tr unfolding tracked_def e by (auto simp: fill_frame [OF out])
    moreover have "unseen env config t0 ?s' = unseen env config t0 s2" by (rule unseen_cong) (simp add: body_fields)
    ultimately show "if stop then ?Q s2 else ?I (k + ?c) ?s'"
      using poll_unseen [OF conjunct1 [OF I] poll] tr by simp
  qed (use pre in simp_all)
  then obtain b s' where loop: "chunk_loop (nxmt_runner_stop_requested env config) count ?body 0 s = Some (b, s')"
    and post: "if b then ?I ?n s' else ?Q s'" by blast
  show ?thesis
  proof (cases b)
    case False
    with loop post show ?thesis by (auto simp: nxmt_write_phase_def)
  next
    case True
    let ?s = "if inject_mismatch config \<and> count > 0
      then s'\<lparr>w_mem := store64 (w_mem s') ?p (load64 (w_mem s') ?p XOR 0x100)\<rparr> else s'"
    have "\<not> x - ?p < 8" if "count > 0" "\<not> in_slice ?p ?n x" for x
      using that by (force simp: in_slice_def word_less_nat_alt)
    with post True have "tracked env ?p ?n s0 ?s"
      by (auto simp: tracked_def store64_frame)
    moreover have "unseen env config t0 ?s = unseen env config t0 s'" by (rule unseen_cong) simp
    ultimately show ?thesis using loop True post
      by (intro exI [of _ True] exI [of _ ?s]) (simp add: nxmt_write_phase_def Let_def)
  qed
qed

lemma verify_phase_tracked:
  fixes base start count :: u64
  assumes small: "unat start + unat count < 2 ^ 61"
    and pre: "unseen env config t0 s" "tracked env p n s0 s"
  shows "\<exists>b s'. nxmt_verify_phase env base start count phase config s = Some (b, s')
    \<and> (if b then unseen env config t0 s' else stopped env config t0 s') \<and> tracked env p n s0 s'"
proof -
  let ?body = "verify_body env (base + start * 8) start phase config"
  let ?I = "\<lambda>k s'. unseen env config t0 s' \<and> tracked env p n s0 s'"
  let ?Q = "\<lambda>s'. stopped env config t0 s' \<and> tracked env p n s0 s'"
  have count: "unat count + 131072 \<le> 2 ^ 64" using small by simp
  have "\<exists>b s'. chunk_loop (nxmt_runner_stop_requested env config) count ?body 0 s = Some (b, s')
      \<and> (if b then ?I (unat count) s' else ?Q s')"
  proof (rule chunk_loop_rule [OF count, where I = ?I])
    fix k s1 stop s2
    assume I: "?I k s1" and poll: "nxmt_runner_stop_requested env config s1 = (stop, s2)"
    let ?s' = "?body (of_nat k) (of_nat (chunk_len (unat count) k)) s2"
    have "tracked env p n s0 s2" using I tracked_poll poll by blast
    moreover have "tracked env p n s0 ?s' = tracked env p n s0 s2"
      "unseen env config t0 ?s' = unseen env config t0 s2"
      by (rule tracked_cong unseen_cong, simp add: body_fields)+
    ultimately show "if stop then ?Q s2 else ?I (k + chunk_len (unat count) k) ?s'"
      using poll_unseen [OF conjunct1 [OF I] poll] by simp
  qed (use pre in simp_all)
  then obtain b s' where "chunk_loop (nxmt_runner_stop_requested env config) count ?body 0 s = Some (b, s')"
    "if b then ?I (unat count) s' else ?Q s'" by blast
  then show ?thesis unfolding nxmt_verify_phase_def Let_def
    by (intro exI [of _ b] exI [of _ s']) (cases b; simp)
qed

section \<open>The pass\<close>

abbreviation slice_base :: "NxmtArena \<Rightarrow> NxmtRunConfig \<Rightarrow> u64" where
  "slice_base arena config \<equiv> a_base arena + slice_start arena config * 8"

abbreviation slice_tracked :: "Env \<Rightarrow> NxmtArena \<Rightarrow> NxmtRunConfig \<Rightarrow> RunState \<Rightarrow> RunState \<Rightarrow> bool" where
  "slice_tracked env arena config \<equiv>
     tracked env (slice_base arena config) (unat (slice_count arena config))"

lemma run_phase_tracked:
  assumes words: "unat (a_words arena) < 2 ^ 61" and valid: "valid_args arena config"
    and pre: "unseen env config t0 s" "slice_tracked env arena config s0 s"
  shows "\<exists>b s'. run_phase env (a_base arena) (slice_start arena config) (slice_count arena config)
      phase config s = Some (b, s')
    \<and> (if b then unseen env config t0 s' else stopped env config t0 s') \<and> slice_tracked env arena config s0 s'"
proof -
  let ?start = "slice_start arena config" and ?count = "slice_count arena config"
  have small: "unat ?start + unat ?count < 2 ^ 61" using slice_le_words [OF valid] words by simp
  have al: "aligned8 (a_base arena)" using valid by (simp add: valid_args_def)
  obtain stop s1 where poll: "nxmt_runner_stop_requested env config s = (stop, s1)" by fastforce
  have tr1: "slice_tracked env arena config s0 s1" using pre(2) poll by (rule tracked_poll)
  note st1 = poll_unseen [OF pre(1) poll]
  show ?thesis
  proof (cases stop)
    case True
    with st1 tr1 poll show ?thesis by (auto simp: run_phase_def)
  next
    case False
    let ?s1 = "s1\<lparr>w_stats := (w_stats s1)\<lparr>current_phase := phase\<rparr>\<rparr>"
    have "unseen env config t0 ?s1" "slice_tracked env arena config s0 ?s1"
      using st1 tr1 False by (simp_all add: unseen_def tracked_def)
    from write_phase_tracked [OF small al this, of phase] obtain b s2 where
      wr: "nxmt_write_phase env (a_base arena) ?start ?count phase config ?s1 = Some (b, s2)"
      and s2: "if b then unseen env config t0 s2 else stopped env config t0 s2"
        "slice_tracked env arena config s0 s2" by blast
    show ?thesis
    proof (cases b)
      case False
      with s2 \<open>\<not> stop\<close> poll wr show ?thesis by (auto simp: run_phase_def Let_def)
    next
      case True
      let ?s2 = "s2\<lparr>w_stats := (w_stats s2)\<lparr>bytes_written := bytes_written (w_stats s2) + ?count * 8\<rparr>\<rparr>"
      have "unseen env config t0 ?s2" "slice_tracked env arena config s0 ?s2"
        using s2 True by (simp_all add: unseen_def tracked_def)
      from verify_phase_tracked [OF small this, of "a_base arena" phase] obtain b' s3 where
        verify: "nxmt_verify_phase env (a_base arena) ?start ?count phase config ?s2 = Some (b', s3)"
        and s3: "if b' then unseen env config t0 s3 else stopped env config t0 s3"
          "slice_tracked env arena config s0 s3" by blast
      have "unseen env config t0 (s3\<lparr>w_stats := f\<rparr>) = unseen env config t0 s3"
        "slice_tracked env arena config s0 (s3\<lparr>w_stats := f\<rparr>) = slice_tracked env arena config s0 s3" for f
        by (simp_all add: unseen_def tracked_def)
      with s3 True \<open>\<not> stop\<close> poll wr verify show ?thesis
        by (cases b') (auto simp: run_phase_def Let_def)
    qed
  qed
qed

interpretation frame: pass_contract
  "\<lambda>env arena config. unat (a_words arena) < 2 ^ 61"
  "\<lambda>env arena config s0 i s. unseen env config (w_polls s0) s \<and> slice_tracked env arena config s0 s"
  "\<lambda>env arena config s0 s. stopped env config (w_polls s0) s \<and> slice_tracked env arena config s0 s"
proof
  fix env arena config s
  show "unseen env config (w_polls (start_state config s)) (start_state config s)
      \<and> slice_tracked env arena config (start_state config s) (start_state config s)"
    by (auto simp: unseen_def tracked_def)
next
  fix env arena config i and s0 s :: RunState
  assume "unat (a_words arena) < 2 ^ 61" "valid_args arena config"
    "unseen env config (w_polls s0) s \<and> slice_tracked env arena config s0 s"
  then obtain b s' where "run_phase env (a_base arena) (slice_start arena config) (slice_count arena config)
      (nth_phase config i) config s = Some (b, s')"
    "if b then unseen env config (w_polls s0) s' else stopped env config (w_polls s0) s'"
    "slice_tracked env arena config s0 s'"
    using run_phase_tracked [of arena config env "w_polls s0" s s0 "nth_phase config i"] by blast
  then show "\<exists>b s'. run_phase env (a_base arena) (slice_start arena config) (slice_count arena config)
      (nth_phase config i) config s = Some (b, s')
    \<and> (if b then unseen env config (w_polls s0) s' \<and> slice_tracked env arena config s0 s'
       else stopped env config (w_polls s0) s' \<and> slice_tracked env arena config s0 s')"
    by (intro exI [of _ b] exI [of _ s']) (cases b; simp)
qed

section \<open>The slices of two workers\<close>

text \<open>No byte of a word of one worker's slice is in the slice of another.\<close>

lemma slices_disjoint:
  assumes words: "unat (a_words arena) < 2 ^ 61" and al: "aligned8 (a_base arena)"
    and w: "c_worker_id config < c_worker_count config" and j: "j < c_worker_count config"
    and ne: "j \<noteq> c_worker_id config"
    and k: "k < unat (nxmt_split_block_size (a_words arena) (c_worker_count config) j)" and i: "i < 8"
  shows "\<not> in_slice (slice_base arena config) (unat (slice_count arena config))
    (widx (a_base arena + nxmt_split_block_start (a_words arena) (c_worker_count config) j * 8) k + of_nat i)"
proof
  let ?n = "c_worker_count config" and ?t = "a_words arena"
  let ?sj = "nxmt_split_block_start ?t ?n j"
  assume "in_slice (slice_base arena config) (unat (slice_count arena config))
    (widx (a_base arena + ?sj * 8) k + of_nat i)"
  then obtain k' where k': "k' < unat (slice_count arena config)"
    and less: "widx (a_base arena + ?sj * 8) k + of_nat i - widx (slice_base arena config) k' < 8"
    unfolding in_slice_def by blast
  have addr: "widx (a_base arena + st * 8) q = widx (a_base arena) (unat st + q)" for st q
    by (simp add: widx_def algebra_simps)
  have bj: "unat ?sj + k \<in> split.block ?t ?n j" using k by (simp add: split.block_def)
  have bw: "unat (slice_start arena config) + k' \<in> split.block ?t ?n (c_worker_id config)"
    using k' by (simp add: split.block_def)
  from bj bw split.blocks_disjoint [OF j w ne, of ?t]
  have "unat ?sj + k \<noteq> unat (slice_start arena config) + k'" by auto
  moreover have "unat ?sj + k < 2 ^ 61" "unat (slice_start arena config) + k' < 2 ^ 61"
    using k k' words split.block_le_total [OF j, of ?t] split.block_le_total [OF w, of ?t] by simp_all
  ultimately have "widx (slice_base arena config) k' \<noteq> widx (a_base arena + ?sj * 8) k"
    using widx_inj unfolding addr by metis
  moreover have "aligned8 (widx (slice_base arena config) k')" "aligned8 (widx (a_base arena + ?sj * 8) k)"
    unfolding addr using al by simp_all
  ultimately show False using aligned8_diff_not_less [OF _ _ _ i] less by blast
qed

end
