(* ===== verification/Workers.thy ===== *)
theory Workers
  imports Pass_Frame
begin

text \<open>
  The workers of \<^verbatim>\<open>source/nx/main.c\<close>: their contexts, the thread entry, the order of the
  statuses and the merge of the contexts after a pass, and the choice of the cores they are
  pinned to.  Each worker runs in its own environment, which covers whatever the other
  threads do to the memory meanwhile.
\<close>

unbundle bit_operations_syntax

section \<open>The order of the statuses\<close>

text \<open>\<open>combine_worker_status\<close> keeps the most severe status; the order makes that precise.\<close>

instantiation NxmtStatus :: linorder
begin

definition severity :: "NxmtStatus \<Rightarrow> nat" where
  "severity st = (case st of NXMT_STATUS_PASS \<Rightarrow> 0 | NXMT_STATUS_UNSUPPORTED \<Rightarrow> 1
     | NXMT_STATUS_ABORTED \<Rightarrow> 2 | NXMT_STATUS_FAIL \<Rightarrow> 3)"

definition less_eq_NxmtStatus :: "NxmtStatus \<Rightarrow> NxmtStatus \<Rightarrow> bool" where
  "a \<le> b \<longleftrightarrow> severity a \<le> severity b"

definition less_NxmtStatus :: "NxmtStatus \<Rightarrow> NxmtStatus \<Rightarrow> bool" where
  "a < b \<longleftrightarrow> severity a < severity b"

instance
  by standard
    (auto simp: less_eq_NxmtStatus_def less_NxmtStatus_def severity_def split: NxmtStatus.splits)

end

definition combine_worker_status :: "NxmtStatus \<Rightarrow> NxmtStatus \<Rightarrow> NxmtStatus" where
  "combine_worker_status current worker_status =
     (if current = NXMT_STATUS_FAIL \<or> worker_status = NXMT_STATUS_FAIL then NXMT_STATUS_FAIL
      else if current = NXMT_STATUS_ABORTED \<or> worker_status = NXMT_STATUS_ABORTED then NXMT_STATUS_ABORTED
      else if current = NXMT_STATUS_UNSUPPORTED \<or> worker_status = NXMT_STATUS_UNSUPPORTED
      then NXMT_STATUS_UNSUPPORTED
      else NXMT_STATUS_PASS)"

lemma combine_is_max: "combine_worker_status a b = max a b"
  by (cases a; cases b)
    (simp_all add: combine_worker_status_def max_def less_eq_NxmtStatus_def severity_def)

lemma status_bounds: "NXMT_STATUS_PASS \<le> st" "st \<le> NXMT_STATUS_FAIL" for st
  by (cases st; simp add: less_eq_NxmtStatus_def severity_def)+

section \<open>Contexts\<close>

record NxmtWorkerContext =
  ctx_arena :: NxmtArena
  ctx_config :: NxmtRunConfig
  ctx_report :: NxmtReport
  ctx_stats :: NxmtRunStats
  ctx_status :: NxmtStatus

text \<open>The report and the statistics after \<^verbatim>\<open>memset(ctx, 0, sizeof(*ctx))\<close>.\<close>

definition zero_report :: NxmtReport where
  "zero_report = \<lparr>has_first_error = False,
     first = \<lparr>e_mode = NXMT_MODE_QUICK, e_phase = NXMT_PHASE_FIXED_A, e_seed = 0, e_pass = 0,
       e_worker_id = 0, e_offset = 0, e_expected = 0, e_actual = 0, e_xor_diff = 0\<rparr>,
     error_count = 0, min_error_offset = 0, max_error_offset = 0, bit_diff_or = 0\<rparr>"

definition zero_stats :: NxmtRunStats where
  "zero_stats = \<lparr>bytes_written = 0, bytes_verified = 0, pressure_checksum = 0,
     current_phase = NXMT_PHASE_FIXED_A\<rparr>"

definition init_worker_context ::
    "NxmtArena \<Rightarrow> NxmtMode \<Rightarrow> u64 \<Rightarrow> u32 \<Rightarrow> u32 \<Rightarrow> bool \<Rightarrow> NxmtWorkerContext" where
  "init_worker_context arena mode seed worker workers has_stop =
     \<lparr>ctx_arena = arena,
      ctx_config = \<lparr>c_mode = mode, c_seed = seed, c_pass = 0, c_worker_id = worker,
        c_worker_count = workers, inject_mismatch = False, has_stop_requested = has_stop,
        has_progress_bytes = False\<rparr>,
      ctx_report = zero_report, ctx_stats = zero_stats, ctx_status = NXMT_STATUS_UNSUPPORTED\<rparr>"

text \<open>
  The thread entry: the context, the memory and the progress counter of the worker, and the
  shared count of the finished workers.
\<close>

definition nxmt_worker_entry ::
    "Env \<Rightarrow> mem \<Rightarrow> u64 \<Rightarrow> u32 \<Rightarrow> NxmtWorkerContext \<Rightarrow> (NxmtWorkerContext \<times> mem \<times> u64 \<times> u32) option" where
  "nxmt_worker_entry env m progress finished_workers ctx =
     (let ctx = ctx\<lparr>ctx_report := nxmt_report_init (ctx_report ctx)\<rparr>
      in case nxmt_runner_run_pass env (Some (ctx_arena ctx)) (Some (ctx_config ctx)) True True
                \<lparr>w_mem = m, w_progress = progress, w_polls = 0, w_pressure = 0,
                 w_report = ctx_report ctx, w_stats = ctx_stats ctx\<rparr> of
           None \<Rightarrow> None
         | Some (status, s) \<Rightarrow>
             Some (ctx\<lparr>ctx_report := w_report s, ctx_stats := w_stats s, ctx_status := status\<rparr>,
                   w_mem s, w_progress s, finished_workers + 1))"

section \<open>The merge\<close>

record Totals =
  t_report :: NxmtReport
  t_stats :: NxmtRunStats
  t_status :: NxmtStatus
  t_completed :: u32

definition merge_worker_context :: "NxmtWorkerContext \<Rightarrow> Totals \<Rightarrow> Totals" where
  "merge_worker_context ctx t =
     (let st = (t_stats t)\<lparr>
          bytes_written := bytes_written (t_stats t) + bytes_written (ctx_stats ctx),
          bytes_verified := bytes_verified (t_stats t) + bytes_verified (ctx_stats ctx),
          pressure_checksum := pressure_checksum (t_stats t) XOR pressure_checksum (ctx_stats ctx)\<rparr>
      in t\<lparr>t_stats := st,
           t_report := nxmt_report_merge (t_report t) (ctx_report ctx),
           t_status := combine_worker_status (t_status t) (ctx_status ctx),
           t_completed := (if ctx_status ctx \<noteq> NXMT_STATUS_UNSUPPORTED \<and> ctx_status ctx \<noteq> NXMT_STATUS_ABORTED
                           then t_completed t + 1 else t_completed t)\<rparr>)"

definition merge_worker_contexts :: "NxmtWorkerContext list \<Rightarrow> Totals \<Rightarrow> Totals" where
  "merge_worker_contexts ctxs t = fold merge_worker_context ctxs t"

section \<open>Cores\<close>

definition preferred_order :: "nat list" where
  "preferred_order = [2, 0, 1, 3]"

fun collect_cores :: "u64 \<Rightarrow> nat \<Rightarrow> nat list \<Rightarrow> nat list \<Rightarrow> nat list" where
  "collect_cores cmask max_workers [] out = out"
| "collect_cores cmask max_workers (core # cores) out =
     (if length out < max_workers
      then collect_cores cmask max_workers cores
             (if cmask AND push_bit core 1 \<noteq> 0 then out @ [core] else out)
      else out)"

definition collect_worker_cpu_map :: "u64 \<Rightarrow> nat \<Rightarrow> nat list" where
  "collect_worker_cpu_map core_mask max_workers = collect_cores core_mask max_workers preferred_order []"

lemma and_push_bit: "cmask AND push_bit core 1 \<noteq> 0 \<longleftrightarrow> bit cmask core" for cmask :: u64
proof -
  have "cmask AND push_bit core 1 = (if bit cmask core then push_bit core 1 else 0)"
    by (rule bit_word_eqI) (auto simp: bit_simps)
  moreover have "bit cmask core \<Longrightarrow> bit (push_bit core 1 :: u64) core"
    by (auto simp: bit_simps dest: bit_imp_le_length)
  ultimately show ?thesis by (metis bit_0_eq bot_apply bot_bool_def)
qed

lemma collect_cores_take:
  "length out \<le> n \<Longrightarrow> collect_cores cmask n cores out = out @ take (n - length out) (filter (bit cmask) cores)"
  by (induction cores arbitrary: out)
    (auto simp: and_push_bit [simplified] not_less take_Cons')

lemma cpu_map_eq: "collect_worker_cpu_map core_mask n = take n (filter (bit core_mask) [2, 0, 1, 3])"
  using collect_cores_take [of "[]" n core_mask preferred_order]
  by (simp only: collect_worker_cpu_map_def preferred_order_def) simp

lemma cpu_map_distinct: "distinct (collect_worker_cpu_map core_mask n)"
proof -
  have "distinct (filter (bit core_mask) [2, 0, 1, 3])" by (rule distinct_filter) simp
  then show ?thesis unfolding cpu_map_eq by (rule distinct_take)
qed

section \<open>What a worker leaves behind\<close>

lemma worker_entry_result:
  assumes words: "unat (a_words (ctx_arena ctx)) < 2 ^ 61"
    and run: "nxmt_worker_entry env m progress fin ctx = Some (ctx', m', p', fin')"
  shows "\<exists>es. report_of (ctx_report ctx') es \<and> length es < 2 ^ 64
    \<and> (\<forall>e \<in> set es. genuine_in_pass (ctx_arena ctx) (ctx_config ctx) e)
    \<and> (ctx_status ctx' = NXMT_STATUS_FAIL \<longleftrightarrow> es \<noteq> [])
    \<and> (valid_args (ctx_arena ctx) (ctx_config ctx) \<longrightarrow> ctx_status ctx' \<noteq> NXMT_STATUS_UNSUPPORTED
         \<and> (ctx_status ctx' = NXMT_STATUS_ABORTED \<longrightarrow> stoppable env (ctx_config ctx)))"
proof -
  let ?s = "\<lparr>w_mem = m, w_progress = progress, w_polls = 0, w_pressure = 0,
    w_report = nxmt_report_init (ctx_report ctx), w_stats = ctx_stats ctx\<rparr>"
  from run_pass_verdict [OF words, of env "ctx_config ctx" ?s] obtain st s' es where
    pass: "nxmt_runner_run_pass env (Some (ctx_arena ctx)) (Some (ctx_config ctx)) True True ?s = Some (st, s')"
    and es: "w_report s' = record_all es (nxmt_report_init (ctx_report ctx))" "length es < 2 ^ 64"
      "\<forall>e \<in> set es. genuine_in_pass (ctx_arena ctx) (ctx_config ctx) e"
    and st: "if valid_args (ctx_arena ctx) (ctx_config ctx)
       then (st = NXMT_STATUS_FAIL \<longleftrightarrow> es \<noteq> []) \<and> st \<noteq> NXMT_STATUS_UNSUPPORTED
         \<and> (st = NXMT_STATUS_ABORTED \<longrightarrow> stoppable env (ctx_config ctx))
       else st = NXMT_STATUS_UNSUPPORTED \<and> es = []"
    by auto
  have "ctx' = ctx\<lparr>ctx_report := w_report s', ctx_stats := w_stats s', ctx_status := st\<rparr>"
    using run pass by (simp add: nxmt_worker_entry_def)
  moreover have "report_of (record_all es (nxmt_report_init (ctx_report ctx))) es"
    using rep.repr_record_all [OF report_of_init, of es "ctx_report ctx"] es(3)
    by (auto simp: genuine_in_pass_def dest: genuine_wf)
  moreover have "st = NXMT_STATUS_FAIL \<longleftrightarrow> es \<noteq> []" using st by (auto split: if_splits)
  ultimately show ?thesis using es st by (intro exI [of _ es]) simp
qed

section \<open>What the merge computes\<close>

lemma merge_report:
  "t_report (merge_worker_contexts ctxs t) = fold (\<lambda>src dst. nxmt_report_merge dst src) (map ctx_report ctxs) (t_report t)"
  unfolding merge_worker_contexts_def
  by (induction ctxs arbitrary: t) (simp_all add: merge_worker_context_def Let_def)

lemma merge_status:
  "t_status (merge_worker_contexts ctxs t) = fold max (map ctx_status ctxs) (t_status t)"
  unfolding merge_worker_contexts_def
  by (induction ctxs arbitrary: t) (simp_all add: merge_worker_context_def Let_def combine_is_max max.commute)

lemma merge_stats:
  "t_stats (merge_worker_contexts ctxs t) = (t_stats t)\<lparr>
      bytes_written := bytes_written (t_stats t) + sum_list (map (\<lambda>c. bytes_written (ctx_stats c)) ctxs),
      bytes_verified := bytes_verified (t_stats t) + sum_list (map (\<lambda>c. bytes_verified (ctx_stats c)) ctxs),
      pressure_checksum := fold (\<lambda>c x. x XOR pressure_checksum (ctx_stats c)) ctxs (pressure_checksum (t_stats t))\<rparr>"
  unfolding merge_worker_contexts_def
  by (induction ctxs arbitrary: t) (simp_all add: merge_worker_context_def Let_def add.assoc)

lemma merge_completed:
  "t_completed (merge_worker_contexts ctxs t) = t_completed t
    + of_nat (length (filter (\<lambda>c. ctx_status c \<in> {NXMT_STATUS_PASS, NXMT_STATUS_FAIL}) ctxs))"
proof -
  have done_iff: "st \<in> {NXMT_STATUS_PASS, NXMT_STATUS_FAIL}
      \<longleftrightarrow> st \<noteq> NXMT_STATUS_UNSUPPORTED \<and> st \<noteq> NXMT_STATUS_ABORTED" for st
    by (cases st) simp_all
  show ?thesis
    unfolding merge_worker_contexts_def done_iff
    by (induction ctxs arbitrary: t) (simp_all add: merge_worker_context_def Let_def)
qed

lemma fold_max: "fold max xs (a :: 'a :: linorder) = Max (insert a (set xs))"
proof (induction xs arbitrary: a)
  case (Cons x xs)
  show ?case using Cons [of "max x a"] by (cases "xs = []") (simp_all add: max.assoc max.left_commute max.commute)
qed simp

lemma merge_status_fail:
  "t_status (merge_worker_contexts ctxs t) = NXMT_STATUS_FAIL
    \<longleftrightarrow> t_status t = NXMT_STATUS_FAIL \<or> NXMT_STATUS_FAIL \<in> ctx_status ` set ctxs"
proof -
  let ?S = "insert (t_status t) (set (map ctx_status ctxs))"
  have "Max ?S = NXMT_STATUS_FAIL \<longleftrightarrow> NXMT_STATUS_FAIL \<in> ?S"
  proof
    assume "Max ?S = NXMT_STATUS_FAIL"
    then show "NXMT_STATUS_FAIL \<in> ?S" using Max_in [of ?S] by simp
  next
    assume "NXMT_STATUS_FAIL \<in> ?S"
    then have "NXMT_STATUS_FAIL \<le> Max ?S" by (intro Max_ge) simp_all
    then show "Max ?S = NXMT_STATUS_FAIL" using status_bounds(2) by (intro antisym) simp_all
  qed
  then show ?thesis by (simp only: merge_status fold_max) auto
qed

text \<open>The contexts of workers that ran, merged into a report that already stands for some errors.\<close>

definition ran_to :: "NxmtWorkerContext \<Rightarrow> NxmtWorkerContext \<Rightarrow> bool" where
  "ran_to ctx ctx' \<longleftrightarrow> unat (a_words (ctx_arena ctx)) < 2 ^ 61
     \<and> (\<exists>env m progress fin m' p' fin'. nxmt_worker_entry env m progress fin ctx = Some (ctx', m', p', fin'))"

lemma ran_toI:
  "unat (a_words (ctx_arena ctx)) < 2 ^ 61 \<Longrightarrow>
    nxmt_worker_entry env m progress fin ctx = Some (ctx', m', p', fin') \<Longrightarrow> ran_to ctx ctx'"
  unfolding ran_to_def by blast

lemma merge_verdict:
  assumes ran: "list_all2 ran_to ctxs ctxs'" and rep: "report_of (t_report t) es0"
  shows "\<exists>es. report_of (t_report (merge_worker_contexts ctxs' t)) (es0 @ es)
    \<and> (NXMT_STATUS_FAIL \<in> ctx_status ` set ctxs' \<longleftrightarrow> es \<noteq> [])
    \<and> (\<forall>e \<in> set es. \<exists>ctx \<in> set ctxs. genuine_in_pass (ctx_arena ctx) (ctx_config ctx) e)"
proof -
  let ?ok = "\<lambda>ctx ctx' es. report_of (ctx_report ctx') es \<and> length es < 2 ^ 64
    \<and> (\<forall>e \<in> set es. genuine_in_pass (ctx_arena ctx) (ctx_config ctx) e)
    \<and> (ctx_status ctx' = NXMT_STATUS_FAIL \<longleftrightarrow> es \<noteq> [])"
  have "\<exists>ess. list_all2 (\<lambda>ctx' es. report_of (ctx_report ctx') es \<and> length es < 2 ^ 64) ctxs' ess
      \<and> (NXMT_STATUS_FAIL \<in> ctx_status ` set ctxs' \<longleftrightarrow> concat ess \<noteq> [])
      \<and> (\<forall>e \<in> set (concat ess). \<exists>ctx \<in> set ctxs. genuine_in_pass (ctx_arena ctx) (ctx_config ctx) e)"
    using ran
  proof (induction rule: list_all2_induct)
    case Nil
    show ?case by (intro exI [of _ "[]"]) simp
  next
    case (Cons ctx ctxs ctx' ctxs')
    then obtain es where "?ok ctx ctx' es" using worker_entry_result unfolding ran_to_def by blast
    moreover from Cons.IH obtain ess where
      "list_all2 (\<lambda>ctx' es. report_of (ctx_report ctx') es \<and> length es < 2 ^ 64) ctxs' ess"
      "NXMT_STATUS_FAIL \<in> ctx_status ` set ctxs' \<longleftrightarrow> concat ess \<noteq> []"
      "\<forall>e \<in> set (concat ess). \<exists>ctx \<in> set ctxs. genuine_in_pass (ctx_arena ctx) (ctx_config ctx) e" by blast
    ultimately show ?case by (intro exI [of _ "es # ess"]) auto
  qed
  then obtain ess where
    ess: "list_all2 (\<lambda>r es. report_of r es \<and> length es < 2 ^ 64) (map ctx_report ctxs') ess"
    and fail: "NXMT_STATUS_FAIL \<in> ctx_status ` set ctxs' \<longleftrightarrow> concat ess \<noteq> []"
    and gen: "\<forall>e \<in> set (concat ess). \<exists>ctx \<in> set ctxs. genuine_in_pass (ctx_arena ctx) (ctx_config ctx) e"
    by (auto simp: list_all2_map1)
  have "report_of (t_report (merge_worker_contexts ctxs' t)) (es0 @ concat ess)"
    unfolding merge_report by (rule rep.repr_merge_all [OF rep ess])
  then show ?thesis using fail gen by (intro exI [of _ "concat ess"]) simp
qed

section \<open>Properties\<close>


text \<open>Two workers of one small arena, one of them on memory that does not keep what is written.\<close>

definition demo_ctx :: "u32 \<Rightarrow> NxmtWorkerContext" where
  "demo_ctx worker = init_worker_context \<lparr>a_base = 0x10000, a_size = 4096, a_words = 512\<rparr>
     NXMT_MODE_MEMORY_LOAD 7 worker 2 True"

definition demo_totals :: Totals where
  "demo_totals = \<lparr>t_report = nxmt_report_init zero_report, t_stats = zero_stats,
     t_status = NXMT_STATUS_PASS, t_completed = 0\<rparr>"

lemma demo_ctx_words: "unat (a_words (ctx_arena (demo_ctx w))) < 2 ^ 61"
  by (simp add: demo_ctx_def init_worker_context_def)

lemma worker_entry_returns:
  "unat (a_words (ctx_arena ctx)) < 2 ^ 61 \<Longrightarrow>
    \<exists>ctx' m' p' fin'. nxmt_worker_entry env m progress fin ctx = Some (ctx', m', p', fin')"
  using run_pass_verdict [of "ctx_arena ctx" env "ctx_config ctx"
      "\<lparr>w_mem = m, w_progress = progress, w_polls = 0, w_pressure = 0,
        w_report = nxmt_report_init (ctx_report ctx), w_stats = ctx_stats ctx\<rparr>"]
  by (auto simp: nxmt_worker_entry_def)


text \<open>
  Merging the contexts adds up the bytes, exclusive-ors the checksums, takes the
  most severe status (\<open>FAIL\<close> over \<open>ABORTED\<close> over \<open>UNSUPPORTED\<close> over \<open>PASS\<close>) and counts the
  workers that finished with \<open>PASS\<close> or \<open>FAIL\<close>.
\<close>

theorem merge_totals:
  "t_status (merge_worker_contexts ctxs t) = Max (insert (t_status t) (ctx_status ` set ctxs))
    \<and> t_stats (merge_worker_contexts ctxs t) = (t_stats t)\<lparr>
        bytes_written := bytes_written (t_stats t) + sum_list (map (\<lambda>c. bytes_written (ctx_stats c)) ctxs),
        bytes_verified := bytes_verified (t_stats t) + sum_list (map (\<lambda>c. bytes_verified (ctx_stats c)) ctxs),
        pressure_checksum := fold (\<lambda>c x. x XOR pressure_checksum (ctx_stats c)) ctxs (pressure_checksum (t_stats t))\<rparr>
    \<and> t_completed (merge_worker_contexts ctxs t) = t_completed t
        + of_nat (length (filter (\<lambda>c. ctx_status c \<in> {NXMT_STATUS_PASS, NXMT_STATUS_FAIL}) ctxs))"
  unfolding merge_stats merge_completed merge_status fold_max by simp

text \<open>
  The workers are pinned to distinct cores the process may use, in the preferred
  order 2, 0, 1, 3, as many as there are up to the limit.
\<close>

theorem worker_cores:
  "collect_worker_cpu_map core_mask max_workers = take max_workers (filter (bit core_mask) [2, 0, 1, 3])
    \<and> distinct (collect_worker_cpu_map core_mask max_workers)
    \<and> set (collect_worker_cpu_map core_mask max_workers) \<subseteq> {c. bit core_mask c \<and> c < 4}"
proof (intro conjI)
  show "collect_worker_cpu_map core_mask max_workers = take max_workers (filter (bit core_mask) [2, 0, 1, 3])"
    by (rule cpu_map_eq)
  show "distinct (collect_worker_cpu_map core_mask max_workers)" by (rule cpu_map_distinct)
  have "bit core_mask c \<and> c < 4" if "c \<in> set (take max_workers (filter (bit core_mask) [2, 0, 1, 3]))" for c
    using in_set_takeD [OF that] by (simp only: set_filter) auto
  then show "set (collect_worker_cpu_map core_mask max_workers) \<subseteq> {c. bit core_mask c \<and> c < 4}"
    unfolding cpu_map_eq by blast
qed

end
