(* ===== verification/Pattern_Props.thy ===== *)
theory Pattern_Props
  imports Chunk_Write
begin

text \<open>
  Why the patterns of \<^verbatim>\<open>source/core/patterns.c\<close> are test patterns: what each phase
  guarantees about the words it expects at different offsets and in different passes, and
  the seed, mixer and offset helpers.
\<close>

unbundle bit_operations_syntax

section \<open>Auxiliary facts\<close>

lemma dvd8_offset:
  fixes o1 :: u64
  assumes "8 dvd unat o1"
  shows "o1 = (o1 div 8) * 8"
proof -
  have "unat (o1 div 8) * 8 = unat o1" using assms by (simp add: unat_div)
  moreover from this have "unat ((o1 div 8) * 8) = unat (o1 div 8) * 8"
    using unat64_less [of o1] by (subst unat_mult_small) simp_all
  ultimately show ?thesis by (simp add: word_eq_iff_unat)
qed

lemma bswap64_eq_iff: "bswap64 a = bswap64 b \<longleftrightarrow> a = b"
  by (metis bswap64_bswap64)

lemma xor_left_cancel: "c XOR a = c XOR b \<longleftrightarrow> a = b" for a b c :: u64
  by (simp only: xor.commute [of c] xor_right_cancel)

lemma add_8_index:
  fixes offset :: u64
  assumes "8 dvd unat offset" and "unat offset + 8 < 2 ^ 64"
  shows "(offset + 8) div 8 = offset div 8 + 1"
proof -
  have "unat (offset + 8) = unat offset + 8" using assms(2) by (subst unat_add_small) simp_all
  then have "unat ((offset + 8) div 8) = unat offset div 8 + 1" by (simp add: unat_div)
  moreover have "unat offset div 8 + 1 < 2 ^ 64" using assms(2) div_le_dividend [of "unat offset" 8] by linarith
  then have "unat (offset div 8 + 1) = unat offset div 8 + 1"
    by (subst unat_add_small) (simp_all add: unat_div)
  ultimately show ?thesis by (simp add: word_eq_iff_unat)
qed

lemma odd_add_one: "((w + 1) AND 1 \<noteq> 0) \<longleftrightarrow> (w AND 1 = 0)" for w :: u64
  using parity_start_plus [of w 1] by auto

section \<open>Properties\<close>

text \<open>
  \<open>nxmt_mix64\<close> is a bijection of the 64-bit words: no two inputs share an
  output and every word is an output.
\<close>

theorem mix64_bijective: "bij nxmt_mix64"
proof -
  have "inj nxmt_mix64" by (auto intro: injI simp: nxmt_mix64_eq_iff)
  then show ?thesis by (simp add: bij_def finite_UNIV_inj_surj)
qed

text \<open>
  The seed keeps both halves it is made of.
\<close>

theorem make_seed_roundtrip:
  "ucast (drop_bit 32 (nxmt_make_seed high low)) = high \<and> ucast (nxmt_make_seed high low) = low"
proof (intro conjI)
  show "ucast (drop_bit 32 (nxmt_make_seed high low)) = high"
    by (rule bit_word_eqI) (auto simp: nxmt_make_seed_def bit_simps dest: bit_imp_le_length)
  show "ucast (nxmt_make_seed high low) = low"
    by (rule bit_word_eqI) (auto simp: nxmt_make_seed_def bit_simps)
qed

text \<open>
  \<open>nxmt_next_offset\<close> gives a word-aligned offset inside the arena for every
  seed, pass and index, and 0 for an empty arena.
\<close>

theorem next_offset_in_arena:
  assumes "unat arena_words < 2 ^ 61"
  shows "if arena_words = 0 then nxmt_next_offset seed pass index arena_words = 0
    else 8 dvd unat (nxmt_next_offset seed pass index arena_words)
      \<and> unat (nxmt_next_offset seed pass index arena_words) + 8 \<le> 8 * unat arena_words"
proof (cases "arena_words = 0")
  case False
  define r where "r = nxmt_mix64 (seed XOR nxmt_mix64 pass XOR (index * 0xd6e8feb86659fd93)) mod arena_words"
  have "unat r < unat arena_words" using False by (simp add: r_def unat_mod unat_gt_0)
  moreover from this have "unat (r * 8) = 8 * unat r" using assms by (subst unat_mult_small) simp_all
  moreover have "nxmt_next_offset seed pass index arena_words = r * 8"
    using False by (simp add: nxmt_next_offset_def r_def Let_def)
  ultimately show ?thesis using False by simp
qed (simp add: nxmt_next_offset_def)

theorem next_offset_in_arena_witness:
  "8 dvd unat (nxmt_next_offset 1 2 3 1000) \<and> unat (nxmt_next_offset 1 2 3 1000) + 8 \<le> 8000"
  using next_offset_in_arena [of 1000 1 2 3] by simp

text \<open>
  Property C31.  In the \<open>ADDRESS\<close> and \<open>RANDOM\<close> phases no two word-aligned offsets expect the
  same word: a write that lands on a wrong address cannot go unnoticed.
\<close>

theorem address_random_injective:
  assumes "phase = NXMT_PHASE_ADDRESS \<or> phase = NXMT_PHASE_RANDOM"
    and "8 dvd unat o1" and "8 dvd unat o2"
    and "nxmt_expected_value seed phase pass o1 = nxmt_expected_value seed phase pass o2"
  shows "o1 = o2"
  using assms(1)
proof
  assume "phase = NXMT_PHASE_ADDRESS"
  with assms(4) show ?thesis
    unfolding nxmt_expected_value_def Let_def by (simp only: NxmtPhase.case xor_right_cancel)
next
  assume "phase = NXMT_PHASE_RANDOM"
  with assms(4) have "o1 div 8 = o2 div 8"
    unfolding nxmt_expected_value_def Let_def
    by (simp only: NxmtPhase.case xor_right_cancel bswap64_eq_iff)
  with dvd8_offset [OF assms(2)] dvd8_offset [OF assms(3)] show ?thesis by metis
qed

theorem address_random_injective_witness:
  "nxmt_expected_value 5 NXMT_PHASE_RANDOM 1 8 \<noteq> nxmt_expected_value 5 NXMT_PHASE_RANDOM 1 16"
  using address_random_injective [of NXMT_PHASE_RANDOM 8 16 5 1] by auto

text \<open>
  Property C32.  In the \<open>WALKING\<close> phase every word expects exactly one bit, and over 64
  consecutive passes, starting anywhere, every bit of every word is the walking one.
\<close>

theorem walking_covers_bits:
  "(\<lambda>i. nxmt_expected_value seed NXMT_PHASE_WALKING (pass + of_nat i) offset) ` {..<64}
    = (\<lambda>b. push_bit b 1) ` {..<64}"
proof -
  let ?w = "offset div 8"
  have val: "nxmt_expected_value seed NXMT_PHASE_WALKING q offset = push_bit (unat (?w + q) mod 64) 1" for q
    using and_mask_eq_mod [of "?w + q" 6] by (simp add: nxmt_expected_value_def Let_def)
  define t where "t = unat (?w + pass)"
  have step: "unat (?w + (pass + of_nat i)) mod 64 = (t + i) mod 64" for i
  proof -
    have "?w + (pass + of_nat i) = (?w + pass) + of_nat i" by (simp add: add.assoc)
    then have "unat (?w + (pass + of_nat i)) = (t + i) mod 2 ^ 64"
      by (simp add: t_def unat_word_ariths unat_of_nat mod_simps add.assoc)
    then show ?thesis by (simp add: mod_mod_cancel)
  qed
  have hit: "b = (t + (b + 63 * t) mod 64) mod 64" if "b < 64" for b
  proof -
    have "(t + (b + 63 * t) mod 64) mod 64 = (t + (b + 63 * t)) mod 64" by (simp only: mod_simps)
    also have "t + (b + 63 * t) = b + t * 64" by simp
    finally show ?thesis using that by simp
  qed
  have "(\<lambda>i. (t + i) mod 64) ` {..<64} = {..<64}"
  proof (intro equalityI subsetI)
    fix b assume "b \<in> {..<64::nat}"
    then have "b = (t + (b + 63 * t) mod 64) mod 64" by (intro hit) simp
    then show "b \<in> (\<lambda>i. (t + i) mod 64) ` {..<64}" by (rule image_eqI) simp
  qed auto
  then have "(\<lambda>b. push_bit b 1) ` (\<lambda>i. (t + i) mod 64) ` {..<64} = (\<lambda>b. push_bit b (1 :: u64)) ` {..<64}"
    by (rule arg_cong)
  then show ?thesis unfolding val step image_image .
qed

text \<open>
  Property C33.  The complementary patterns drive every bit to both values: \<open>FIXED_A\<close>
  against \<open>FIXED_5\<close> in the same word, \<open>CHECKER\<close> in adjacent words, \<open>BITSPREAD\<close> in adjacent
  words and in consecutive passes.
\<close>

theorem complementary_patterns:
  assumes "8 dvd unat offset" and "unat offset + 8 < 2 ^ 64"
  shows "nxmt_expected_value seed NXMT_PHASE_FIXED_5 pass offset
      = NOT (nxmt_expected_value seed NXMT_PHASE_FIXED_A pass offset)
    \<and> nxmt_expected_value seed NXMT_PHASE_CHECKER pass (offset + 8)
      = NOT (nxmt_expected_value seed NXMT_PHASE_CHECKER pass offset)
    \<and> nxmt_expected_value seed NXMT_PHASE_BITSPREAD pass (offset + 8)
      = NOT (nxmt_expected_value seed NXMT_PHASE_BITSPREAD pass offset)
    \<and> nxmt_expected_value seed NXMT_PHASE_BITSPREAD (pass + 1) offset
      = NOT (nxmt_expected_value seed NXMT_PHASE_BITSPREAD pass offset)"
proof -
  let ?w = "offset div 8"
  have w: "?w + 1 + pass = ?w + pass + 1" "?w + (pass + 1) = ?w + pass + 1" by simp_all
  note odd = odd_add_one [of ?w] odd_add_one [of "?w + pass"]
  show ?thesis
    unfolding nxmt_expected_value_def Let_def NxmtPhase.case add_8_index [OF assms] w
    using odd by (cases "?w AND 1 = 0"; cases "(?w + pass) AND 1 = 0") simp_all
qed

theorem complementary_patterns_witness:
  "nxmt_expected_value 0 NXMT_PHASE_CHECKER 0 16 = NOT (nxmt_expected_value 0 NXMT_PHASE_CHECKER 0 8)"
  using complementary_patterns [of 8 0 0] by simp

text \<open>
  The \<open>STREAM\<close> word depends on the offset modulo 8 KiB only, and two offsets
  of one 8 KiB block expect different words.
\<close>

theorem stream_period:
  "nxmt_expected_value seed NXMT_PHASE_STREAM pass o1 = nxmt_expected_value seed NXMT_PHASE_STREAM pass o2
    \<longleftrightarrow> unat o1 mod 8192 = unat o2 mod 8192"
proof -
  have "(o1 AND 0x1fff) = (o2 AND 0x1fff) \<longleftrightarrow> unat o1 mod 8192 = unat o2 mod 8192"
    using and_mask_eq_mod [of o1 13] and_mask_eq_mod [of o2 13] by (simp add: word_eq_iff_unat)
  then show ?thesis
    unfolding nxmt_expected_value_def Let_def by (simp only: NxmtPhase.case xor_right_cancel)
qed

text \<open>
  The \<open>NARROW\<close> word is the one that byte stores produce: byte \<open>j\<close> of the word
  at \<open>offset\<close> is the low byte of \<open>offset + j + 8 * pass\<close>, exclusive-ored with byte \<open>j\<close> of the
  seed.
\<close>

theorem narrow_bytes:
  assumes "8 dvd unat offset" and "j < 8"
  shows "byte_of (nxmt_expected_value seed NXMT_PHASE_NARROW pass offset) j
    = ucast (offset + of_nat j + 8 * pass) XOR byte_of seed j"
proof -
  let ?q = "offset div 8 + pass"
  have q: "8 * ?q = offset + pass * 8"
    using dvd8_offset [OF assms(1)] by (simp add: distrib_left mult.commute)
  have "nxmt_expected_value seed NXMT_PHASE_NARROW pass offset
      = ((8 * ?q) AND 0xff) * 0x0101010101010101 XOR 0x0706050403020100 XOR seed"
    unfolding q by (simp add: nxmt_expected_value_def Let_def)
  also have "\<dots> = word_of_bytes (map (\<lambda>j. ucast (8 * ?q + of_nat j) XOR byte_of seed j) [0..<8])"
    by (rule narrow_word [symmetric])
  finally have "nxmt_expected_value seed NXMT_PHASE_NARROW pass offset
      = word_of_bytes (map (\<lambda>j. ucast (8 * ?q + of_nat j) XOR byte_of seed j) [0..<8])" .
  then have "byte_of (nxmt_expected_value seed NXMT_PHASE_NARROW pass offset) j
      = ucast (8 * ?q + of_nat j) XOR byte_of seed j"
    using assms(2) by (simp only: byte_of_word_of_bytes length_map length_upt) simp
  moreover have "8 * ?q + of_nat j = offset + of_nat j + 8 * pass" unfolding q by simp
  ultimately show ?thesis by (simp only:)
qed

theorem narrow_bytes_witness:
  "byte_of (nxmt_expected_value 7 NXMT_PHASE_NARROW 1 24) 2 = ucast (34 :: u64) XOR byte_of 7 2"
  using narrow_bytes [of 24 2 7 1] by simp

end
