(* ===== verification/Platform.thy ===== *)
theory Platform
  imports Arena
begin

text \<open>
  The memory set-up and the inputs of \<^verbatim>\<open>source/nx/platform_nx.c\<close>.  libnx is not part of the
  repository: what its calls return is the record \<open>Libnx\<close>, a parameter of every definition
  here.  \<open>__libnx_initheap\<close> runs before \<^verbatim>\<open>main\<close> and divides the heap the loader handed over
  between the C runtime and the memory under test; an abort of the process is the left
  case of its result.
\<close>

unbundle bit_operations_syntax

section \<open>What libnx returns\<close>

record Libnx =
  envHasHeapOverride :: bool
  envGetHeapOverrideAddr :: u64
  envGetHeapOverrideSize :: u64
  svcSetHeapSize :: "u64 \<Rightarrow> u32 \<times> u64"
  svcGetInfo_CoreMask :: "u32 \<times> u64"
  envHasRandomSeed :: bool
  envGetRandomSeed :: "u64 \<times> u64"
  armGetSystemTick :: u64
  padGetButtonsDown :: u64

text \<open>The button masks of libnx's \<^verbatim>\<open>hid.h\<close>.\<close>

record Buttons =
  btn_A :: u64
  btn_B :: u64
  btn_X :: u64
  btn_Y :: u64
  btn_Up :: u64
  btn_StickLUp :: u64
  btn_Down :: u64
  btn_StickLDown :: u64
  btn_Plus :: u64

definition R_FAILED :: "u32 \<Rightarrow> bool" where
  "R_FAILED rc \<longleftrightarrow> rc \<noteq> 0"

section \<open>The heap and the test arena\<close>

record HeapState =
  fake_heap_start :: u64
  fake_heap_end :: u64
  g_test_arena_addr :: u64
  g_test_arena_size :: u64

datatype HeapAbort = HeapAllocFailed | SvcFailed u32

definition align_up_uintptr :: "u64 \<Rightarrow> u64 \<Rightarrow> u64 option" where
  "align_up_uintptr value align =
     (let mask = align - 1
      in if value > UINT64_MAX - mask then None else Some ((value + mask) AND NOT mask))"

definition initheap_override :: "u64 \<Rightarrow> u64 \<Rightarrow> HeapState option" where
  "initheap_override raw_start raw_size =
     (case align_up_uintptr raw_start NXMT_PAGE_BYTES of
        None \<Rightarrow> None
      | Some aligned_start \<Rightarrow>
          let prefix = aligned_start - raw_start
          in if raw_size > prefix then
               let usable_size = (raw_size - prefix) AND NOT (NXMT_PAGE_BYTES - 1)
               in if usable_size \<noteq> 0 then
                    let reserve = nxmt_runtime_heap_reserve usable_size AND NOT (NXMT_PAGE_BYTES - 1)
                    in if reserve \<noteq> 0 \<and> usable_size > reserve
                       then Some \<lparr>fake_heap_start = aligned_start,
                                  fake_heap_end = aligned_start + reserve,
                                  g_test_arena_addr = aligned_start + reserve,
                                  g_test_arena_size = usable_size - reserve\<rparr>
                       else Some \<lparr>fake_heap_start = aligned_start,
                                  fake_heap_end = aligned_start + usable_size,
                                  g_test_arena_addr = 0, g_test_arena_size = 0\<rparr>
                  else None
             else None)"

definition libnx_initheap :: "Libnx \<Rightarrow> HeapAbort + HeapState" where
  "libnx_initheap libnx =
     (if envHasHeapOverride libnx then
        (case initheap_override (envGetHeapOverrideAddr libnx) (envGetHeapOverrideSize libnx) of
           Some h \<Rightarrow> Inr h
         | None \<Rightarrow> Inl HeapAllocFailed)
      else
        let heap_size = 32 * NXMT_MIB_BYTES;
            (rc, heap) = svcSetHeapSize libnx heap_size
        in if \<not> R_FAILED rc \<and> heap \<noteq> 0
           then Inr \<lparr>fake_heap_start = heap, fake_heap_end = heap + heap_size,
                     g_test_arena_addr = 0, g_test_arena_size = 0\<rparr>
           else Inl (if R_FAILED rc then SvcFailed rc else HeapAllocFailed))"

section \<open>The memory description\<close>

record NxmtPlatformMemory =
  override_heap_addr :: u64
  override_heap_size :: u64
  physical_pools_total :: u64
  process_total_memory :: u64
  effective_total_memory :: u64
  switch_total_memory :: u64
  effective_total_source :: NxmtMemorySource
  has_heap_override :: bool
  has_physical_pools_total :: bool
  has_process_total_memory :: bool
  has_effective_total :: bool
  has_switch_total :: bool
  pm_extended_memory_detected :: bool

definition nxmt_platform_get_memory :: "Libnx \<Rightarrow> HeapState \<Rightarrow> NxmtPlatformMemory" where
  "nxmt_platform_get_memory libnx h =
     (let override_present = envHasHeapOverride libnx;
          arena_usable = (override_present \<and> g_test_arena_addr h \<noteq> 0 \<and> g_test_arena_size h \<noteq> 0);
          raw_override_heap_size = (if override_present then envGetHeapOverrideSize libnx else 0);
          selected = nxmt_select_launch_safe_memory_total override_present raw_override_heap_size;
          has_total = (m_source selected \<noteq> NXMT_MEMORY_SOURCE_NONE)
      in \<lparr>override_heap_addr = (if arena_usable then g_test_arena_addr h else 0),
          override_heap_size = (if arena_usable then g_test_arena_size h else 0),
          physical_pools_total = 0, process_total_memory = 0,
          effective_total_memory = m_total selected, switch_total_memory = m_total selected,
          effective_total_source = m_source selected,
          has_heap_override = arena_usable,
          has_physical_pools_total = False, has_process_total_memory = False,
          has_effective_total = has_total, has_switch_total = has_total,
          pm_extended_memory_detected = extended_memory_detected selected\<rparr>)"

section \<open>Cores, seed, clock and buttons\<close>

definition nxmt_platform_core_mask :: "Libnx \<Rightarrow> u64" where
  "nxmt_platform_core_mask libnx =
     (let (rc, mask) = svcGetInfo_CoreMask libnx
      in if R_FAILED rc \<or> mask = 0 then 7 else mask)"

definition nxmt_platform_seed64 :: "Libnx \<Rightarrow> u64" where
  "nxmt_platform_seed64 libnx =
     (if envHasRandomSeed libnx
      then fst (envGetRandomSeed libnx) XOR snd (envGetRandomSeed libnx)
      else armGetSystemTick libnx)"

definition nxmt_platform_ticks_ms :: "Libnx \<Rightarrow> u64" where
  "nxmt_platform_ticks_ms libnx = armGetSystemTick libnx div 19200"

record NxmtInput =
  in_a :: bool
  in_b :: bool
  in_x :: bool
  in_y :: bool
  in_up :: bool
  in_down :: bool
  in_plus :: bool

definition nxmt_platform_read_input :: "Buttons \<Rightarrow> Libnx \<Rightarrow> NxmtInput" where
  "nxmt_platform_read_input b libnx =
     (let down = padGetButtonsDown libnx
      in \<lparr>in_a = (down AND btn_A b \<noteq> 0), in_b = (down AND btn_B b \<noteq> 0),
          in_x = (down AND btn_X b \<noteq> 0), in_y = (down AND btn_Y b \<noteq> 0),
          in_up = (down AND (btn_Up b OR btn_StickLUp b) \<noteq> 0),
          in_down = (down AND (btn_Down b OR btn_StickLDown b) \<noteq> 0),
          in_plus = (down AND btn_Plus b \<noteq> 0)\<rparr>)"

definition nxmt_platform_should_quit :: "Buttons \<Rightarrow> Libnx \<Rightarrow> bool" where
  "nxmt_platform_should_quit b libnx = in_plus (nxmt_platform_read_input b libnx)"

section \<open>Where the heap and the arena lie\<close>

lemma align_up_uintptr_eq: "align_up_uintptr = align_up_u64"
  by (simp add: fun_eq_iff align_up_uintptr_def align_up_u64_def)

lemma and_not_page: "unat (v AND NOT (NXMT_PAGE_BYTES - 1)) = unat v div 4096 * 4096"
  using unat_and_not_mask [of v 12] by simp

lemma and_not_page_dvd: "4096 dvd unat v \<Longrightarrow> v AND NOT (NXMT_PAGE_BYTES - 1) = v"
  unfolding word_eq_iff_unat and_not_page by simp

text \<open>
  The usable bytes of a heap range: its whole pages, from the first page boundary on.
\<close>

definition usable_bytes :: "u64 \<Rightarrow> u64 \<Rightarrow> nat \<times> nat" where
  "usable_bytes raw_start raw_size =
     (let lo = (unat raw_start + 4095) div 4096 * 4096
      in (lo, (unat raw_start + unat raw_size - lo) div 4096 * 4096))"

lemma initheap_override_cases:
  assumes fits: "unat raw_start + unat raw_size < 2 ^ 64"
  defines "lo \<equiv> fst (usable_bytes raw_start raw_size)" and "len \<equiv> snd (usable_bytes raw_start raw_size)"
  shows "initheap_override raw_start raw_size = None \<longleftrightarrow> len = 0"
    and "initheap_override raw_start raw_size = Some h \<Longrightarrow>
      unat (fake_heap_start h) = lo \<and> lo + len \<le> unat raw_start + unat raw_size
      \<and> (\<exists>r. 0 < r \<and> r \<le> len \<and> 4096 dvd r \<and> unat (fake_heap_end h) = lo + r
          \<and> (if len < 4 * 1024 * 1024 then r = len \<and> g_test_arena_addr h = 0 \<and> g_test_arena_size h = 0
             else 2 * r \<le> len \<and> unat (g_test_arena_addr h) = lo + r \<and> unat (g_test_arena_size h) = len - r))"
proof -
  have lo: "lo = (unat raw_start + 4095) div 4096 * 4096"
    and len: "len = (unat raw_start + unat raw_size - lo) div 4096 * 4096"
    by (simp_all add: lo_def len_def usable_bytes_def Let_def)
  have lo_ge: "unat raw_start \<le> lo" using page_bounds(1) [of "unat raw_start" "lo div 4096"] by (simp add: lo)
  have none_big: "unat raw_start + 4095 \<ge> 2 ^ 64 \<Longrightarrow> len = 0"
  proof -
    assume "unat raw_start + 4095 \<ge> 2 ^ 64"
    then have "2 ^ 64 \<le> lo" using page_bounds(2) [of "2 ^ 52 - 1" "unat raw_start + 4095"] by (simp add: lo)
    then show "len = 0" using fits by (simp add: len)
  qed
  have key: "(initheap_override raw_start raw_size = None \<longleftrightarrow> len = 0)
    \<and> (\<forall>h. initheap_override raw_start raw_size = Some h \<longrightarrow>
      unat (fake_heap_start h) = lo \<and> lo + len \<le> unat raw_start + unat raw_size
      \<and> (\<exists>r. 0 < r \<and> r \<le> len \<and> 4096 dvd r \<and> unat (fake_heap_end h) = lo + r
          \<and> (if len < 4 * 1024 * 1024 then r = len \<and> g_test_arena_addr h = 0 \<and> g_test_arena_size h = 0
             else 2 * r \<le> len \<and> unat (g_test_arena_addr h) = lo + r \<and> unat (g_test_arena_size h) = len - r)))"
  proof (cases "align_up_u64 raw_start NXMT_PAGE_BYTES")
    case None
    then have "len = 0" using none_big by (simp only: align_up_page)
    with None show ?thesis by (simp add: initheap_override_def align_up_uintptr_eq)
  next
    case (Some a)
    then have a: "unat a = lo" by (simp only: align_up_page lo)
    then have "unat (a - raw_start) = lo - unat raw_start"
      using lo_ge by (simp add: unat_sub word_le_nat_alt)
    note prefix = this
    have more: "raw_size > a - raw_start \<longleftrightarrow> lo < unat raw_start + unat raw_size"
      using lo_ge by (auto simp: word_less_nat_alt prefix)
    define u where "u = (raw_size - (a - raw_start)) AND NOT (NXMT_PAGE_BYTES - 1)"
    define r where "r = nxmt_runtime_heap_reserve u"
    note reserve = heap_reserve_spec [of u, folded r_def]
    have unfold: "initheap_override raw_start raw_size
      = (if raw_size > a - raw_start \<and> u \<noteq> 0
         then Some (if r \<noteq> 0 \<and> u > r
           then \<lparr>fake_heap_start = a, fake_heap_end = a + r, g_test_arena_addr = a + r, g_test_arena_size = u - r\<rparr>
           else \<lparr>fake_heap_start = a, fake_heap_end = a + u, g_test_arena_addr = 0, g_test_arena_size = 0\<rparr>)
         else None)"
    proof -
      have mask_r: "r AND NOT (NXMT_PAGE_BYTES - 1) = r" using reserve by (intro and_not_page_dvd) simp
      show ?thesis
        unfolding initheap_override_def align_up_uintptr_eq Some option.case Let_def
          u_def [symmetric] r_def [symmetric] mask_r
        by auto
    qed
    show ?thesis
    proof (cases "lo < unat raw_start + unat raw_size")
      case False
      with more show ?thesis by (simp add: unfold len)
    next
      case True
      then have "unat (raw_size - (a - raw_start)) = unat raw_start + unat raw_size - lo"
        using lo_ge by (subst unat_sub) (auto simp: word_le_nat_alt prefix)
      then have u: "unat u = len" unfolding u_def and_not_page len by simp
      have sum: "lo + len \<le> unat raw_start + unat raw_size" using True by (simp add: len)
      have dvd: "4096 dvd len" by (simp add: len)
      have big: "r \<noteq> 0 \<and> u > r \<longleftrightarrow> \<not> len < 4 * 1024 * 1024"
        using reserve by (auto simp: u word_less_nat_alt unat_gt_0)
      show ?thesis
      proof (cases "len = 0")
        case True
        with u have "u = 0" by (metis unat_eq_zero)
        with True show ?thesis by (simp add: unfold)
      next
        case False
        then have u0: "u \<noteq> 0" using u by auto
        have e: "unat (a + u) = lo + len" "unat r \<le> len \<Longrightarrow> unat (a + r) = lo + unat r"
          using sum fits a u by (simp_all add: unat_add_small)
        show ?thesis
        proof (cases "len < 4 * 1024 * 1024")
          case True
          then show ?thesis using big more \<open>lo < _\<close> u0 False sum dvd
            by (auto simp: unfold a e intro!: exI [of _ len])
        next
          case big': False
          then have r0: "0 < unat r" "2 * unat r \<le> len" "4096 dvd unat r"
            using reserve u big by (auto simp: unat_gt_0)
          moreover have "unat (u - r) = len - unat r"
            using r0 u by (subst unat_sub) (simp_all add: word_le_nat_alt)
          moreover have "unat (a + r) = lo + unat r" using r0 e(2) by simp
          ultimately show ?thesis using big big' more \<open>lo < _\<close> u0 False sum
            by (auto simp: unfold a intro!: exI [of _ "unat r"])
        qed
      qed
    qed
  qed
  then show "initheap_override raw_start raw_size = None \<longleftrightarrow> len = 0" by blast
  from key show "initheap_override raw_start raw_size = Some h \<Longrightarrow>
      unat (fake_heap_start h) = lo \<and> lo + len \<le> unat raw_start + unat raw_size
      \<and> (\<exists>r. 0 < r \<and> r \<le> len \<and> 4096 dvd r \<and> unat (fake_heap_end h) = lo + r
          \<and> (if len < 4 * 1024 * 1024 then r = len \<and> g_test_arena_addr h = 0 \<and> g_test_arena_size h = 0
             else 2 * r \<le> len \<and> unat (g_test_arena_addr h) = lo + r \<and> unat (g_test_arena_size h) = len - r))"
    by blast
qed

section \<open>The arena under test\<close>

lemma round_up_multiple: "(4096 * q + 4095) div 4096 * 4096 = 4096 * q" for q :: nat
proof -
  have "(q * 4096 + 4095) div 4096 = q + 4095 div 4096" by (rule div_mult_self3) simp
  then show ?thesis by (simp add: mult.commute)
qed

lemma startup_arena:
  assumes fits: "unat (envGetHeapOverrideAddr libnx) + unat (envGetHeapOverrideSize libnx) < 2 ^ 64"
    and present: "envHasHeapOverride libnx" and heap: "libnx_initheap libnx = Inr h"
  shows "(has_heap_override (nxmt_platform_get_memory libnx h)
        \<longleftrightarrow> 4 * 1024 * 1024 \<le> snd (usable_bytes (envGetHeapOverrideAddr libnx) (envGetHeapOverrideSize libnx)))
    \<and> (has_heap_override (nxmt_platform_get_memory libnx h) \<longrightarrow>
        nxmt_arena_from_range (override_heap_addr (nxmt_platform_get_memory libnx h))
            (override_heap_size (nxmt_platform_get_memory libnx h))
          = \<lparr>a_base = g_test_arena_addr h, a_size = g_test_arena_size h,
             a_words = g_test_arena_size h div NXMT_WORD_BYTES\<rparr>)"
proof -
  obtain lo len where u: "usable_bytes (envGetHeapOverrideAddr libnx) (envGetHeapOverrideSize libnx) = (lo, len)"
    by fastforce
  have lo: "4096 dvd lo" "4096 dvd len" using u by (auto simp: usable_bytes_def Let_def)
  from heap present have some: "initheap_override (envGetHeapOverrideAddr libnx) (envGetHeapOverrideSize libnx) = Some h"
    by (simp add: libnx_initheap_def split: option.splits)
  note cases = initheap_override_cases(2) [OF fits some, unfolded u fst_conv snd_conv]
  have sum: "lo + len < 2 ^ 64" using cases fits by linarith
  from cases obtain r where r: "0 < r" "r \<le> len" "4096 dvd r"
    and h: "if len < 4 * 1024 * 1024 then r = len \<and> g_test_arena_addr h = 0 \<and> g_test_arena_size h = 0
      else 2 * r \<le> len \<and> unat (g_test_arena_addr h) = lo + r \<and> unat (g_test_arena_size h) = len - r"
    by blast
  show ?thesis
  proof (cases "len < 4 * 1024 * 1024")
    case True
    with h u present show ?thesis by (simp add: nxmt_platform_get_memory_def Let_def)
  next
    case False
    with h have a: "2 * r \<le> len" "unat (g_test_arena_addr h) = lo + r" "unat (g_test_arena_size h) = len - r"
      by simp_all
    let ?b = "g_test_arena_addr h" and ?s = "g_test_arena_size h"
    have "unat ?b \<noteq> 0" "unat ?s \<noteq> 0" using a r by simp_all
    then have nz: "?b \<noteq> 0" "?s \<noteq> 0" by auto
    obtain x y z where xyz: "lo = 4096 * x" "len = 4096 * y" "r = 4096 * z"
      using lo r(3) by (auto simp: dvd_def)
    have up: "(unat ?b + 4095) div 4096 * 4096 = unat ?b"
      unfolding a xyz distrib_left [symmetric] by (rule round_up_multiple)
    have down: "(unat ?b + unat ?s) div 4096 * 4096 = unat ?b + unat ?s"
      using a r(2) by (simp add: xyz)
    from arena_from_range_cases [of ?b ?s] a r nz sum
    have "unat (a_base (nxmt_arena_from_range ?b ?s)) = unat ?b"
      "unat (a_size (nxmt_arena_from_range ?b ?s)) = unat ?s"
      "unat (a_words (nxmt_arena_from_range ?b ?s)) = unat ?s div 8"
      unfolding up down by auto
    then have "nxmt_arena_from_range ?b ?s = \<lparr>a_base = ?b, a_size = ?s, a_words = ?s div 8\<rparr>"
      by (cases "nxmt_arena_from_range ?b ?s") (simp add: word_eq_iff_unat unat_div)
    with nz False u present show ?thesis
      by (simp add: nxmt_platform_get_memory_def Let_def)
  qed
qed

lemma startup_pages:
  assumes fits: "unat (envGetHeapOverrideAddr libnx) + unat (envGetHeapOverrideSize libnx) < 2 ^ 64"
    and present: "envHasHeapOverride libnx" and heap: "libnx_initheap libnx = Inr h"
  shows "4096 dvd unat (g_test_arena_addr h) \<and> 4096 dvd unat (g_test_arena_size h)"
proof -
  obtain lo len where u: "usable_bytes (envGetHeapOverrideAddr libnx) (envGetHeapOverrideSize libnx) = (lo, len)"
    by fastforce
  have lo: "4096 dvd lo" "4096 dvd len" using u by (auto simp: usable_bytes_def Let_def)
  from heap present have some: "initheap_override (envGetHeapOverrideAddr libnx) (envGetHeapOverrideSize libnx) = Some h"
    by (simp add: libnx_initheap_def split: option.splits)
  from initheap_override_cases(2) [OF fits some, unfolded u fst_conv snd_conv] lo show ?thesis
    by (auto split: if_splits)
qed

section \<open>Properties\<close>

text \<open>
  Property C28.  Start-up with a heap override that does not run past the end of the address
  space aborts exactly when the override has no whole page; otherwise the runtime heap and
  the test arena are adjacent, page aligned and inside the override: below 4 MiB of whole
  pages everything goes to the heap and there is no arena, from there on the arena gets at
  least half and every whole page belongs to one of the two.
\<close>

theorem startup_divides_heap:
  assumes present: "envHasHeapOverride libnx"
    and fits: "unat (envGetHeapOverrideAddr libnx) + unat (envGetHeapOverrideSize libnx) < 2 ^ 64"
  shows "case usable_bytes (envGetHeapOverrideAddr libnx) (envGetHeapOverrideSize libnx) of (lo, len) \<Rightarrow>
    (case libnx_initheap libnx of
       Inl e \<Rightarrow> e = HeapAllocFailed \<and> len = 0
     | Inr h \<Rightarrow> unat (fake_heap_start h) = lo
         \<and> lo + len \<le> unat (envGetHeapOverrideAddr libnx) + unat (envGetHeapOverrideSize libnx)
         \<and> (\<exists>r. 0 < r \<and> r \<le> len \<and> 4096 dvd r \<and> unat (fake_heap_end h) = lo + r
             \<and> (if len < 4 * 1024 * 1024
                then r = len \<and> g_test_arena_addr h = 0 \<and> g_test_arena_size h = 0
                else 2 * r \<le> len \<and> unat (g_test_arena_addr h) = lo + r
                  \<and> unat (g_test_arena_size h) = len - r)))"
proof (cases "initheap_override (envGetHeapOverrideAddr libnx) (envGetHeapOverrideSize libnx)")
  case None
  with initheap_override_cases(1) [OF fits] present show ?thesis
    by (simp add: libnx_initheap_def split_def)
next
  case (Some h)
  with initheap_override_cases(2) [OF fits Some] present show ?thesis
    by (simp add: libnx_initheap_def split_def)
qed

definition demo_libnx :: Libnx where
  "demo_libnx = \<lparr>envHasHeapOverride = True, envGetHeapOverrideAddr = 0x8000100, envGetHeapOverrideSize = 0x1000000,
     svcSetHeapSize = (\<lambda>_. (1, 0)), svcGetInfo_CoreMask = (0, 7), envHasRandomSeed = False,
     envGetRandomSeed = (0, 0), armGetSystemTick = 0, padGetButtonsDown = 0\<rparr>"

lemma demo_libnx_usable:
  "usable_bytes (envGetHeapOverrideAddr demo_libnx) (envGetHeapOverrideSize demo_libnx) = (0x8001000, 0xfff000)"
  by (simp add: demo_libnx_def usable_bytes_def Let_def)

theorem startup_divides_heap_witness:
  "\<exists>h. libnx_initheap demo_libnx = Inr h \<and> unat (fake_heap_start h) = 0x8001000
    \<and> fake_heap_end h = g_test_arena_addr h"
proof -
  have "envHasHeapOverride demo_libnx"
    "unat (envGetHeapOverrideAddr demo_libnx) + unat (envGetHeapOverrideSize demo_libnx) < 2 ^ 64"
    by (simp_all add: demo_libnx_def)
  from startup_divides_heap [OF this] show ?thesis
    unfolding demo_libnx_usable prod.case
    by (auto simp: word_eq_iff_unat split: sum.splits)
qed

text \<open>
  Property C27.  From the loader to the arena under test: when \<open>main\<close> finds an override heap,
  the arena it computes from it is the whole test arena set apart at start-up, and it finds
  one exactly when the override has at least 4 MiB of whole pages.
\<close>

theorem arena_from_startup:
  assumes fits: "unat (envGetHeapOverrideAddr libnx) + unat (envGetHeapOverrideSize libnx) < 2 ^ 64"
    and present: "envHasHeapOverride libnx" and heap: "libnx_initheap libnx = Inr h"
  shows "(has_heap_override (nxmt_platform_get_memory libnx h)
        \<longleftrightarrow> 4 * 1024 * 1024 \<le> snd (usable_bytes (envGetHeapOverrideAddr libnx) (envGetHeapOverrideSize libnx)))
    \<and> (has_heap_override (nxmt_platform_get_memory libnx h) \<longrightarrow>
        nxmt_arena_from_range (override_heap_addr (nxmt_platform_get_memory libnx h))
            (override_heap_size (nxmt_platform_get_memory libnx h))
          = \<lparr>a_base = g_test_arena_addr h, a_size = g_test_arena_size h,
             a_words = g_test_arena_size h div NXMT_WORD_BYTES\<rparr>)"
  by (rule startup_arena [OF assms])

theorem arena_from_startup_witness:
  "\<exists>h. libnx_initheap demo_libnx = Inr h \<and> has_heap_override (nxmt_platform_get_memory demo_libnx h)"
proof -
  have 1: "envHasHeapOverride demo_libnx"
    "unat (envGetHeapOverrideAddr demo_libnx) + unat (envGetHeapOverrideSize demo_libnx) < 2 ^ 64"
    by (simp_all add: demo_libnx_def)
  have "initheap_override (envGetHeapOverrideAddr demo_libnx) (envGetHeapOverrideSize demo_libnx) \<noteq> None"
    using initheap_override_cases(1) [OF 1(2)] by (simp add: demo_libnx_usable)
  then obtain h where "libnx_initheap demo_libnx = Inr h" using 1(1) by (auto simp: libnx_initheap_def)
  moreover from this arena_from_startup [OF 1(2,1)] demo_libnx_usable
  have "has_heap_override (nxmt_platform_get_memory demo_libnx h)" by simp
  ultimately show ?thesis by blast
qed

end
