(* ===== verification/Deko.thy ===== *)
theory Deko
  imports Memory
begin

text \<open>
  What \<^verbatim>\<open>source/nx/gpu_pump.c\<close> and \<^verbatim>\<open>source/nx/gpu_bench.c\<close> share: the deko3d objects they
  create over slices of the arena and destroy again.  deko3d is not in the repository: the
  results of its calls are the record \<open>Deko\<close>, a parameter.  The state keeps the handles (zero
  is \<^verbatim>\<open>NULL\<close>), the flag the error callback sets, the memory, and a trace of the objects
  created and destroyed, over which \<open>live_after\<close> states the discipline the library demands:
  an object is destroyed once and while it is alive, and the device outlives everything
  created on it.
\<close>

unbundle bit_operations_syntax

section \<open>Objects, results of calls, state\<close>

datatype DkObject =
    DkDevice | DkCmdMem | DkShaderMem | DkResultMem | DkCmdBuf | DkSrc | DkDst | DkQueue

text \<open>A created object comes with its storage and its size; both are zero where it has none.\<close>

datatype DkEvent =
    DkCreate DkObject u64 u64 | DkDestroy DkObject | DkWaitIdle

record Deko =
  dk_handle_of :: "DkObject \<Rightarrow> u64"
  dk_fails_in :: "DkObject \<Rightarrow> bool"
  dk_fails_recording :: bool

record DkState =
  dk_handle :: "DkObject \<Rightarrow> u64"
  dk_error_seen :: bool
  dk_trace :: "DkEvent list"
  dk_mem :: mem

definition dk_create :: "'b Deko_scheme \<Rightarrow> DkObject \<Rightarrow> u64 \<Rightarrow> u64 \<Rightarrow> 'a DkState_scheme \<Rightarrow> 'a DkState_scheme" where
  "dk_create dk obj storage sz s =
     (let h = dk_handle_of dk obj
      in s\<lparr>dk_handle := (dk_handle s)(obj := h),
           dk_error_seen := dk_error_seen s \<or> dk_fails_in dk obj,
           dk_trace := (if h \<noteq> 0 then dk_trace s @ [DkCreate obj storage sz] else dk_trace s)\<rparr>)"

text \<open>Destroying an object through a handle that may be \<^verbatim>\<open>NULL\<close>, and clearing the handle.\<close>

definition dk_destroy :: "DkObject \<Rightarrow> 'a DkState_scheme \<Rightarrow> 'a DkState_scheme" where
  "dk_destroy obj s =
     (if dk_handle s obj \<noteq> 0
      then s\<lparr>dk_handle := (dk_handle s)(obj := 0), dk_trace := dk_trace s @ [DkDestroy obj]\<rparr>
      else s)"

definition dk_wait_idle :: "'a DkState_scheme \<Rightarrow> 'a DkState_scheme" where
  "dk_wait_idle s = s\<lparr>dk_trace := dk_trace s @ [DkWaitIdle]\<rparr>"

section \<open>The discipline\<close>

text \<open>The objects alive after a trace, or \<open>None\<close> when the trace breaks the discipline.\<close>

fun live_after :: "DkObject set \<Rightarrow> DkEvent list \<Rightarrow> DkObject set option" where
  "live_after L [] = Some L"
| "live_after L (DkCreate obj storage sz # es) =
     (if obj \<in> L \<or> (obj \<noteq> DkDevice \<and> DkDevice \<notin> L) then None else live_after (insert obj L) es)"
| "live_after L (DkDestroy obj # es) =
     (if obj \<notin> L \<or> (obj = DkDevice \<and> L \<noteq> {DkDevice}) then None else live_after (L - {obj}) es)"
| "live_after L (DkWaitIdle # es) = (if DkQueue \<notin> L then None else live_after L es)"

lemma live_after_append:
  "live_after L (es @ fs) = (case live_after L es of None \<Rightarrow> None | Some M \<Rightarrow> live_after M fs)"
  by (induction L es rule: live_after.induct) auto

text \<open>The state agrees with its trace: the objects with a handle are the live ones.\<close>

definition owned :: "'a DkState_scheme \<Rightarrow> bool" where
  "owned s \<longleftrightarrow> live_after {} (dk_trace s) = Some {obj. dk_handle s obj \<noteq> 0}"

lemma owned_create:
  assumes "owned s" and "dk_handle s obj = 0" and "obj = DkDevice \<or> dk_handle s DkDevice \<noteq> 0"
  shows "owned (dk_create dk obj storage sz s)"
proof (cases "dk_handle_of dk obj = 0")
  case True
  with assms show ?thesis by (auto simp: owned_def dk_create_def fun_upd_idem)
next
  case False
  then have "insert obj {o'. dk_handle s o' \<noteq> 0} = {o'. ((dk_handle s)(obj := dk_handle_of dk obj)) o' \<noteq> 0}"
    by auto
  with assms False show ?thesis by (auto simp: owned_def dk_create_def live_after_append Let_def)
qed

lemma owned_destroy:
  assumes "owned s" and "obj = DkDevice \<Longrightarrow> \<forall>o'. o' \<noteq> DkDevice \<longrightarrow> dk_handle s o' = 0"
  shows "owned (dk_destroy obj s)"
proof (cases "dk_handle s obj = 0")
  case True
  with assms show ?thesis by (simp add: dk_destroy_def)
next
  case False
  have "{o'. dk_handle s o' \<noteq> 0} - {obj} = {o'. ((dk_handle s)(obj := 0)) o' \<noteq> 0}" by auto
  moreover have "obj = DkDevice \<Longrightarrow> {o'. dk_handle s o' \<noteq> 0} = {DkDevice}" using assms(2) False by auto
  ultimately show ?thesis
    using assms(1) False by (auto simp: owned_def dk_destroy_def live_after_append)
qed

lemma owned_wait_idle: "owned s \<Longrightarrow> dk_handle s DkQueue \<noteq> 0 \<Longrightarrow> owned (dk_wait_idle s)"
  by (simp add: owned_def dk_wait_idle_def live_after_append)

lemma create_fields [simp]:
  "dk_handle (dk_create dk obj storage sz s) = (dk_handle s)(obj := dk_handle_of dk obj)"
  "dk_mem (dk_create dk obj storage sz s) = dk_mem s"
  "dk_error_seen (dk_create dk obj storage sz s) = (dk_error_seen s \<or> dk_fails_in dk obj)"
  by (simp_all add: dk_create_def Let_def)

lemma destroy_fields [simp]:
  "dk_handle (dk_destroy obj s) = (dk_handle s)(obj := 0)"
  "dk_mem (dk_destroy obj s) = dk_mem s"
  "dk_error_seen (dk_destroy obj s) = dk_error_seen s"
  by (simp_all add: dk_destroy_def fun_upd_idem)

lemma wait_idle_fields [simp]:
  "dk_handle (dk_wait_idle s) = dk_handle s" "dk_mem (dk_wait_idle s) = dk_mem s"
  "dk_error_seen (dk_wait_idle s) = dk_error_seen s"
  by (simp_all add: dk_wait_idle_def)

lemma owned_cong: "dk_handle s' = dk_handle s \<Longrightarrow> dk_trace s' = dk_trace s \<Longrightarrow> owned s' = owned s"
  by (simp add: owned_def)

section \<open>Creating a list of objects\<close>

text \<open>
  The create-and-test sequences of the source: each object in turn, over its storage, until
  one is \<^verbatim>\<open>NULL\<close>; the result says whether all were created.
\<close>

fun dk_create_all :: "'b Deko_scheme \<Rightarrow> (DkObject \<times> u64 \<times> u64) list \<Rightarrow> 'a DkState_scheme \<Rightarrow> bool \<times> 'a DkState_scheme" where
  "dk_create_all dk [] s = (True, s)"
| "dk_create_all dk ((obj, storage, sz) # plan) s =
     (let s = dk_create dk obj storage sz s
      in if dk_handle s obj = 0 then (False, s) else dk_create_all dk plan s)"

lemma owned_create_all:
  assumes "owned s" and "dk_handle s DkDevice \<noteq> 0" and "distinct (map fst plan)"
    and "\<And>obj. obj \<in> fst ` set plan \<Longrightarrow> dk_handle s obj = 0"
  shows "owned (snd (dk_create_all dk plan s))
    \<and> (\<forall>obj. obj \<notin> fst ` set plan \<longrightarrow> dk_handle (snd (dk_create_all dk plan s)) obj = dk_handle s obj)"
  using assms
proof (induction plan arbitrary: s)
  case (Cons x plan)
  obtain obj storage sz where x: "x = (obj, storage, sz)" by (cases x)
  have free: "dk_handle s obj = 0" using Cons.prems(4) x by simp
  then have ne: "obj \<noteq> DkDevice" using Cons.prems(2) by auto
  let ?s = "dk_create dk obj storage sz s"
  have own: "owned ?s" using Cons.prems free by (intro owned_create) auto
  show ?case
  proof (cases "dk_handle_of dk obj = 0")
    case True
    then show ?thesis using own x by simp
  next
    case False
    have "owned (snd (dk_create_all dk plan ?s))
      \<and> (\<forall>o'. o' \<notin> fst ` set plan \<longrightarrow> dk_handle (snd (dk_create_all dk plan ?s)) o' = dk_handle ?s o')"
    proof (rule Cons.IH [OF own])
      show "dk_handle ?s DkDevice \<noteq> 0" using Cons.prems(2) ne by simp
      show "distinct (map fst plan)" using Cons.prems(3) by simp
      show "dk_handle ?s o' = 0" if "o' \<in> fst ` set plan" for o'
        using that Cons.prems(3,4) x by auto
    qed
    then show ?thesis using False x by simp
  qed
qed simp

lemma create_all_mem [simp]: "dk_mem (snd (dk_create_all dk plan s)) = dk_mem s"
  by (induction dk plan s rule: dk_create_all.induct) (simp_all add: Let_def)

lemma create_all_error:
  "dk_error_seen (snd (dk_create_all dk plan s)) \<longrightarrow> dk_error_seen s \<or> (\<exists>obj \<in> fst ` set plan. dk_fails_in dk obj)"
  by (induction dk plan s rule: dk_create_all.induct) (auto simp: Let_def)

lemma create_all_ok:
  "fst (dk_create_all dk plan s) \<longleftrightarrow> (\<forall>obj \<in> fst ` set plan. dk_handle_of dk obj \<noteq> 0)"
  by (induction dk plan s rule: dk_create_all.induct) (auto simp: Let_def)

section \<open>Layout of a storage block\<close>

text \<open>A plan lies in a storage block of a given size, page by page and without overlap.\<close>

definition pages_in_order :: "u64 \<Rightarrow> nat \<Rightarrow> (u64 \<times> u64) list \<Rightarrow> bool" where
  "pages_in_order base sz blocks \<longleftrightarrow>
     sorted_wrt (\<lambda>(a, n) (b, k). unat (a - base) + unat n \<le> unat (b - base)) blocks
     \<and> list_all (\<lambda>(a, n). 4096 dvd unat (a - base) \<and> 4096 dvd unat n \<and> unat (a - base) + unat n \<le> sz) blocks"

end
