(* ===== verification/Gpu_Pump.thy ===== *)
theory Gpu_Pump
  imports Deko Chunk_Write Platform
begin

text \<open>
  \<^verbatim>\<open>source/nx/gpu_pump.c\<close> and its shader \<^verbatim>\<open>source/nx/gpu_verify.glsl\<close>: a thread that copies one
  half of a storage block over the other on the GPU, in batches, and lets a compute shader
  compare the halves after each batch.  \<open>PumpGlobals\<close> are the file's static variables, over
  the deko3d state; \<open>PumpEnv\<close> is what the code does not determine: the results of deko3d, of
  \<^verbatim>\<open>malloc\<close> and of the thread calls, the embedded shader file, the stop flag at each test, and
  what the submitted copies of a batch leave in memory.
\<close>

unbundle bit_operations_syntax

section \<open>Constants, state and environment\<close>

definition NXMT_GPU_PUMP_CMD_BYTES :: u64 where "NXMT_GPU_PUMP_CMD_BYTES = 64 * 1024"
definition NXMT_GPU_PUMP_SHADER_BYTES :: u64 where "NXMT_GPU_PUMP_SHADER_BYTES = 16 * 1024"
definition NXMT_GPU_PUMP_RESULT_BYTES :: u64 where "NXMT_GPU_PUMP_RESULT_BYTES = 4 * 1024"
definition NXMT_GPU_PUMP_PREAMBLE_BYTES :: u64 where
  "NXMT_GPU_PUMP_PREAMBLE_BYTES
     = NXMT_GPU_PUMP_CMD_BYTES + NXMT_GPU_PUMP_SHADER_BYTES + NXMT_GPU_PUMP_RESULT_BYTES"
definition NXMT_GPU_PUMP_BATCH :: u64 where "NXMT_GPU_PUMP_BATCH = 8"
definition NXMT_GPU_PUMP_LOCAL_X :: u32 where "NXMT_GPU_PUMP_LOCAL_X = 256"
definition NXMT_GPU_PUMP_BYTES_PER_INVOCATION :: u64 where "NXMT_GPU_PUMP_BYTES_PER_INVOCATION = 16"

lemmas pump_constants =
  NXMT_GPU_PUMP_CMD_BYTES_def NXMT_GPU_PUMP_SHADER_BYTES_def NXMT_GPU_PUMP_RESULT_BYTES_def
  NXMT_GPU_PUMP_PREAMBLE_BYTES_def NXMT_GPU_PUMP_BATCH_def NXMT_GPU_PUMP_LOCAL_X_def
  NXMT_GPU_PUMP_BYTES_PER_INVOCATION_def

text \<open>The three counters are behind pointers that may be \<^verbatim>\<open>NULL\<close>.\<close>

record PumpGlobals = DkState +
  g_pump_storage_base :: u64
  g_pump_buffer_bytes :: u64
  g_pump_seed :: u64
  g_pump_shader_ctrl :: "u8 list option"
  g_pump_init_done :: bool
  g_pump_init_failed :: bool
  g_pump_progress :: "u64 option"
  g_pump_errors :: "u64 option"
  g_pump_verified :: "u64 option"

record PumpEnv = Deko +
  gpu_verify_dksh :: "u8 list"
  pump_malloc :: "u32 \<Rightarrow> u64"
  pump_neon :: bool
  pump_copies :: "nat \<Rightarrow> u64 \<Rightarrow> u64 \<Rightarrow> u32 \<Rightarrow> mem \<Rightarrow> mem"
  pump_fails_in_batch :: "nat \<Rightarrow> bool"
  pump_stop :: "nat \<Rightarrow> bool"
  pump_threadCreate :: u32
  pump_threadStart :: u32
  pump_done_at_poll :: "nat \<Rightarrow> bool"
  pump_failed_late :: bool

section \<open>Words of 32 bits and byte copies\<close>

definition load32 :: "mem \<Rightarrow> u64 \<Rightarrow> u32" where
  "load32 m a = ucast (word_of_bytes (map (\<lambda>i. m (a + of_nat i)) [0..<4]))"

definition store32 :: "mem \<Rightarrow> u64 \<Rightarrow> u32 \<Rightarrow> mem" where
  "store32 m a w = (\<lambda>x. if x - a < 4 then byte_of (ucast w) (unat (x - a)) else m x)"

text \<open>\<^verbatim>\<open>memcpy(p, bs, n)\<close> from a constant array.\<close>

definition memcpy_bytes :: "mem \<Rightarrow> u64 \<Rightarrow> u8 list \<Rightarrow> mem" where
  "memcpy_bytes m p bs = fst (for_by 1 0 (length bs) (\<lambda>i m. store8 m (p + of_nat i) (bs ! i)) m)"

definition align_page :: "u64 \<Rightarrow> u64" where
  "align_page sz = (sz + NXMT_PAGE_BYTES - 1) AND NOT (NXMT_PAGE_BYTES - 1)"

section \<open>The shader file\<close>

record DkshHeader =
  dksh_magic :: u32
  dksh_header_sz :: u32
  dksh_control_sz :: u32
  dksh_code_sz :: u32
  dksh_programs_off :: u32
  dksh_num_programs :: u32

definition le32 :: "u8 list \<Rightarrow> nat \<Rightarrow> u32" where
  "le32 bs off = ucast (word_of_bytes (take 4 (drop off bs)))"

definition dksh_header :: "u8 list \<Rightarrow> DkshHeader" where
  "dksh_header bs = \<lparr>dksh_magic = le32 bs 0, dksh_header_sz = le32 bs 4, dksh_control_sz = le32 bs 8,
     dksh_code_sz = le32 bs 12, dksh_programs_off = le32 bs 16, dksh_num_programs = le32 bs 20\<rparr>"

definition pump_load_shader ::
    "'b PumpEnv_scheme \<Rightarrow> u64 \<Rightarrow> u64 \<Rightarrow> PumpGlobals \<Rightarrow> bool \<times> PumpGlobals" where
  "pump_load_shader env shader_code_storage shader_code_max s =
     (let blob = gpu_verify_dksh env
      in if length blob < 24 then (False, s)
         else
           let hdr = dksh_header blob
           in if unat (dksh_code_sz hdr) > unat shader_code_max then (False, s)
              else if unat (dksh_control_sz hdr) + unat (dksh_code_sz hdr) > length blob then (False, s)
              else if pump_malloc env (dksh_control_sz hdr) = 0 then (False, s)
              else
                let control = unat (dksh_control_sz hdr);
                    code = take (unat (dksh_code_sz hdr)) (drop control blob)
                in (True, s\<lparr>dk_mem := memcpy_bytes (dk_mem s) shader_code_storage code,
                            g_pump_shader_ctrl := Some (take control blob)\<rparr>))"

section \<open>The source pattern\<close>

definition pump_fill_src_pattern :: "bool \<Rightarrow> mem \<Rightarrow> u64 \<Rightarrow> u64 \<Rightarrow> u64 \<Rightarrow> mem" where
  "pump_fill_src_pattern neon m p bytes seed =
     (let n = unat (bytes div 8);
          (m, k) =
        (if neon
         then let step4 = vdupq_n_u64 32;
                  seed2 = vdupq_n_u64 seed;
                  off01 = vsetq_lane_u64 8 (vdupq_n_u64 0) 1;
                  off23 = vsetq_lane_u64 24 (vdupq_n_u64 16) 1;
                  (vs, k) = for_by 4 0 n
                    (\<lambda>k (m, off01, off23).
                       let m = vst1q_u64 m (widx p k) (veorq_u64 off01 seed2);
                           m = vst1q_u64 m (widx p (k + 2)) (veorq_u64 off23 seed2)
                       in (m, vaddq_u64 off01 step4, vaddq_u64 off23 step4))
                    (m, off01, off23)
              in (fst vs, k)
         else (m, 0))
      in fst (for_by 1 k n (\<lambda>k m. store64 m (widx p k) ((of_nat k * 8) XOR seed)) m))"

section \<open>Setup and teardown\<close>

text \<open>The objects made over the storage block, in the order of their creation.\<close>

definition pump_blocks :: "u64 \<Rightarrow> u64 \<Rightarrow> (DkObject \<times> u64 \<times> u64) list" where
  "pump_blocks bp buffer_aligned =
     (let shader_storage = bp + NXMT_GPU_PUMP_CMD_BYTES;
          result_storage = shader_storage + NXMT_GPU_PUMP_SHADER_BYTES;
          src_storage = bp + NXMT_GPU_PUMP_PREAMBLE_BYTES;
          dst_storage = src_storage + buffer_aligned;
          sz = ucast (ucast buffer_aligned :: u32)
      in [(DkCmdMem, bp, NXMT_GPU_PUMP_CMD_BYTES), (DkShaderMem, shader_storage, NXMT_GPU_PUMP_SHADER_BYTES),
          (DkResultMem, result_storage, NXMT_GPU_PUMP_RESULT_BYTES), (DkCmdBuf, 0, 0),
          (DkSrc, src_storage, sz), (DkDst, dst_storage, sz)])"

definition pump_src :: "PumpGlobals \<Rightarrow> u64" where
  "pump_src s = g_pump_storage_base s + NXMT_GPU_PUMP_PREAMBLE_BYTES"

definition pump_result :: "PumpGlobals \<Rightarrow> u64" where
  "pump_result s = g_pump_storage_base s + NXMT_GPU_PUMP_CMD_BYTES + NXMT_GPU_PUMP_SHADER_BYTES"

definition pump_setup :: "'b PumpEnv_scheme \<Rightarrow> u64 \<Rightarrow> PumpGlobals \<Rightarrow> bool \<times> PumpGlobals" where
  "pump_setup env buffer_aligned s =
     (let s = dk_create env DkDevice 0 0 s
      in if dk_handle s DkDevice = 0 \<or> dk_error_seen s then (False, s)
         else
           let (ok, s) = dk_create_all env (pump_blocks (g_pump_storage_base s) buffer_aligned) s
           in if \<not> ok then (False, s)
              else if dk_error_seen s then (False, s)
              else
                let s = s\<lparr>dk_mem := pump_fill_src_pattern (pump_neon env) (dk_mem s) (pump_src s)
                                     buffer_aligned (g_pump_seed s)\<rparr>;
                    (ok, s) = pump_load_shader env (g_pump_storage_base s + NXMT_GPU_PUMP_CMD_BYTES)
                                NXMT_GPU_PUMP_SHADER_BYTES s
                in if \<not> ok then (False, s)
                   else
                     let s = s\<lparr>dk_mem := store32 (dk_mem s) (pump_result s) 0,
                               dk_error_seen := dk_error_seen s \<or> dk_fails_recording env\<rparr>;
                         s = dk_create env DkQueue 0 0 s
                     in if dk_handle s DkQueue = 0 then (False, s)
                        else if dk_error_seen s then (False, s)
                        else (True, s))"

definition pump_teardown :: "PumpGlobals \<Rightarrow> PumpGlobals" where
  "pump_teardown s =
     (let s = (if dk_handle s DkQueue \<noteq> 0 then dk_destroy DkQueue (dk_wait_idle s) else s);
          s = dk_destroy DkDst s;
          s = dk_destroy DkSrc s;
          s = dk_destroy DkCmdBuf s;
          s = dk_destroy DkResultMem s;
          s = dk_destroy DkShaderMem s;
          s = dk_destroy DkCmdMem s;
          s = dk_destroy DkDevice s
      in s\<lparr>g_pump_shader_ctrl := None\<rparr>)"

section \<open>The shader and the recorded commands\<close>

text \<open>
  \<^verbatim>\<open>main\<close> of the shader: one invocation compares one element of four 32-bit components.  A
  dispatch runs it for every invocation of its work groups; the invocations only set the same
  bit of the result word, so their order does not matter.
\<close>

definition uvec4_diff :: "mem \<Rightarrow> u64 \<Rightarrow> u64 \<Rightarrow> nat \<Rightarrow> u32" where
  "uvec4_diff m src dst idx =
     (let diff = (\<lambda>j. load32 m (src + of_nat (16 * idx + 4 * j)) XOR load32 m (dst + of_nat (16 * idx + 4 * j)))
      in diff 0 OR diff 1 OR diff 2 OR diff 3)"

definition gpu_verify_main :: "u64 \<Rightarrow> u64 \<Rightarrow> u64 \<Rightarrow> nat \<Rightarrow> mem \<Rightarrow> mem" where
  "gpu_verify_main src dst result idx m =
     (if uvec4_diff m src dst idx \<noteq> 0 then store32 m result (load32 m result OR 1) else m)"

record PumpCommands =
  copy_bytes :: u32
  num_groups :: u32

definition pump_commands :: "u64 \<Rightarrow> PumpCommands" where
  "pump_commands buffer_aligned =
     (let invocations = ucast (buffer_aligned div NXMT_GPU_PUMP_BYTES_PER_INVOCATION) :: u32
      in \<lparr>copy_bytes = ucast buffer_aligned, num_groups = invocations div NXMT_GPU_PUMP_LOCAL_X\<rparr>)"

definition dispatch_verify :: "u32 \<Rightarrow> u64 \<Rightarrow> u64 \<Rightarrow> u64 \<Rightarrow> mem \<Rightarrow> mem" where
  "dispatch_verify groups src dst result m =
     fst (for_by 1 0 (unat groups * unat NXMT_GPU_PUMP_LOCAL_X) (gpu_verify_main src dst result) m)"

section \<open>The pump thread\<close>

definition pump_batch :: "'b PumpEnv_scheme \<Rightarrow> u64 \<Rightarrow> nat \<Rightarrow> PumpGlobals \<Rightarrow> PumpGlobals" where
  "pump_batch env buffer_aligned n s =
     (let src = pump_src s; dst = src + buffer_aligned; result = pump_result s;
          cmds = pump_commands buffer_aligned;
          per_iter_traffic = buffer_aligned * 2;
          s = s\<lparr>dk_mem := store32 (dk_mem s) result 0\<rparr>;
          s = s\<lparr>dk_mem := dispatch_verify (num_groups cmds) src dst result
                  (pump_copies env n src dst (copy_bytes cmds) (dk_mem s)),
                dk_error_seen := dk_error_seen s \<or> pump_fails_in_batch env n\<rparr>;
          s = dk_wait_idle s
      in s\<lparr>g_pump_progress := map_option (\<lambda>c. c + per_iter_traffic * NXMT_GPU_PUMP_BATCH) (g_pump_progress s),
           g_pump_verified := map_option (\<lambda>c. c + 1) (g_pump_verified s),
           g_pump_errors := map_option (\<lambda>c. if load32 (dk_mem s) result \<noteq> 0 then c + 1 else c) (g_pump_errors s)\<rparr>)"

partial_function (option) pump_loop ::
    "'b PumpEnv_scheme \<Rightarrow> u64 \<Rightarrow> nat \<Rightarrow> PumpGlobals \<Rightarrow> PumpGlobals option" where
  "pump_loop env buffer_aligned n s =
     (if \<not> pump_stop env n \<and> \<not> dk_error_seen s
      then pump_loop env buffer_aligned (n + 1) (pump_batch env buffer_aligned n s)
      else Some s)"

definition pump_thread_entry :: "'b PumpEnv_scheme \<Rightarrow> PumpGlobals \<Rightarrow> PumpGlobals option" where
  "pump_thread_entry env s =
     (let buffer_aligned = align_page (g_pump_buffer_bytes s);
          (ok, s) = pump_setup env buffer_aligned s
      in if \<not> ok
         then Some ((pump_teardown s)\<lparr>g_pump_init_failed := True, g_pump_init_done := True\<rparr>)
         else case pump_loop env buffer_aligned 0 (s\<lparr>g_pump_init_done := True\<rparr>) of
                None \<Rightarrow> None
              | Some s \<Rightarrow> Some (pump_teardown s))"

section \<open>Starting the pump\<close>

text \<open>
  The thread runs from the moment it is started; its outcome is \<open>pump_thread_entry\<close> on the
  state returned here.  The caller waits for \<open>init_done\<close> at most 50 times 10 ms, then reads
  \<open>init_failed\<close> once: after a timely initialisation it sees the result of the setup, later
  (\<open>pump_failed_late\<close>) it may or may not.
\<close>

definition nxmt_gpu_pump_start ::
    "'b PumpEnv_scheme \<Rightarrow> u64 \<Rightarrow> u64 \<Rightarrow> u64 \<Rightarrow> u64 \<Rightarrow> bool \<Rightarrow> u64 option \<Rightarrow> u64 option \<Rightarrow> u64 option
      \<Rightarrow> PumpGlobals \<Rightarrow> bool \<times> PumpGlobals" where
  "nxmt_gpu_pump_start env storage_base storage_size buffer_size seed has_stop progress errors verified s =
     (if storage_base = 0 \<or> \<not> has_stop \<or> buffer_size = 0 then (False, s)
      else
        let buffer_aligned = align_page buffer_size;
            required = NXMT_GPU_PUMP_PREAMBLE_BYTES + 2 * buffer_aligned
        in if storage_size < required then (False, s)
           else
             let s = s\<lparr>g_pump_storage_base := storage_base, g_pump_buffer_bytes := buffer_aligned,
                       g_pump_seed := seed, g_pump_progress := progress, g_pump_errors := errors,
                       g_pump_verified := verified, g_pump_init_done := False, g_pump_init_failed := False,
                       dk_error_seen := False\<rparr>
             in if R_FAILED (pump_threadCreate env) then (False, s)
                else if R_FAILED (pump_threadStart env) then (False, s)
                else
                  let setup_failed = \<not> fst (pump_setup env (align_page buffer_aligned) s);
                      done_in_time = list_ex (pump_done_at_poll env) [0..<50];
                      init_failed = (setup_failed \<and> (done_in_time \<or> pump_failed_late env))
                  in (\<not> init_failed, s))"

section \<open>Facts on 32-bit words\<close>

lemma bit_load32: "bit (load32 m a) n \<longleftrightarrow> n < 32 \<and> bit (m (a + of_nat (n div 8))) (n mod 8)"
  by (auto simp: load32_def bit_simps bit_word_of_bytes)

lemma load32_cong: "(\<And>i. i < 4 \<Longrightarrow> m (a + of_nat i) = m' (b + of_nat i)) \<Longrightarrow> load32 m a = load32 m' b"
  by (rule bit_word_eqI) (auto simp: bit_load32)

lemma load32_eq_iff: "load32 m a = load32 m' b \<longleftrightarrow> (\<forall>i<4. m (a + of_nat i) = m' (b + of_nat i))"
proof
  assume eq: "load32 m a = load32 m' b"
  show "\<forall>i<4. m (a + of_nat i) = m' (b + of_nat i)"
  proof (intro allI impI bit_word_eqI)
    fix i n :: nat assume "i < 4" "n < LENGTH(8)"
    moreover have "bit (load32 m a) (8 * i + n) = bit (load32 m' b) (8 * i + n)" by (simp only: eq)
    ultimately show "bit (m (a + of_nat i)) n = bit (m' (b + of_nat i)) n" by (simp add: bit_load32)
  qed
qed (intro load32_cong, auto)

lemma load32_store32 [simp]: "load32 (store32 m a w) a = w"
proof (rule bit_word_eqI)
  fix n assume "n < LENGTH(32)"
  then have n: "n < 32" "n div 8 < 4" by auto
  then have "unat (of_nat (n div 8) :: u64) = n div 8" by (simp add: unat_of_nat)
  with n show "bit (load32 (store32 m a w) a) n = bit w n"
    by (simp add: bit_load32 store32_def word_less_nat_alt bit_byte_of bit_simps)
qed

lemma store32_other: "\<not> x - a < 4 \<Longrightarrow> store32 m a w x = m x"
  by (simp add: store32_def)

lemma all_less_16: "(\<forall>j<16. P j) \<longleftrightarrow> (\<forall>i<4. \<forall>k<4. P (4 * i + k))" for P :: "nat \<Rightarrow> bool"
proof
  assume r: "\<forall>i<4. \<forall>k<4. P (4 * i + k)"
  show "\<forall>j<16. P j"
  proof (intro allI impI)
    fix j :: nat assume "j < 16"
    then have "j div 4 < 4" "j mod 4 < 4" by auto
    with r have "P (4 * (j div 4) + j mod 4)" by blast
    then show "P j" by simp
  qed
qed auto

lemma uvec4_diff_zero:
  "uvec4_diff m src dst idx = 0
    \<longleftrightarrow> (\<forall>j<16. m (src + of_nat (16 * idx + j)) = m (dst + of_nat (16 * idx + j)))"
proof -
  have four: "(\<forall>i<4. Q i) \<longleftrightarrow> Q 0 \<and> Q 1 \<and> Q 2 \<and> Q 3" for Q :: "nat \<Rightarrow> bool"
    by (simp add: numeral_eq_Suc All_less_Suc conj_ac)
  have "uvec4_diff m src dst idx = 0 \<longleftrightarrow>
      (\<forall>i<4. load32 m (src + of_nat (16 * idx + 4 * i)) = load32 m (dst + of_nat (16 * idx + 4 * i)))"
    unfolding four by (simp add: uvec4_diff_def Let_def)
  then show ?thesis
    unfolding all_less_16 load32_eq_iff by (simp add: add.assoc)
qed

section \<open>The dispatch\<close>

text \<open>The result word is apart from the two buffers; the dispatch sets its lowest bit when they differ.\<close>

lemma dispatch_result:
  fixes m :: mem
  assumes apart: "\<And>j. j < 16 * n \<Longrightarrow> \<not> src + of_nat j - result < 4 \<and> \<not> dst + of_nat j - result < 4"
  defines "m' \<equiv> fold (gpu_verify_main src dst result) [0..<n] m"
  shows "(\<forall>x. \<not> x - result < 4 \<longrightarrow> m' x = m x)
    \<and> load32 m' result = (if \<forall>j<16 * n. m (src + of_nat j) = m (dst + of_nat j)
        then load32 m result else load32 m result OR 1)"
  unfolding m'_def using apart
proof (induction n)
  case (Suc n)
  define f where "f = fold (gpu_verify_main src dst result) [0..<n] m"
  from Suc have IH: "\<And>x. \<not> x - result < 4 \<Longrightarrow> f x = m x"
    "load32 f result = (if \<forall>j<16 * n. m (src + of_nat j) = m (dst + of_nat j)
        then load32 m result else load32 m result OR 1)" by (auto simp: f_def)
  let ?same = "\<forall>j<16. m (src + of_nat (16 * n + j)) = m (dst + of_nat (16 * n + j))"
  have "f (src + of_nat (16 * n + j)) = m (src + of_nat (16 * n + j))"
    "f (dst + of_nat (16 * n + j)) = m (dst + of_nat (16 * n + j))" if "j < 16" for j
    using that Suc.prems [of "16 * n + j"] by (intro IH(1), simp)+
  then have same: "uvec4_diff f src dst n = 0 \<longleftrightarrow> ?same" unfolding uvec4_diff_zero by simp
  have "fold (gpu_verify_main src dst result) [0..<Suc n] m = gpu_verify_main src dst result n f"
    by (simp add: f_def)
  then have step: "fold (gpu_verify_main src dst result) [0..<Suc n] m
      = (if ?same then f else store32 f result (load32 f result OR 1))"
    unfolding gpu_verify_main_def [of src dst result n] same [symmetric] by simp
  have "(\<forall>j<16 * Suc n. P j) \<longleftrightarrow> (\<forall>j<16 * n. P j) \<and> (\<forall>j<16. P (16 * n + j))" for P :: "nat \<Rightarrow> bool"
  proof -
    have "P j" if "\<forall>j<16 * n. P j" "\<forall>j<16. P (16 * n + j)" "j < 16 * Suc n" for j
    proof (cases "j < 16 * n")
      case False
      then have "P (16 * n + (j - 16 * n))" using that(2,3) by (intro that(2) [rule_format]) simp
      then show ?thesis using False by simp
    qed (use that in simp)
    then show ?thesis by auto
  qed
  note split = this [of "\<lambda>j. m (src + of_nat j) = m (dst + of_nat j)"]
  show ?case
  proof (intro conjI allI impI)
    fix x assume "\<not> x - result < 4"
    then show "fold (gpu_verify_main src dst result) [0..<Suc n] m x = m x"
      unfolding step using IH(1) [of x] by (cases ?same) (auto simp: store32_other)
  next
    show "load32 (fold (gpu_verify_main src dst result) [0..<Suc n] m) result
      = (if \<forall>j<16 * Suc n. m (src + of_nat j) = m (dst + of_nat j)
         then load32 m result else load32 m result OR 1)"
      unfolding step split using IH(2) by (cases ?same) (auto simp: or.assoc split: if_splits)
  qed
qed simp

section \<open>Sizes and places\<close>

lemma align_page_value:
  assumes "unat sz + 4095 < 2 ^ 64"
  shows "unat (align_page sz) = (unat sz + 4095) div 4096 * 4096"
proof -
  have "unat (sz + 4095) = unat sz + 4095" using assms by (simp add: unat_word_ariths)
  then show ?thesis using unat_and_not_mask [of "sz + 4095" 12] by (simp add: align_page_def add.commute)
qed

lemma align_page_aligned:
  assumes "4096 dvd unat b" and "unat b < 2 ^ 32"
  shows "align_page b = b"
proof -
  from assms obtain q where q: "unat b = 4096 * q" by (auto simp: dvd_def)
  then have "unat (align_page b) = unat b"
    using assms(2) by (subst align_page_value) (simp_all add: div_mult_self3)
  then show ?thesis by (simp add: word_eq_iff_unat)
qed

lemma dispatch_covers:
  assumes "4096 dvd unat b" and "unat b < 2 ^ 32"
  shows "16 * (unat (num_groups (pump_commands b)) * unat NXMT_GPU_PUMP_LOCAL_X) = unat b"
proof -
  from assms obtain q where q: "unat b = 4096 * q" by (auto simp: dvd_def)
  have "unat (b div 16) = 256 * q" by (simp add: unat_div q)
  moreover have "256 * q < 2 ^ 32" using q assms(2) by simp
  ultimately have "unat (ucast (b div 16) :: u32) = 256 * q"
    by (simp add: unsigned_ucast_eq take_bit_nat_eq_self)
  then show ?thesis by (simp add: pump_commands_def pump_constants unat_div q)
qed

lemma pump_apart:
  assumes "unat b < 2 ^ 32" and "j < unat b"
  shows "\<not> pump_src s + of_nat j - pump_result s < 4 \<and> \<not> pump_src s + b + of_nat j - pump_result s < 4"
proof -
  have j: "unat (of_nat j :: u64) = j" using assms by (intro unat_of_nat64) simp
  have "pump_src s + of_nat j - pump_result s = 4096 + of_nat j"
    "pump_src s + b + of_nat j - pump_result s = 4096 + (b + of_nat j)"
    by (simp_all add: pump_src_def pump_result_def pump_constants)
  moreover have "unat (4096 + of_nat j :: u64) = 4096 + j" using assms j by (subst unat_add_small) simp_all
  moreover have "unat (b + of_nat j) = unat b + j" using assms j by (subst unat_add_small) simp_all
  then have "unat (4096 + (b + of_nat j)) = 4096 + (unat b + j)" using assms by (subst unat_add_small) simp_all
  ultimately show ?thesis by (simp only: word_less_nat_alt) simp
qed

section \<open>One batch and the loop\<close>

text \<open>
  What the verify pass has to find: after the copies of batch \<open>i\<close>, on a memory \<open>m\<close>, some byte
  of the destination differs from the source.  \<open>copies_spare\<close> says that the copies leave the
  result word alone, as copies within the buffers do.
\<close>

definition batch_differs :: "'b PumpEnv_scheme \<Rightarrow> u64 \<Rightarrow> PumpGlobals \<Rightarrow> nat \<Rightarrow> bool" where
  "batch_differs env b s i \<longleftrightarrow>
     (let m = pump_copies env i (pump_src s) (pump_src s + b) (ucast b) (store32 (dk_mem s) (pump_result s) 0)
      in \<exists>j<unat b. m (pump_src s + of_nat j) \<noteq> m (pump_src s + b + of_nat j))"

definition copies_spare :: "'b PumpEnv_scheme \<Rightarrow> u64 \<Rightarrow> PumpGlobals \<Rightarrow> bool" where
  "copies_spare env b s \<longleftrightarrow> (\<forall>i m k. k < 4 \<longrightarrow>
     pump_copies env i (pump_src s) (pump_src s + b) (ucast b) m (pump_result s + of_nat k)
       = m (pump_result s + of_nat k))"

lemma batch_fields [simp]:
  "dk_handle (pump_batch env b n s) = dk_handle s"
  "g_pump_storage_base (pump_batch env b n s) = g_pump_storage_base s"
  "g_pump_init_done (pump_batch env b n s) = g_pump_init_done s"
  "g_pump_init_failed (pump_batch env b n s) = g_pump_init_failed s"
  "dk_error_seen (pump_batch env b n s) = (dk_error_seen s \<or> pump_fails_in_batch env n)"
  "dk_trace (pump_batch env b n s) = dk_trace s @ [DkWaitIdle]"
  "g_pump_progress (pump_batch env b n s) = map_option (\<lambda>c. c + 16 * b) (g_pump_progress s)"
  "g_pump_verified (pump_batch env b n s) = map_option (\<lambda>c. c + 1) (g_pump_verified s)"
  by (simp_all add: pump_batch_def Let_def dk_wait_idle_def pump_constants)

lemma batch_places [simp]:
  "pump_src (pump_batch env b n s) = pump_src s" "pump_result (pump_batch env b n s) = pump_result s"
  by (simp_all add: pump_src_def pump_result_def)

lemma batch_errors:
  assumes b: "4096 dvd unat b" "unat b < 2 ^ 32" and spare: "copies_spare env b s"
  shows "g_pump_errors (pump_batch env b n s)
    = map_option (\<lambda>c. c + (if batch_differs env b s n then 1 else 0)) (g_pump_errors s)"
proof -
  let ?m = "pump_copies env n (pump_src s) (pump_src s + b) (ucast b) (store32 (dk_mem s) (pump_result s) 0)"
  let ?n = "unat (num_groups (pump_commands b)) * unat NXMT_GPU_PUMP_LOCAL_X"
  have zero: "load32 ?m (pump_result s) = 0"
  proof -
    have "load32 ?m (pump_result s) = load32 (store32 (dk_mem s) (pump_result s) 0) (pump_result s)"
      using spare by (intro load32_cong) (simp add: copies_spare_def)
    then show ?thesis by simp
  qed
  have n: "16 * ?n = unat b" by (rule dispatch_covers [OF b])
  have "load32 (fold (gpu_verify_main (pump_src s) (pump_src s + b) (pump_result s)) [0..<?n] ?m) (pump_result s)
      = (if \<forall>j<unat b. ?m (pump_src s + of_nat j) = ?m (pump_src s + b + of_nat j) then 0 else 1)"
    using dispatch_result [of ?n "pump_src s" "pump_result s" "pump_src s + b" ?m] pump_apart [OF b(2)]
    unfolding n zero by simp
  then have "load32 (dispatch_verify (num_groups (pump_commands b)) (pump_src s) (pump_src s + b)
      (pump_result s) ?m) (pump_result s) \<noteq> 0 \<longleftrightarrow> batch_differs env b s n"
    by (auto simp: dispatch_verify_def for_by_one [simplified] batch_differs_def Let_def)
  moreover have "copy_bytes (pump_commands b) = ucast b" by (simp add: pump_commands_def Let_def)
  ultimately show ?thesis
    by (cases "g_pump_errors s") (simp_all add: pump_batch_def Let_def dk_wait_idle_def)
qed

text \<open>The state after \<open>i\<close> batches, and the test at which the loop ends.\<close>

primrec pump_iter :: "'b PumpEnv_scheme \<Rightarrow> u64 \<Rightarrow> PumpGlobals \<Rightarrow> nat \<Rightarrow> PumpGlobals" where
  "pump_iter env b s 0 = s"
| "pump_iter env b s (Suc i) = pump_batch env b i (pump_iter env b s i)"

definition pump_ends :: "'b PumpEnv_scheme \<Rightarrow> nat \<Rightarrow> bool" where
  "pump_ends env n \<longleftrightarrow> (pump_stop env n \<or> (\<exists>i. n = Suc i \<and> pump_fails_in_batch env i))
     \<and> (\<forall>i<n. \<not> pump_stop env i) \<and> (\<forall>i. Suc i < n \<longrightarrow> \<not> pump_fails_in_batch env i)"

lemma pump_ends_exists:
  assumes "pump_stop env t"
  shows "\<exists>n\<le>t. pump_ends env n"
proof -
  let ?P = "\<lambda>n. pump_stop env n \<or> (\<exists>i. n = Suc i \<and> pump_fails_in_batch env i)"
  have "?P (LEAST n. ?P n)" using assms by (rule LeastI [of ?P t, OF disjI1])
  moreover have "\<not> ?P i" if "i < (LEAST n. ?P n)" for i using that by (rule not_less_Least)
  moreover have "(LEAST n. ?P n) \<le> t" using assms by (intro Least_le) simp
  ultimately show ?thesis unfolding pump_ends_def by blast
qed

lemma iter_fields [simp]:
  "dk_handle (pump_iter env b s n) = dk_handle s"
  "g_pump_storage_base (pump_iter env b s n) = g_pump_storage_base s"
  "g_pump_init_done (pump_iter env b s n) = g_pump_init_done s"
  "g_pump_init_failed (pump_iter env b s n) = g_pump_init_failed s"
  "dk_trace (pump_iter env b s n) = dk_trace s @ replicate n DkWaitIdle"
  "dk_error_seen (pump_iter env b s n) = (dk_error_seen s \<or> (\<exists>i<n. pump_fails_in_batch env i))"
  "g_pump_progress (pump_iter env b s n) = map_option (\<lambda>c. c + of_nat n * (16 * b)) (g_pump_progress s)"
  "g_pump_verified (pump_iter env b s n) = map_option (\<lambda>c. c + of_nat n) (g_pump_verified s)"
  by (induction n) (auto simp: less_Suc_eq replicate_append_same option.map_comp comp_def option.map_ident
      algebra_simps cong: option.map_cong)

lemma pump_loop_ends:
  assumes ends: "pump_ends env n" and ok: "\<not> dk_error_seen s" and "i \<le> n"
  shows "pump_loop env b i (pump_iter env b s i) = Some (pump_iter env b s n)"
  using \<open>i \<le> n\<close>
proof (induction "n - i" arbitrary: i)
  case 0
  then have i: "i = n" by simp
  have "pump_stop env n \<or> dk_error_seen (pump_iter env b s n)"
    using ends by (auto simp: pump_ends_def)
  then show ?case by (subst i, subst pump_loop.simps) (simp only: i if_False simp_thms de_Morgan_conj
      not_not split: if_splits, blast)
next
  case (Suc d)
  then have i: "i < n" by simp
  then have "\<not> pump_stop env i" using ends by (simp add: pump_ends_def)
  moreover have "\<not> dk_error_seen (pump_iter env b s i)"
    using ok i ends by (auto simp: pump_ends_def)
  ultimately show ?case using Suc(1) [of "Suc i"] Suc(2) i
    by (simp add: pump_loop.simps [of env b i])
qed

lemma copies_spare_iter:
  "copies_spare env b s \<Longrightarrow> copies_spare env b (pump_iter env b s n)"
  by (simp add: copies_spare_def pump_src_def pump_result_def)

lemma iter_errors:
  assumes b: "4096 dvd unat b" "unat b < 2 ^ 32" and spare: "copies_spare env b s"
  shows "g_pump_errors (pump_iter env b s n) = map_option (\<lambda>c. c
      + of_nat (length (filter (\<lambda>i. batch_differs env b (pump_iter env b s i) i) [0..<n]))) (g_pump_errors s)"
proof (induction n)
  case (Suc n)
  show ?case
    using Suc batch_errors [OF b copies_spare_iter [OF spare], of n n]
    by (cases "g_pump_errors s") auto
qed (simp add: option.map_ident)

end
