(* ===== verification/Pump_Thread.thy ===== *)
theory Pump_Thread
  imports Gpu_Pump
begin

text \<open>
  The pump's thread of \<open>Gpu_Pump\<close> from its start to its end: the memory and the objects that the setup leaves,
  the teardown, and the properties of start and thread.
\<close>

unbundle bit_operations_syntax

section \<open>What the setup leaves in memory\<close>

lemma pump_fill_pattern:
  "pump_fill_src_pattern neon m p bytes seed = fill p (\<lambda>k. (of_nat k * 8) XOR seed) (unat (bytes div 8)) m"
proof -
  let ?V = "\<lambda>k. let b = of_nat k * 8 :: u64 in ((b, b + 8), (b + 16, b + 24))"
  show ?thesis
    unfolding pump_fill_src_pattern_def Let_def
    by (rule vector_tail [where V = ?V])
      (simp_all add: neon_simps fill_block algebra_simps Let_def)
qed

lemma memcpy_bytes_apply:
  "length bs < 2 ^ 64 \<Longrightarrow> memcpy_bytes m p bs x = (if unat (x - p) < length bs then bs ! unat (x - p) else m x)"
  by (simp add: memcpy_bytes_def for_by_one [simplified] fold_byte_stores_apply)

lemma load_shader_mem:
  assumes "unat n < 2 ^ 32" and "\<not> unat (x - p) < unat n"
  shows "dk_mem (snd (pump_load_shader env p n s)) x = dk_mem s x"
proof (cases "fst (pump_load_shader env p n s)")
  case True
  let ?h = "dksh_header (gpu_verify_dksh env)"
  let ?code = "take (unat (dksh_code_sz ?h)) (drop (unat (dksh_control_sz ?h)) (gpu_verify_dksh env))"
  from True have "unat (dksh_code_sz ?h) \<le> unat n"
    and m: "dk_mem (snd (pump_load_shader env p n s)) = memcpy_bytes (dk_mem s) p ?code"
    by (auto simp: pump_load_shader_def Let_def split: if_splits)
  moreover define code where "code = ?code"
  ultimately have "length code \<le> unat n" by simp
  with assms show ?thesis unfolding m code_def [symmetric] by (subst memcpy_bytes_apply) simp_all
qed (auto simp: pump_load_shader_def Let_def split: if_splits)

lemma load_shader_fields [simp]:
  "dk_handle (snd (pump_load_shader env p n s)) = dk_handle s"
  "dk_trace (snd (pump_load_shader env p n s)) = dk_trace s"
  "dk_error_seen (snd (pump_load_shader env p n s)) = dk_error_seen s"
  "g_pump_storage_base (snd (pump_load_shader env p n s)) = g_pump_storage_base s"
  "g_pump_progress (snd (pump_load_shader env p n s)) = g_pump_progress s"
  "g_pump_errors (snd (pump_load_shader env p n s)) = g_pump_errors s"
  "g_pump_verified (snd (pump_load_shader env p n s)) = g_pump_verified s"
  by (simp_all add: pump_load_shader_def Let_def)

text \<open>The deko3d part of the state determines nothing else, and creating objects changes nothing else.\<close>

lemma create_globals [simp]:
  "g_pump_storage_base (dk_create env obj p n s) = g_pump_storage_base s"
  "g_pump_progress (dk_create env obj p n s) = g_pump_progress s"
  "g_pump_errors (dk_create env obj p n s) = g_pump_errors s"
  "g_pump_verified (dk_create env obj p n s) = g_pump_verified s"
  by (simp_all add: dk_create_def Let_def)

lemma create_all_globals [simp]:
  "g_pump_storage_base (snd (dk_create_all env plan s)) = g_pump_storage_base s"
  "g_pump_progress (snd (dk_create_all env plan s)) = g_pump_progress s"
  "g_pump_errors (snd (dk_create_all env plan s)) = g_pump_errors s"
  "g_pump_verified (snd (dk_create_all env plan s)) = g_pump_verified s"
  by (induction env plan s rule: dk_create_all.induct) (simp_all add: Let_def)

lemma destroy_globals [simp]:
  "g_pump_progress (dk_destroy obj s) = g_pump_progress s"
  "g_pump_errors (dk_destroy obj s) = g_pump_errors s"
  "g_pump_verified (dk_destroy obj s) = g_pump_verified s"
  by (simp_all add: dk_destroy_def)

lemma preamble_apart:
  "unat d < 65536 \<or> 86016 \<le> unat d \<Longrightarrow> \<not> d - 81920 < 4 \<and> \<not> unat (d - 65536) < 16384" for d :: u64
  using unat64_less [of d] by (auto simp: word_less_nat_alt unat_diff64)

lemma source_apart:
  "unat d < 65536 \<or> 86016 + n \<le> unat d \<Longrightarrow> n < 2 ^ 32 \<Longrightarrow> \<not> unat (d - 86016) < n" for d :: u64
  using unat64_less [of d] by (auto simp: unat_diff64)

section \<open>Objects come and go\<close>

abbreviation no_objects :: "'a DkState_scheme \<Rightarrow> bool" where
  "no_objects s \<equiv> \<forall>obj. dk_handle s obj = 0"

lemma setup_globals:
  "g_pump_storage_base (snd (pump_setup env b s)) = g_pump_storage_base s"
  "g_pump_progress (snd (pump_setup env b s)) = g_pump_progress s"
  "g_pump_errors (snd (pump_setup env b s)) = g_pump_errors s"
  "g_pump_verified (snd (pump_setup env b s)) = g_pump_verified s"
  by (simp_all add: pump_setup_def Let_def split_beta)

lemma setup_owned:
  assumes "owned s" and none: "no_objects s"
  shows "owned (snd (pump_setup env b s))"
proof -
  let ?s0 = "dk_create env DkDevice 0 0 s"
  let ?plan = "pump_blocks (g_pump_storage_base s) b"
  let ?s1 = "snd (dk_create_all env ?plan ?s0)"
  have 0: "owned ?s0" using assms by (intro owned_create) auto
  show ?thesis
  proof (cases "dk_handle ?s0 DkDevice = 0 \<or> dk_error_seen ?s0")
    case True
    with 0 show ?thesis unfolding pump_setup_def Let_def by (simp only: if_True snd_conv)
  next
    case False
    have "owned ?s1 \<and> (\<forall>obj. obj \<notin> fst ` set ?plan \<longrightarrow> dk_handle ?s1 obj = dk_handle ?s0 obj)"
      using none False by (intro owned_create_all 0) (auto simp: pump_blocks_def Let_def)
    then have 1: "owned ?s1" "dk_handle ?s1 DkQueue = 0" "dk_handle ?s1 DkDevice \<noteq> 0"
      using none False by (auto simp: pump_blocks_def Let_def)
    have "owned s'" if "dk_handle s' = dk_handle ?s1" "dk_trace s' = dk_trace ?s1" for s' :: PumpGlobals
      using 1(1) that by (simp cong: owned_cong)
    moreover have "owned (dk_create env DkQueue 0 0 s')"
      if "dk_handle s' = dk_handle ?s1" "dk_trace s' = dk_trace ?s1" for s' :: PumpGlobals
      using 1 that by (intro owned_create) (simp_all cong: owned_cong)
    ultimately show ?thesis
      using False by (simp add: pump_setup_def Let_def split_beta)
  qed
qed

lemma setup_ok_state:
  assumes "fst (pump_setup env b s)"
  shows "dk_handle (snd (pump_setup env b s)) DkQueue \<noteq> 0" and "\<not> dk_error_seen (snd (pump_setup env b s))"
  using assms by (auto simp: pump_setup_def Let_def split_beta split: if_splits)

lemma teardown_owned:
  assumes "owned s"
  shows "owned (pump_teardown s)" and "no_objects (pump_teardown s)"
proof -
  let ?q = "if dk_handle s DkQueue \<noteq> 0 then dk_destroy DkQueue (dk_wait_idle s) else s"
  have "owned ?q" using assms by (auto intro!: owned_destroy owned_wait_idle)
  moreover have "dk_handle ?q = (dk_handle s)(DkQueue := 0)" by (auto simp: fun_upd_idem)
  moreover have all: "obj \<in> {DkDevice, DkCmdMem, DkShaderMem, DkResultMem, DkCmdBuf, DkSrc, DkDst, DkQueue}" for obj
    by (cases obj) simp_all
  ultimately show "owned (pump_teardown s)"
    unfolding pump_teardown_def Let_def
    by (subst owned_cong [where s = "dk_destroy DkDevice s'" for s']) (auto intro!: owned_destroy, use all in blast)
  show "no_objects (pump_teardown s)"
    using all by (auto simp: pump_teardown_def Let_def)
qed

lemma destroy_flags [simp]:
  "g_pump_init_done (dk_destroy obj s) = g_pump_init_done s"
  "g_pump_init_failed (dk_destroy obj s) = g_pump_init_failed s"
  "g_pump_init_failed (dk_create env obj p n s) = g_pump_init_failed s"
  by (simp_all add: dk_destroy_def dk_create_def Let_def)

lemma wait_idle_globals [simp]:
  "g_pump_progress (dk_wait_idle s) = g_pump_progress s" "g_pump_errors (dk_wait_idle s) = g_pump_errors s"
  "g_pump_verified (dk_wait_idle s) = g_pump_verified s" "g_pump_init_done (dk_wait_idle s) = g_pump_init_done s"
  "g_pump_init_failed (dk_wait_idle s) = g_pump_init_failed s"
  by (simp_all add: dk_wait_idle_def)

lemma teardown_globals [simp]:
  "g_pump_progress (pump_teardown s) = g_pump_progress s" "g_pump_errors (pump_teardown s) = g_pump_errors s"
  "g_pump_verified (pump_teardown s) = g_pump_verified s" "g_pump_init_done (pump_teardown s) = g_pump_init_done s"
  "g_pump_init_failed (pump_teardown s) = g_pump_init_failed s" "g_pump_shader_ctrl (pump_teardown s) = None"
  by (simp_all add: pump_teardown_def Let_def)

lemma setup_init_failed: "g_pump_init_failed (snd (pump_setup env b s)) = g_pump_init_failed s"
proof -
  have "g_pump_init_failed (snd (dk_create_all env plan t)) = g_pump_init_failed t" for plan and t :: PumpGlobals
    by (induction env plan t rule: dk_create_all.induct) (simp_all add: Let_def)
  moreover have "g_pump_init_failed (snd (pump_load_shader env p n t)) = g_pump_init_failed t" for p n t
    by (simp add: pump_load_shader_def Let_def)
  ultimately show ?thesis by (simp add: pump_setup_def Let_def split_beta)
qed

lemma thread_ok:
  assumes "fst (pump_setup env (align_page (g_pump_buffer_bytes s)) s)" and "pump_ends env n"
  shows "pump_thread_entry env s = Some (pump_teardown (pump_iter env (align_page (g_pump_buffer_bytes s))
      (snd (pump_setup env (align_page (g_pump_buffer_bytes s)) s)\<lparr>g_pump_init_done := True\<rparr>) n))"
  using assms(1) setup_ok_state(2) [OF assms(1)]
    pump_loop_ends [OF assms(2), of "snd (pump_setup env (align_page (g_pump_buffer_bytes s)) s)\<lparr>g_pump_init_done := True\<rparr>" 0]
  by (simp add: pump_thread_entry_def Let_def split_beta)

text \<open>What a successful setup leaves outside its preamble is the source pattern.\<close>

lemma setup_memory:
  assumes made: "pump_setup env b s = (True, s1)"
    and x: "unat (x - g_pump_storage_base s) < 65536 \<or> 86016 \<le> unat (x - g_pump_storage_base s)"
  shows "dk_mem s1 x = fill (pump_src s) (\<lambda>k. (of_nat k * 8) XOR g_pump_seed s) (unat (b div 8)) (dk_mem s) x"
proof -
  let ?base = "g_pump_storage_base s" and ?src = "pump_src s" and ?n = "unat (b div 8)"
  let ?m2 = "fill ?src (\<lambda>k. (of_nat k * 8) XOR g_pump_seed s) ?n (dk_mem s)"
  have seed: "g_pump_seed (snd (dk_create_all env plan t)) = g_pump_seed t" for plan and t :: PumpGlobals
    by (induction env plan t rule: dk_create_all.induct) (simp_all add: Let_def dk_create_def)
  have src: "pump_src (snd (dk_create_all env plan t)) = pump_src t" for plan t by (simp add: pump_src_def)
  have "g_pump_seed (dk_create env DkDevice 0 0 s) = g_pump_seed s" by (simp add: dk_create_def Let_def)
  moreover define t where
    "t = snd (dk_create_all env (pump_blocks ?base b) (dk_create env DkDevice 0 0 s))\<lparr>dk_mem := ?m2\<rparr>"
  moreover from t_def have t: "dk_mem t = ?m2" by simp
  ultimately have m: "dk_mem s1 = store32 (dk_mem (snd (pump_load_shader env (?base + 65536) 16384 t))) (81920 + ?base) 0"
    using made by (auto simp: pump_setup_def Let_def split_beta pump_fill_pattern pump_src_def pump_result_def
        pump_constants seed split: if_splits)
  have "x - (81920 + ?base) = (x - ?base) - 81920" "x - (?base + 65536) = (x - ?base) - 65536" by simp_all
  then have "\<not> x - (81920 + ?base) < 4" "\<not> unat (x - (?base + 65536)) < 16384"
    using preamble_apart [OF x] by (simp_all only: simp_thms)
  then show ?thesis unfolding m
    using load_shader_mem [of 16384 x "?base + 65536" env t] by (simp add: store32_other t)
qed

section \<open>Properties\<close>

text \<open>
  Property C10.  The pump counts what happened: once its setup has succeeded, and with copies that
  stay clear of the result word, the thread ends at the first test that sees the stop flag or
  a deko3d error; it has then counted every batch as verified, the traffic of eight copies
  (read and written) per batch, and an error batch for exactly those batches after whose
  copies some byte of the destination differed from the source.  The dispatch covers the
  whole buffer.
\<close>

theorem pump_counts:
  fixes s :: PumpGlobals
  defines "b \<equiv> g_pump_buffer_bytes s"
  assumes buffer: "4096 dvd unat b" "unat b < 2 ^ 32"
    and made: "pump_setup env b s = (True, s1)"
    and spare: "copies_spare env b s1" and ends: "pump_ends env n"
  shows "\<exists>s'. pump_thread_entry env s = Some s'
    \<and> g_pump_verified s' = map_option (\<lambda>c. c + of_nat n) (g_pump_verified s)
    \<and> g_pump_progress s' = map_option (\<lambda>c. c + of_nat n * (8 * (2 * b))) (g_pump_progress s)
    \<and> g_pump_errors s' = map_option (\<lambda>c. c + of_nat (length (filter
        (\<lambda>i. batch_differs env b (pump_iter env b (s1\<lparr>g_pump_init_done := True\<rparr>) i) i) [0..<n]))) (g_pump_errors s)"
proof -
  note al = align_page_aligned [OF buffer]
  let ?s1 = "s1\<lparr>g_pump_init_done := True\<rparr>"
  have "fst (pump_setup env (align_page (g_pump_buffer_bytes s)) s)" using made al by (simp add: b_def)
  from thread_ok [OF this ends] have "pump_thread_entry env s = Some (pump_teardown (pump_iter env b ?s1 n))"
    using made al by (simp add: b_def)
  moreover have "copies_spare env b ?s1"
    using spare by (simp add: copies_spare_def pump_src_def pump_result_def)
  note iter_errors [OF buffer this, of n]
  moreover have "g_pump_errors s1 = g_pump_errors s" "g_pump_verified s1 = g_pump_verified s"
    "g_pump_progress s1 = g_pump_progress s"
    using setup_globals [of env b s] made by simp_all
  ultimately show ?thesis by simp
qed

text \<open>A pump whose second batch leaves a wrong byte, over one page.\<close>

definition demo_copy :: "u64 \<Rightarrow> u64 \<Rightarrow> u32 \<Rightarrow> mem \<Rightarrow> mem" where
  "demo_copy src dst len m = (\<lambda>x. if x - dst < ucast len then m (src + (x - dst)) else m x)"

definition demo_pump :: PumpEnv where
  "demo_pump = \<lparr>dk_handle_of = (\<lambda>_. 1), dk_fails_in = (\<lambda>_. False), dk_fails_recording = False,
     gpu_verify_dksh = replicate 24 0, pump_malloc = (\<lambda>_. 1), pump_neon = True,
     pump_copies = (\<lambda>i src dst len m. let m' = demo_copy src dst len m
        in if i = 1 then m'(dst := m' dst + 1) else m'),
     pump_fails_in_batch = (\<lambda>_. False), pump_stop = (\<lambda>i. 3 \<le> i),
     pump_threadCreate = 0, pump_threadStart = 0, pump_done_at_poll = (\<lambda>_. True), pump_failed_late = False\<rparr>"

definition demo_globals :: PumpGlobals where
  "demo_globals = \<lparr>dk_handle = (\<lambda>_. 0), dk_error_seen = False, dk_trace = [], dk_mem = (\<lambda>_. 0),
     g_pump_storage_base = 0x100000, g_pump_buffer_bytes = 4096, g_pump_seed = 9, g_pump_shader_ctrl = None,
     g_pump_init_done = False, g_pump_init_failed = False,
     g_pump_progress = Some 0, g_pump_errors = Some 0, g_pump_verified = Some 0\<rparr>"

lemma demo_copy_same:
  assumes "j < 4096"
  shows "demo_copy src (src + 4096) 4096 m (src + of_nat j) = m (src + of_nat j)"
    and "demo_copy src (src + 4096) 4096 m (src + 4096 + of_nat j) = m (src + of_nat j)"
proof -
  have j: "unat (of_nat j :: u64) = j" using assms by (intro unat_of_nat64) simp
  have "\<not> (of_nat j - 4096 :: u64) < 4096"
  proof
    let ?d = "of_nat j - 4096 :: u64"
    assume "?d < 4096"
    then have "unat ?d < 4096" by (simp add: word_less_nat_alt)
    then have "unat (?d + 4096) = unat ?d + 4096" by (subst unat_add_small) simp_all
    moreover have "unat (?d + 4096) = j" unfolding diff_add_cancel by (rule j)
    ultimately have "j = unat ?d + 4096" by (rule trans [OF sym, rotated])
    then obtain d where "j = d + 4096" by blast
    then show False using assms by simp
  qed
  moreover have "src + of_nat j - (src + 4096) = of_nat j - 4096" "ucast (4096 :: u32) = (4096 :: u64)" by simp_all
  ultimately show "demo_copy src (src + 4096) 4096 m (src + of_nat j) = m (src + of_nat j)"
    by (simp only: demo_copy_def if_False)
  have "(of_nat j :: u64) < 4096" using assms j by (simp add: word_less_nat_alt)
  then show "demo_copy src (src + 4096) 4096 m (src + 4096 + of_nat j) = m (src + of_nat j)"
    by (simp add: demo_copy_def)
qed

lemma demo_pump_batches:
  assumes "g_pump_storage_base s = 0x100000"
  shows "batch_differs demo_pump 4096 s i \<longleftrightarrow> i = 1"
proof -
  have same: "demo_copy src (src + 4096) (ucast (4096 :: u64)) m (src + of_nat j)
      = demo_copy src (src + 4096) (ucast (4096 :: u64)) m (src + 4096 + of_nat j)" if "j < 4096" for src m j
    using demo_copy_same [OF that] by simp
  have ne: "src + of_nat 0 \<noteq> src + 4096" for src :: u64 by simp
  let ?src = "pump_src s"
  let ?m = "demo_copy ?src (?src + 4096) (ucast (4096 :: u64)) (store32 (dk_mem s) (pump_result s) 0)"
  have "(\<exists>j<4096. (?m(?src + 4096 := ?m (?src + 4096) + 1)) (?src + of_nat j)
      \<noteq> (?m(?src + 4096 := ?m (?src + 4096) + 1)) (?src + 4096 + of_nat j))"
    using same [of 0 ?src] by (intro exI [of _ 0]) simp
  then show ?thesis
    using same by (auto simp: batch_differs_def demo_pump_def Let_def)
qed

lemma demo_pump_spare: "g_pump_storage_base s = 0x100000 \<Longrightarrow> copies_spare demo_pump 4096 s"
proof -
  have "pump_src s = pump_result s + 4096" for s by (simp add: pump_src_def pump_result_def pump_constants)
  moreover have "\<not> (r + of_nat k - (r + 4096 + 4096) :: u64) < 4096" "r + of_nat k \<noteq> r + 4096 + 4096"
    if "k < 4" for k and r :: u64
  proof -
    from that have "k = 0 \<or> k = 1 \<or> k = 2 \<or> k = 3" by auto
    then show "\<not> (r + of_nat k - (r + 4096 + 4096) :: u64) < 4096" "r + of_nat k \<noteq> r + 4096 + 4096"
      by (auto simp: word_less_nat_alt)
  qed
  ultimately show ?thesis
    by (auto simp: copies_spare_def demo_pump_def demo_copy_def Let_def)
qed

lemma demo_pump_makes:
  assumes "\<not> dk_error_seen s"
  shows "fst (pump_setup (demo_pump\<lparr>pump_copies := f\<rparr>) b s)"
proof -
  let ?env = "demo_pump\<lparr>pump_copies := f\<rparr>"
  have "dksh_control_sz (dksh_header (replicate 24 0)) = 0" "dksh_code_sz (dksh_header (replicate 24 0)) = 0"
    by code_simp+
  then have "fst (pump_load_shader ?env p 16384 s)" for p s
    by (simp add: pump_load_shader_def demo_pump_def Let_def)
  moreover have "\<not> dk_error_seen (snd (dk_create_all ?env plan s))"
    if "\<not> dk_error_seen s" for plan and s :: PumpGlobals
    using that create_all_error [of ?env plan s] by (auto simp: demo_pump_def)
  ultimately show ?thesis
    using assms by (simp add: pump_setup_def Let_def split_beta create_all_ok pump_constants)
      (simp add: demo_pump_def)
qed

lemma demo_pump_starts: "fst (pump_setup demo_pump 4096 demo_globals)"
  using demo_pump_makes [of demo_globals "pump_copies demo_pump" 4096]
  by (simp add: demo_globals_def)

theorem pump_counts_witness:
  "\<exists>s'. pump_thread_entry demo_pump demo_globals = Some s' \<and> g_pump_verified s' = Some 3
    \<and> g_pump_progress s' = Some 196608 \<and> g_pump_errors s' = Some 1"
proof -
  obtain s1 where s1: "pump_setup demo_pump 4096 demo_globals = (True, s1)"
    using demo_pump_starts by (cases "pump_setup demo_pump 4096 demo_globals") simp
  have base: "g_pump_storage_base s1 = 0x100000"
    using setup_globals(1) [of demo_pump 4096 demo_globals] s1 by (simp add: demo_globals_def)
  have "pump_ends demo_pump 3" by (simp add: pump_ends_def demo_pump_def)
  have buffer: "g_pump_buffer_bytes demo_globals = 4096" by (simp add: demo_globals_def)
  have three: "[0..<3] = [0, 1, 2 :: nat]" by (simp add: upt_rec)
  have dvd: "4096 dvd unat (4096 :: u64)" "unat (4096 :: u64) < 2 ^ 32" by simp_all
  have iter: "g_pump_storage_base (pump_iter demo_pump 4096 (s1\<lparr>g_pump_init_done := True\<rparr>) i) = 0x100000" for i
    using base by simp
  have counters: "g_pump_verified demo_globals = Some 0" "g_pump_progress demo_globals = Some 0"
    "g_pump_errors demo_globals = Some 0" by (simp_all add: demo_globals_def)
  from pump_counts [of demo_globals, unfolded buffer, OF dvd s1 demo_pump_spare [OF base] \<open>pump_ends demo_pump 3\<close>]
  show ?thesis unfolding three counters by (simp add: demo_pump_batches [OF iter])
qed





text \<open>
  Property C35.  The setup writes where it may: after a successful setup the source buffer holds
  the address pattern (word \<open>k\<close> is \<open>8 k\<close> exclusive-ored with the seed, whether or not vector
  instructions wrote it), and nothing outside the shader block, the result block and the
  source buffer has changed; a shader file whose sizes do not fit is refused, never copied
  beyond its block.
\<close>

theorem pump_setup_memory:
  assumes buffer: "8 dvd unat b" "unat b < 2 ^ 32" and al: "aligned8 (g_pump_storage_base s)"
    and made: "pump_setup env b s = (True, s1)"
  shows "(\<forall>k<unat b div 8. load64 (dk_mem s1) (widx (pump_src s) k) = (of_nat k * 8) XOR g_pump_seed s)
    \<and> (\<forall>x. unat (x - g_pump_storage_base s) < 65536 \<or> 86016 + unat b \<le> unat (x - g_pump_storage_base s)
      \<longrightarrow> dk_mem s1 x = dk_mem s x)"
proof -
  let ?base = "g_pump_storage_base s" and ?src = "pump_src s" and ?n = "unat (b div 8)"
  let ?m2 = "fill ?src (\<lambda>k. (of_nat k * 8) XOR g_pump_seed s) ?n (dk_mem s)"
  note keep = setup_memory [OF made]
  have n: "?n = unat b div 8" by (simp add: unat_div)
  have srcb: "?src = ?base + 86016" by (simp add: pump_src_def pump_constants)
  have words: "load64 (dk_mem s1) (widx ?src k) = (of_nat k * 8) XOR g_pump_seed s" if k: "k < unat b div 8" for k
  proof -
    have "dk_mem s1 (widx ?src k + of_nat i) = ?m2 (widx ?src k + of_nat i)" if "i < 8" for i
    proof (rule keep)
      have "widx ?src k + of_nat i - ?base = of_nat (86016 + 8 * k + i)"
        by (simp add: srcb widx_def)
      moreover have "86016 + 8 * k + i < 2 ^ 64" using k buffer(2) that by simp
      ultimately show "unat (widx ?src k + of_nat i - ?base) < 65536
          \<or> 86016 \<le> unat (widx ?src k + of_nat i - ?base)" by (simp only: unat_of_nat64) simp
    qed
    then have "load64 (dk_mem s1) (widx ?src k) = load64 ?m2 (widx ?src k)" by (rule load64_cong)
    moreover have "aligned8 ?src" using al aligned8_add [of ?base 10752] by (simp add: srcb)
    ultimately show ?thesis using k buffer(2) by (simp add: wm.load_fill n)
  qed
  have "dk_mem s1 x = dk_mem s x" if "unat (x - ?base) < 65536 \<or> 86016 + unat b \<le> unat (x - ?base)" for x
  proof -
    have "\<not> in_slice ?src ?n x"
    proof
      assume "in_slice ?src ?n x"
      then have "unat (x - ?src) < 8 * ?n" using buffer(2) by (intro in_slice_bound) (simp_all add: n)
      moreover have "x - ?src = (x - ?base) - 86016" by (simp add: srcb)
      ultimately show False using source_apart [OF that] buffer by (simp add: n)
    qed
    with that show ?thesis by (subst keep) (auto simp: fill_frame)
  qed
  with words show ?thesis by blast
qed

theorem pump_setup_memory_witness:
  "\<exists>s1. pump_setup demo_pump 4096 demo_globals = (True, s1)
    \<and> load64 (dk_mem s1) (widx (pump_src demo_globals) 1) = 1 \<and> dk_mem s1 0x100007 = 0"
proof -
  obtain s1 where s1: "pump_setup demo_pump 4096 demo_globals = (True, s1)"
    using demo_pump_starts by (cases "pump_setup demo_pump 4096 demo_globals") simp
  have base: "g_pump_storage_base demo_globals = 0x100000" "g_pump_seed demo_globals = 9"
    "dk_mem demo_globals 0x100007 = 0" by (simp_all add: demo_globals_def)
  have al: "aligned8 (g_pump_storage_base demo_globals)" by (simp add: base aligned8_def)
  have "8 dvd unat (4096 :: u64)" "unat (4096 :: u64) < 2 ^ 32" by simp_all
  note m = pump_setup_memory [OF this al s1]
  have "load64 (dk_mem s1) (widx (pump_src demo_globals) 1) = (of_nat 1 * 8) XOR g_pump_seed demo_globals"
    using conjunct1 [OF m] by simp
  moreover have "dk_mem s1 0x100007 = dk_mem demo_globals 0x100007"
    using spec [OF conjunct2 [OF m], of "0x100007"] by (simp add: base)
  ultimately show ?thesis using s1 by (simp add: base)
qed



end
