(* ===== verification/Gpu_Bench.thy ===== *)
theory Gpu_Bench
  imports Pump_Thread
begin

text \<open>
  \<^verbatim>\<open>source/nx/gpu_bench.c\<close>, the copy benchmark offered by the menu, and the sweep over buffer
  sizes that \<^verbatim>\<open>run_gpu_bench_screen\<close> of \<^verbatim>\<open>source/nx/main.c\<close> runs over the tail of the arena.
  Here are its result, its use of deko3d and its effect on the memory; the lines it prints are in \<open>Tui\<close>.
\<close>

unbundle bit_operations_syntax

section \<open>One run\<close>

definition NXMT_GPU_CMD_MEM_BYTES :: u64 where "NXMT_GPU_CMD_MEM_BYTES = 64 * 1024"

text \<open>\<open>bench_copies\<close>: what the submitted copies leave in memory once the queue is idle.\<close>

record BenchEnv = Deko +
  bench_copies :: "u32 \<Rightarrow> u64 \<Rightarrow> u64 \<Rightarrow> u32 \<Rightarrow> mem \<Rightarrow> mem"

definition bench_blocks :: "u64 \<Rightarrow> u64 \<Rightarrow> (DkObject \<times> u64 \<times> u64) list" where
  "bench_blocks bp b =
     [(DkCmdMem, bp, NXMT_GPU_CMD_MEM_BYTES), (DkCmdBuf, 0, 0),
      (DkSrc, bp + NXMT_GPU_CMD_MEM_BYTES, ucast (ucast b :: u32)),
      (DkDst, bp + NXMT_GPU_CMD_MEM_BYTES + b, ucast (ucast b :: u32))]"

definition bench_destroy_blocks :: "DkState \<Rightarrow> DkState" where
  "bench_destroy_blocks s =
     dk_destroy DkDevice (dk_destroy DkCmdMem (dk_destroy DkCmdBuf (dk_destroy DkSrc (dk_destroy DkDst s))))"

definition memcmp_equal :: "mem \<Rightarrow> u64 \<Rightarrow> u64 \<Rightarrow> nat \<Rightarrow> bool" where
  "memcmp_equal m p q n = list_all (\<lambda>i. m (p + of_nat i) = m (q + of_nat i)) [0..<n]"

definition nxmt_gpu_bench_run ::
    "BenchEnv \<Rightarrow> u64 \<Rightarrow> u64 \<Rightarrow> u64 \<Rightarrow> u32 \<Rightarrow> DkState \<Rightarrow> bool \<times> DkState" where
  "nxmt_gpu_bench_run env storage_base storage_size buffer_size iterations s =
     (if storage_base = 0 \<or> buffer_size = 0 \<or> iterations = 0 then (False, s)
      else
        let b = align_page buffer_size;
            required = NXMT_GPU_CMD_MEM_BYTES + 2 * b
        in if storage_size < required then (False, s)
           else
             let src = storage_base + NXMT_GPU_CMD_MEM_BYTES;
                 dst = storage_base + NXMT_GPU_CMD_MEM_BYTES + b;
                 s = dk_create env DkDevice 0 0 (s\<lparr>dk_error_seen := False\<rparr>)
             in if dk_handle s DkDevice = 0 \<or> dk_error_seen s
                then (False, dk_destroy DkDevice s)
                else
                  let s = fold (\<lambda>(obj, storage, sz). dk_create env obj storage sz) (bench_blocks storage_base b) s
                  in if dk_handle s DkCmdMem = 0 \<or> dk_handle s DkCmdBuf = 0 \<or> dk_handle s DkSrc = 0
                       \<or> dk_handle s DkDst = 0 \<or> dk_error_seen s
                     then (False, bench_destroy_blocks s)
                     else
                       let s = s\<lparr>dk_mem := memset (memset (dk_mem s) src 0xa5 (unat b)) dst 0 (unat b),
                                 dk_error_seen := dk_fails_recording env\<rparr>;
                           s = dk_create env DkQueue 0 0 s
                       in if dk_handle s DkQueue = 0 \<or> dk_error_seen s
                          then (False, bench_destroy_blocks s)
                          else
                            let s = dk_wait_idle (s\<lparr>dk_mem :=
                                  bench_copies env iterations src dst (ucast b) (dk_mem s)\<rparr>);
                                verify_ok = memcmp_equal (dk_mem s) src dst (unat b);
                                s = dk_destroy DkQueue s
                            in (verify_ok, bench_destroy_blocks s))"

section \<open>The sweep\<close>

definition bench_steps :: "(u64 \<times> u32) list" where
  "bench_steps = [(4, 64), (16, 32), (32, 16), (64, 8), (128, 4), (256, 2)]"

text \<open>
  The steps up to the first that fails; \<open>envs i\<close> is what deko3d does in step \<open>i\<close>, the result is
  the number of steps that succeeded and the memory.
\<close>

fun bench_sweep :: "(nat \<Rightarrow> BenchEnv) \<Rightarrow> nat \<Rightarrow> u64 \<Rightarrow> u64 \<Rightarrow> (u64 \<times> u32) list \<Rightarrow> mem \<Rightarrow> nat \<times> mem" where
  "bench_sweep envs i storage needed [] m = (i, m)"
| "bench_sweep envs i storage needed ((size_mib, iters) # steps) m =
     (let (ok, s) = nxmt_gpu_bench_run (envs i) storage needed (size_mib * NXMT_MIB_BYTES) iters
            \<lparr>dk_handle = (\<lambda>_. 0), dk_error_seen = False, dk_trace = [], dk_mem = m\<rparr>
      in if ok then bench_sweep envs (Suc i) storage needed steps (dk_mem s) else (i, dk_mem s))"

definition bench_storage_needed :: "NxmtArena \<Rightarrow> u64" where
  "bench_storage_needed arena =
     (let max_step_bytes = 256 * NXMT_MIB_BYTES;
          storage_needed = max_step_bytes * 2 + NXMT_MIB_BYTES
      in if storage_needed > a_size arena then a_size arena else storage_needed)"

definition run_gpu_bench_screen :: "(nat \<Rightarrow> BenchEnv) \<Rightarrow> NxmtArena \<Rightarrow> mem \<Rightarrow> nat \<times> mem" where
  "run_gpu_bench_screen envs arena m =
     (let storage_needed = bench_storage_needed arena;
          gpu_storage = a_base arena + (a_size arena - storage_needed)
      in bench_sweep envs 0 gpu_storage storage_needed bench_steps m)"

section \<open>What a run does with its objects\<close>

text \<open>The objects up to the buffers are there, and no error was reported.\<close>

definition bench_blocks_ready :: "BenchEnv \<Rightarrow> bool" where
  "bench_blocks_ready env \<longleftrightarrow>
     list_all (\<lambda>obj. dk_handle_of env obj \<noteq> 0 \<and> \<not> dk_fails_in env obj) [DkDevice, DkCmdMem, DkCmdBuf, DkSrc, DkDst]"

definition bench_accepts :: "u64 \<Rightarrow> u64 \<Rightarrow> u64 \<Rightarrow> u32 \<Rightarrow> bool" where
  "bench_accepts storage_base storage_size buffer_size iterations \<longleftrightarrow>
     storage_base \<noteq> 0 \<and> buffer_size \<noteq> 0 \<and> iterations \<noteq> 0
     \<and> NXMT_GPU_CMD_MEM_BYTES + 2 * align_page buffer_size \<le> storage_size"

lemma bench_blocks_state:
  fixes s :: DkState and env :: BenchEnv and bp b :: u64
  assumes "owned s" and "dk_handle s DkDevice \<noteq> 0" and "\<And>obj. obj \<noteq> DkDevice \<Longrightarrow> dk_handle s obj = 0"
  defines "s' \<equiv> fold (\<lambda>(obj, storage, sz). dk_create env obj storage sz) (bench_blocks bp b) s"
  shows "owned s'" and "dk_mem s' = dk_mem s"
    and "dk_handle s' = (\<lambda>obj. if obj \<in> {DkCmdMem, DkCmdBuf, DkSrc, DkDst} then dk_handle_of env obj else dk_handle s obj)"
    and "dk_error_seen s' \<longleftrightarrow> dk_error_seen s \<or> (\<exists>obj \<in> {DkCmdMem, DkCmdBuf, DkSrc, DkDst}. dk_fails_in env obj)"
proof -
  show "owned s'" unfolding s'_def bench_blocks_def
    using assms(1-3) by (auto intro!: owned_create)
qed (auto simp: s'_def bench_blocks_def fun_eq_iff)

lemma bench_destroyed:
  assumes "owned s" and "dk_handle s DkQueue = 0" and "dk_handle s DkShaderMem = 0" and "dk_handle s DkResultMem = 0"
  shows "owned (bench_destroy_blocks s)" and "no_objects (bench_destroy_blocks s)"
proof -
  have all: "obj \<in> {DkDevice, DkCmdMem, DkShaderMem, DkResultMem, DkCmdBuf, DkSrc, DkDst, DkQueue}" for obj
    by (cases obj) simp_all
  show "no_objects (bench_destroy_blocks s)"
    using assms(2-4) all by (auto simp: bench_destroy_blocks_def)
  show "owned (bench_destroy_blocks s)" unfolding bench_destroy_blocks_def
    using assms by (auto intro!: owned_destroy, use all assms(2-4) in blast)
qed

lemma bench_destroy_mem [simp]: "dk_mem (bench_destroy_blocks s) = dk_mem s"
  by (simp add: bench_destroy_blocks_def)

text \<open>The run up to the queue, and its two ends.\<close>

definition bench_prepared :: "BenchEnv \<Rightarrow> u64 \<Rightarrow> u64 \<Rightarrow> DkState \<Rightarrow> DkState" where
  "bench_prepared env storage_base b s =
     (let src = storage_base + NXMT_GPU_CMD_MEM_BYTES;
          s = fold (\<lambda>(obj, storage, sz). dk_create env obj storage sz) (bench_blocks storage_base b)
                (dk_create env DkDevice 0 0 (s\<lparr>dk_error_seen := False\<rparr>))
      in dk_create env DkQueue 0 0
           (s\<lparr>dk_mem := memset (memset (dk_mem s) src 0xa5 (unat b)) (src + b) 0 (unat b),
              dk_error_seen := dk_fails_recording env\<rparr>))"

lemma bench_run_cases:
  fixes s :: DkState and env :: BenchEnv and storage_base storage_size buffer_size :: u64 and iterations :: u32
  assumes clean: "dk_trace s = []" "no_objects s"
  defines "b \<equiv> align_page buffer_size" and "src \<equiv> storage_base + NXMT_GPU_CMD_MEM_BYTES"
  defines "p \<equiv> bench_prepared env storage_base b s"
  shows "if bench_accepts storage_base storage_size buffer_size iterations \<and> bench_blocks_ready env
    then nxmt_gpu_bench_run env storage_base storage_size buffer_size iterations s =
        (if dk_handle_of env DkQueue = 0 \<or> dk_fails_recording env \<or> dk_fails_in env DkQueue
         then (False, bench_destroy_blocks p)
         else let m = bench_copies env iterations src (src + b) (ucast b) (dk_mem p)
              in (memcmp_equal m src (src + b) (unat b),
                  bench_destroy_blocks (dk_destroy DkQueue (dk_wait_idle (p\<lparr>dk_mem := m\<rparr>)))))
    else \<exists>s'. nxmt_gpu_bench_run env storage_base storage_size buffer_size iterations s = (False, s')
        \<and> owned s' \<and> no_objects s' \<and> dk_mem s' = dk_mem s"
proof -
  let ?s0 = "dk_create env DkDevice 0 0 (s\<lparr>dk_error_seen := False\<rparr>)"
  let ?s1 = "fold (\<lambda>(obj, storage, sz). dk_create env obj storage sz) (bench_blocks storage_base b) ?s0"
  have own: "owned s" using clean by (simp add: owned_def)
  then have own': "owned (s\<lparr>dk_error_seen := False\<rparr>)" by (simp cong: owned_cong)
  then have own0: "owned ?s0" using clean(2) by (intro owned_create) auto
  show ?thesis
  proof (cases "bench_accepts storage_base storage_size buffer_size iterations")
    case False
    then have "nxmt_gpu_bench_run env storage_base storage_size buffer_size iterations s = (False, s)"
      by (auto simp: nxmt_gpu_bench_run_def bench_accepts_def Let_def not_less)
    then show ?thesis using own clean False by auto
  next
    case True
    then have conds: "(storage_base = 0 \<or> buffer_size = 0 \<or> iterations = 0) = False"
      "(storage_size < NXMT_GPU_CMD_MEM_BYTES + 2 * align_page buffer_size) = False"
      by (auto simp: bench_accepts_def not_less)
    note run = nxmt_gpu_bench_run_def [of env storage_base storage_size buffer_size iterations s,
        unfolded Let_def conds if_False]
    show ?thesis
    proof (cases "dk_handle ?s0 DkDevice = 0 \<or> dk_error_seen ?s0")
      case bad: True
      then have "nxmt_gpu_bench_run env storage_base storage_size buffer_size iterations s
          = (False, dk_destroy DkDevice ?s0)" unfolding run by (simp only: if_True)
      moreover have "owned (dk_destroy DkDevice ?s0)"
        using own0 clean(2) by (intro owned_destroy) auto
      moreover have "\<not> bench_blocks_ready env" using bad by (auto simp: bench_blocks_ready_def)
      ultimately show ?thesis using clean(2) by auto
    next
      case good: False
      have "\<And>obj. obj \<noteq> DkDevice \<Longrightarrow> dk_handle ?s0 obj = 0" "dk_handle ?s0 DkDevice \<noteq> 0"
        using clean(2) good by auto
      note b1 = bench_blocks_state [OF own0 this(2) this(1), of env storage_base b]
      show ?thesis
      proof (cases "bench_blocks_ready env")
        case False
        then have "nxmt_gpu_bench_run env storage_base storage_size buffer_size iterations s
            = (False, bench_destroy_blocks ?s1)"
          unfolding run b_def [symmetric] using good b1 by (auto simp: bench_blocks_ready_def)
        moreover have "dk_handle ?s1 DkQueue = 0" "dk_handle ?s1 DkShaderMem = 0" "dk_handle ?s1 DkResultMem = 0"
          using b1(3) clean(2) by simp_all
        note bench_destroyed [OF b1(1) this]
        ultimately show ?thesis using False b1(2) by auto
      next
        case ready: True
        have "dk_handle p DkQueue = dk_handle_of env DkQueue"
          "dk_error_seen p \<longleftrightarrow> dk_fails_recording env \<or> dk_fails_in env DkQueue"
          by (simp_all add: p_def bench_prepared_def Let_def)
        moreover have "nxmt_gpu_bench_run env storage_base storage_size buffer_size iterations s =
          (if dk_handle p DkQueue = 0 \<or> dk_error_seen p then (False, bench_destroy_blocks p)
           else let m = bench_copies env iterations src (src + b) (ucast b) (dk_mem p)
                in (memcmp_equal m src (src + b) (unat b),
                  bench_destroy_blocks (dk_destroy DkQueue (dk_wait_idle (p\<lparr>dk_mem := m\<rparr>)))))"
          unfolding run b_def [symmetric] using good b1 ready
          by (simp add: bench_blocks_ready_def p_def bench_prepared_def Let_def src_def)
        ultimately show ?thesis using True ready by simp
      qed
    qed
  qed
qed

lemma bench_prepared_state:
  fixes s :: DkState and env :: BenchEnv and storage_base b :: u64
  assumes clean: "dk_trace s = []" "no_objects s" and ready: "bench_blocks_ready env"
  defines "p \<equiv> bench_prepared env storage_base b s" and "src \<equiv> storage_base + NXMT_GPU_CMD_MEM_BYTES"
  shows "owned p" and "dk_handle p = (\<lambda>obj. if obj \<in> {DkShaderMem, DkResultMem} then 0 else dk_handle_of env obj)"
    and "dk_mem p = memset (memset (dk_mem s) src 0xa5 (unat b)) (src + b) 0 (unat b)"
proof -
  let ?s0 = "dk_create env DkDevice 0 0 (s\<lparr>dk_error_seen := False\<rparr>)"
  let ?s1 = "fold (\<lambda>(obj, storage, sz). dk_create env obj storage sz) (bench_blocks storage_base b) ?s0"
  have "owned (s\<lparr>dk_error_seen := False\<rparr>)" using clean by (simp add: owned_def)
  then have own0: "owned ?s0" using clean(2) by (intro owned_create) auto
  have dev: "dk_handle ?s0 DkDevice \<noteq> 0" "\<And>obj. obj \<noteq> DkDevice \<Longrightarrow> dk_handle ?s0 obj = 0"
    using ready clean(2) by (auto simp: bench_blocks_ready_def)
  note b1 = bench_blocks_state [OF own0 dev, of env storage_base b]
  have "owned (?s1\<lparr>dk_mem := m, dk_error_seen := e\<rparr>)" for m e using b1(1) by (simp cong: owned_cong)
  then show "owned p" unfolding p_def bench_prepared_def Let_def
    using b1(3) dev clean(2) by (intro owned_create) auto
  have "obj \<in> {DkDevice, DkCmdMem, DkShaderMem, DkResultMem, DkCmdBuf, DkSrc, DkDst, DkQueue}" for obj
    by (cases obj) simp_all
  then show "dk_handle p = (\<lambda>obj. if obj \<in> {DkShaderMem, DkResultMem} then 0 else dk_handle_of env obj)"
    unfolding p_def bench_prepared_def Let_def using b1(3) clean(2) by (auto simp: fun_eq_iff)
  show "dk_mem p = memset (memset (dk_mem s) src 0xa5 (unat b)) (src + b) 0 (unat b)"
    by (simp add: p_def bench_prepared_def Let_def b1(2) src_def)
qed

text \<open>With the queue still alive the device is destroyed under it.\<close>

lemma bench_destroy_leaks:
  assumes "owned s" and "dk_handle s DkQueue \<noteq> 0" and "dk_handle s DkDevice \<noteq> 0"
  shows "live_after {} (dk_trace (bench_destroy_blocks s)) = None"
proof -
  let ?s = "dk_destroy DkCmdMem (dk_destroy DkCmdBuf (dk_destroy DkSrc (dk_destroy DkDst s)))"
  have "owned ?s" using assms(1) by (intro owned_destroy) simp_all
  moreover have "dk_handle ?s DkQueue \<noteq> 0" "dk_handle ?s DkDevice \<noteq> 0" using assms by simp_all
  then have "{obj. dk_handle ?s obj \<noteq> 0} \<noteq> {DkDevice}" by auto
  moreover have "dk_trace (bench_destroy_blocks s) = dk_trace ?s @ [DkDestroy DkDevice]"
    using assms(3) by (simp add: bench_destroy_blocks_def dk_destroy_def [of DkDevice])
  ultimately show ?thesis by (simp add: owned_def live_after_append)
qed

text \<open>The objects alive after the exits of a run whose blocks were created.\<close>

lemma released: "owned s \<Longrightarrow> no_objects s \<Longrightarrow> live_after {} (dk_trace s) = Some {}" for s :: DkState
  by (simp add: owned_def)

lemma queue_exit_lives:
  assumes clean: "dk_trace s = []" "no_objects s" and ready: "bench_blocks_ready env"
  shows "live_after {} (dk_trace (bench_destroy_blocks (bench_prepared env storage b s)))
    = (if dk_handle_of env DkQueue = 0 then Some {} else None)"
proof -
  let ?p = "bench_prepared env storage b s"
  note p = bench_prepared_state [OF clean ready, of storage b]
  show ?thesis
  proof (cases "dk_handle_of env DkQueue = 0")
    case True
    then have "dk_handle ?p DkQueue = 0" "dk_handle ?p DkShaderMem = 0" "dk_handle ?p DkResultMem = 0"
      by (simp_all add: p(2))
    from released [OF bench_destroyed [OF p(1) this]] True show ?thesis by simp
  next
    case False
    moreover have "dk_handle ?p DkDevice \<noteq> 0" using ready by (simp add: p(2) bench_blocks_ready_def)
    ultimately show ?thesis by (auto intro!: bench_destroy_leaks p(1) simp: p(2))
  qed
qed

lemma normal_exit_lives:
  assumes clean: "dk_trace s = []" "no_objects s" and ready: "bench_blocks_ready env"
    and queue: "dk_handle_of env DkQueue \<noteq> 0"
  shows "live_after {} (dk_trace (bench_destroy_blocks (dk_destroy DkQueue (dk_wait_idle
      (bench_prepared env storage b s\<lparr>dk_mem := m\<rparr>))))) = Some {}"
proof -
  let ?p = "bench_prepared env storage b s"
  note p = bench_prepared_state [OF clean ready, of storage b]
  let ?done = "dk_destroy DkQueue (dk_wait_idle (?p\<lparr>dk_mem := m\<rparr>))"
  have "owned (?p\<lparr>dk_mem := m\<rparr>)" using p(1) by (simp cong: owned_cong)
  then have "owned ?done" using queue by (intro owned_destroy owned_wait_idle) (auto simp: p(2))
  moreover have "dk_handle ?done DkQueue = 0" "dk_handle ?done DkShaderMem = 0" "dk_handle ?done DkResultMem = 0"
    by (simp_all add: p(2))
  ultimately show ?thesis using released bench_destroyed by blast
qed

section \<open>Properties\<close>

text \<open>
  Property C24.  A benchmark run destroys what it created, each object once and the device last,
  whichever call fails, with one exception: when the queue was created but an error had been
  reported while the commands were recorded or in its creation, the queue is not destroyed
  and the device is destroyed under it.  A run that reports success has compared the buffers
  and found every byte equal.
\<close>

theorem bench_releases:
  assumes clean: "dk_trace s = []" "no_objects s"
    and run: "nxmt_gpu_bench_run env storage_base storage_size buffer_size iterations s = (ok, s')"
  shows "live_after {} (dk_trace s')
      = (if bench_accepts storage_base storage_size buffer_size iterations \<and> bench_blocks_ready env
           \<and> dk_handle_of env DkQueue \<noteq> 0 \<and> (dk_fails_recording env \<or> dk_fails_in env DkQueue)
         then None else Some {})
    \<and> (ok \<longrightarrow> (\<forall>i < unat (align_page buffer_size).
        dk_mem s' (storage_base + NXMT_GPU_CMD_MEM_BYTES + of_nat i)
          = dk_mem s' (storage_base + NXMT_GPU_CMD_MEM_BYTES + align_page buffer_size + of_nat i)))"
proof -
  let ?b = "align_page buffer_size"
  note cases = bench_run_cases [OF clean, of storage_base storage_size buffer_size iterations env, unfolded run]
  show ?thesis
  proof (cases "bench_accepts storage_base storage_size buffer_size iterations \<and> bench_blocks_ready env")
    case False
    with cases released show ?thesis by auto
  next
    case True
    then have ready: "bench_blocks_ready env" by simp
    show ?thesis
    proof (cases "dk_handle_of env DkQueue = 0 \<or> dk_fails_recording env \<or> dk_fails_in env DkQueue")
      case fails: True
      with cases True have "ok = False" "s' = bench_destroy_blocks (bench_prepared env storage_base ?b s)" by auto
      with queue_exit_lives [OF clean ready] fails True show ?thesis by auto
    next
      case False
      with cases True normal_exit_lives [OF clean ready] show ?thesis
        by (auto simp: Let_def memcmp_equal_def list_all_iff)
    qed
  qed
qed

definition demo_bench :: "bool \<Rightarrow> BenchEnv" where
  "demo_bench fails = \<lparr>dk_handle_of = (\<lambda>_. 1), dk_fails_in = (\<lambda>_. False), dk_fails_recording = fails,
     bench_copies = (\<lambda>n src dst len m x. if x - dst < ucast len then m (src + (x - dst)) else m x)\<rparr>"

definition demo_dk :: DkState where
  "demo_dk = \<lparr>dk_handle = (\<lambda>_. 0), dk_error_seen = False, dk_trace = [], dk_mem = (\<lambda>_. 0)\<rparr>"

theorem bench_releases_witness:
  "live_after {} (dk_trace (snd (nxmt_gpu_bench_run (demo_bench False) 0x100000 0x20000 4096 2 demo_dk))) = Some {}
    \<and> live_after {} (dk_trace (snd (nxmt_gpu_bench_run (demo_bench True) 0x100000 0x20000 4096 2 demo_dk))) = None"
proof -
  have al: "align_page 4096 = 4096" by (rule align_page_aligned) simp_all
  have "dk_trace demo_dk = []" "no_objects demo_dk" by (simp_all add: demo_dk_def)
  note rel = bench_releases [OF this surjective_pairing]
  have "bench_accepts 0x100000 0x20000 4096 2" by (simp add: bench_accepts_def al NXMT_GPU_CMD_MEM_BYTES_def)
  moreover have "bench_blocks_ready (demo_bench f)" for f by (simp add: bench_blocks_ready_def demo_bench_def)
  ultimately show ?thesis using conjunct1 [OF rel [of "demo_bench False" "0x100000" "0x20000" 4096 2]]
      conjunct1 [OF rel [of "demo_bench True" "0x100000" "0x20000" 4096 2]]
    by (simp add: demo_bench_def)
qed

section \<open>What a run writes\<close>

text \<open>The copies of deko3d write within the destination they were given.\<close>

definition bench_copies_bounded :: "BenchEnv \<Rightarrow> bool" where
  "bench_copies_bounded env \<longleftrightarrow>
     (\<forall>n src dst len m x. \<not> x - dst < ucast len \<longrightarrow> bench_copies env n src dst len m x = m x)"

lemma memset_apply: "n < 2 ^ 64 \<Longrightarrow> memset m p c n x = (if unat (x - p) < n then c else m x)"
  by (simp add: memset_def for_by_one [simplified] fold_byte_stores_apply [of _ _ "\<lambda>_. c"])

lemma ucast_word_down: "unat b < 2 ^ 32 \<Longrightarrow> ucast (ucast b :: u32) = (b :: u64)"
proof -
  assume "unat b < 2 ^ 32"
  then have "unat (ucast b :: u32) = unat b" by (simp add: unsigned_ucast_eq take_bit_nat_eq_self)
  then show ?thesis by (simp only: word_eq_iff_unat unat_ucast_32_64)
qed

lemma bench_apart:
  fixes b d :: u64
  assumes "unat b < 2 ^ 32" and "65536 + 2 * unat b \<le> unat d"
  shows "\<not> unat (d - 65536) < unat b" and "\<not> d - (65536 + b) < b"
proof -
  have "unat (65536 + b) = 65536 + unat b" using assms(1) by (subst unat_add_small) simp_all
  then show "\<not> unat (d - 65536) < unat b" "\<not> d - (65536 + b) < b"
    using assms by (auto simp: word_less_nat_alt unat_diff64)
qed

lemma bench_run_frame:
  assumes clean: "dk_trace s = []" "no_objects s" and bounded: "bench_copies_bounded env"
    and b: "unat (align_page buffer_size) < 2 ^ 32"
    and out: "unat storage_size \<le> unat (x - storage_base)"
  shows "dk_mem (snd (nxmt_gpu_bench_run env storage_base storage_size buffer_size iterations s)) x = dk_mem s x"
proof -
  let ?b = "align_page buffer_size" and ?src = "storage_base + NXMT_GPU_CMD_MEM_BYTES"
  let ?p = "bench_prepared env storage_base ?b s"
  note cases = bench_run_cases [OF clean, of storage_base storage_size buffer_size iterations env]
  show ?thesis
  proof (cases "bench_accepts storage_base storage_size buffer_size iterations \<and> bench_blocks_ready env")
    case False
    with cases show ?thesis by auto
  next
    case True
    have "unat (2 * ?b) = 2 * unat ?b" using b by (simp add: unat_word_ariths)
    then have "unat (65536 + 2 * ?b) = 65536 + 2 * unat ?b" using b by (subst unat_add_small) simp_all
    then have "65536 + 2 * unat ?b \<le> unat storage_size"
      using True by (simp add: bench_accepts_def NXMT_GPU_CMD_MEM_BYTES_def word_le_nat_alt)
    then have d: "65536 + 2 * unat ?b \<le> unat (x - storage_base)" using out by simp
    have off: "x - ?src = (x - storage_base) - 65536" "x - (?src + ?b) = (x - storage_base) - (65536 + ?b)"
      by (simp_all add: NXMT_GPU_CMD_MEM_BYTES_def)
    note apart = bench_apart [OF b d, folded off]
    have "dk_mem ?p x = dk_mem s x"
      using True apart unat64_less [of ?b]
      by (simp add: bench_prepared_state(3) [OF clean] memset_apply word_less_nat_alt)
    moreover have "bench_copies env iterations ?src (?src + ?b) (ucast ?b) (dk_mem ?p) x = dk_mem ?p x"
      using bounded apart(2) ucast_word_down [OF b] by (simp add: bench_copies_bounded_def)
    ultimately show ?thesis using cases True by (simp add: Let_def)
  qed
qed

lemma bench_sweep_frame:
  assumes "\<forall>i. bench_copies_bounded (envs i)"
    and "\<forall>(mib, iters) \<in> set steps. unat (align_page (mib * NXMT_MIB_BYTES)) < 2 ^ 32"
    and "unat needed \<le> unat (x - storage)"
  shows "snd (bench_sweep envs i storage needed steps m) x = m x"
  using assms
proof (induction envs i storage needed steps m rule: bench_sweep.induct)
  case (2 envs i storage needed size_mib iters steps m)
  let ?s = "\<lparr>dk_handle = (\<lambda>_. 0), dk_error_seen = False, dk_trace = [], dk_mem = m\<rparr>"
  obtain ok s' where run: "nxmt_gpu_bench_run (envs i) storage needed (size_mib * NXMT_MIB_BYTES) iters ?s = (ok, s')"
    by fastforce
  have "dk_mem s' x = m x"
    using bench_run_frame [of ?s "envs i" "size_mib * NXMT_MIB_BYTES" needed x storage iters] 2 run by auto
  moreover have "ok \<Longrightarrow> snd (bench_sweep envs (Suc i) storage needed steps (dk_mem s')) x = dk_mem s' x"
    using 2 run by auto
  ultimately show ?case using run by simp
qed simp

text \<open>The storage of the sweep and the sizes of its steps.\<close>

lemma storage_needed: "unat (bench_storage_needed arena) = min (unat (a_size arena)) (513 * 2 ^ 20)"
  by (simp add: bench_storage_needed_def word_less_nat_alt min_def)

lemma storage_offset: "unat (a_size arena - bench_storage_needed arena) = unat (a_size arena) - unat (bench_storage_needed arena)"
  by (intro unat_sub) (simp add: storage_needed word_le_nat_alt)

lemma bench_step_sizes:
  assumes "(mib, iters) \<in> set bench_steps"
  shows "align_page (mib * NXMT_MIB_BYTES) = mib * NXMT_MIB_BYTES
    \<and> unat (mib * NXMT_MIB_BYTES) \<le> 2 ^ 28 \<and> 0 < unat (mib * NXMT_MIB_BYTES) \<and> iters \<noteq> 0"
proof -
  have pages: "align_page (mib * NXMT_MIB_BYTES) = mib * NXMT_MIB_BYTES"
    if "unat (mib * NXMT_MIB_BYTES) = k * 2 ^ 20" "k \<le> 256" for mib k
    using that by (intro align_page_aligned) simp_all
  have "mib \<in> {4, 16, 32, 64, 128, 256}" "iters \<noteq> 0" using assms by (auto simp: bench_steps_def)
  then show ?thesis
    using pages [of 4 4] pages [of 16 16] pages [of 32 32] pages [of 64 64] pages [of 128 128] pages [of 256 256]
    by auto
qed

text \<open>
  Property C23.  The benchmark screen stays in the tail of the arena: whatever deko3d does, as long
  as its copies stay within their destination, the sweep changes no byte outside the last
  513 MiB of the arena (the whole of a smaller one), and in an arena of that size every step
  has room for its buffers.
\<close>

theorem bench_screen_in_tail:
  assumes bounded: "\<forall>i. bench_copies_bounded (envs i)"
    and out: "unat (x - a_base arena) < unat (a_size arena) - 513 * 2 ^ 20
      \<or> unat (a_size arena) \<le> unat (x - a_base arena)"
  shows "snd (run_gpu_bench_screen envs arena m) x = m x
    \<and> (a_base arena \<noteq> 0 \<and> unat (a_base arena) + unat (a_size arena) < 2 ^ 64 \<and> 513 * 2 ^ 20 \<le> unat (a_size arena)
       \<longrightarrow> list_all (\<lambda>(mib, iters). bench_accepts (a_base arena + (a_size arena - bench_storage_needed arena))
             (bench_storage_needed arena) (mib * NXMT_MIB_BYTES) iters) bench_steps)"
proof
  let ?n = "bench_storage_needed arena" and ?d = "x - a_base arena"
  note n = storage_needed [of arena] and rest = storage_offset [of arena]
  have "x - (a_base arena + (a_size arena - ?n)) = ?d - (a_size arena - ?n)" by simp
  then have "unat ?n \<le> unat (x - (a_base arena + (a_size arena - ?n)))"
    using out rest n unat64_less [of "a_size arena"]
    by (simp only: unat_diff64 [of ?d]) (auto simp: min_def split: if_splits)
  moreover note steps = bench_step_sizes
  then have "\<forall>(mib, iters) \<in> set bench_steps. unat (align_page (mib * NXMT_MIB_BYTES)) < 2 ^ 32"
    by fastforce
  ultimately show "snd (run_gpu_bench_screen envs arena m) x = m x"
    unfolding run_gpu_bench_screen_def Let_def by (intro bench_sweep_frame bounded)
  show "a_base arena \<noteq> 0 \<and> unat (a_base arena) + unat (a_size arena) < 2 ^ 64 \<and> 513 * 2 ^ 20 \<le> unat (a_size arena)
       \<longrightarrow> list_all (\<lambda>(mib, iters). bench_accepts (a_base arena + (a_size arena - ?n)) ?n (mib * NXMT_MIB_BYTES) iters)
             bench_steps"
  proof (intro impI, elim conjE)
    assume arena: "a_base arena \<noteq> 0" "unat (a_base arena) + unat (a_size arena) < 2 ^ 64"
      and large: "513 * 2 ^ 20 \<le> unat (a_size arena)"
    have "unat (a_base arena + (a_size arena - ?n)) = unat (a_base arena) + (unat (a_size arena) - unat ?n)"
      using arena by (subst unat_add_small) (simp_all add: rest)
    then have base: "a_base arena + (a_size arena - ?n) \<noteq> 0"
      using arena(1) by (auto simp: unat_eq_zero [symmetric])
    have "NXMT_GPU_CMD_MEM_BYTES + 2 * b \<le> ?n" if "unat b \<le> 2 ^ 28" for b
    proof -
      have "unat (2 * b) = 2 * unat b" using that by (simp add: unat_word_ariths)
      then have "unat (65536 + 2 * b) = 65536 + 2 * unat b" using that by (subst unat_add_small) simp_all
      then show ?thesis using that large n by (simp add: word_le_nat_alt NXMT_GPU_CMD_MEM_BYTES_def)
    qed
    with steps base show "list_all (\<lambda>(mib, iters). bench_accepts (a_base arena + (a_size arena - ?n)) ?n
        (mib * NXMT_MIB_BYTES) iters) bench_steps"
      by (fastforce simp: list_all_iff bench_accepts_def)
  qed
qed

theorem bench_screen_in_tail_witness:
  "snd (run_gpu_bench_screen (\<lambda>_. demo_bench False) \<lparr>a_base = 0x100000, a_size = 0x40000000, a_words = 0x8000000\<rparr>
      (\<lambda>_. 7)) 0x200000 = 7"
proof -
  have "\<forall>i::nat. bench_copies_bounded (demo_bench False)" by (simp add: bench_copies_bounded_def demo_bench_def)
  from bench_screen_in_tail [OF this, of "0x200000"
      "\<lparr>a_base = 0x100000, a_size = 0x40000000, a_words = 0x8000000\<rparr>" "\<lambda>_. 7"]
  show ?thesis by simp
qed

end
