(* ===== verification/Menu.thy ===== *)
theory Menu
  imports Gpu_Bench
begin

text \<open>
  The menus of \<^verbatim>\<open>source/nx/main.c\<close>: the choice of the mode, of the duration, and the loop that
  combines them.  A frame is one turn of a menu loop: \<open>None\<close> when \<^verbatim>\<open>appletMainLoop\<close> tells the
  application to end, otherwise the buttons pressed.  A menu consumes frames; with too few of
  them it is still waiting, which is the result \<open>None\<close>.  Drawing is not part of the model.
\<close>

type_synonym Frame = "NxmtInput option"

section \<open>The duration\<close>

record DurationOption =
  duration_label :: string
  duration_secs :: u64

definition kDurations :: "DurationOption list" where
  "kDurations =
     [\<lparr>duration_label = ''3 minutes'', duration_secs = 3 * 60\<rparr>,
      \<lparr>duration_label = ''5 minutes'', duration_secs = 5 * 60\<rparr>,
      \<lparr>duration_label = ''10 minutes'', duration_secs = 10 * 60\<rparr>,
      \<lparr>duration_label = ''15 minutes'', duration_secs = 15 * 60\<rparr>,
      \<lparr>duration_label = ''30 minutes'', duration_secs = 30 * 60\<rparr>,
      \<lparr>duration_label = ''60 minutes'', duration_secs = 60 * 60\<rparr>]"

abbreviation NXMT_DURATION_COUNT :: nat where "NXMT_DURATION_COUNT \<equiv> length kDurations"

text \<open>The result is 1 for a choice, 0 for exit and -1 for back, and the seconds written.\<close>

fun duration_loop :: "int \<Rightarrow> u64 \<Rightarrow> Frame list \<Rightarrow> (int \<times> u64 \<times> Frame list) option" where
  "duration_loop sel out_seconds [] = None"
| "duration_loop sel out_seconds (None # frames) = Some (0, out_seconds, frames)"
| "duration_loop sel out_seconds (Some input # frames) =
     (if in_plus input then Some (0, out_seconds, frames)
      else if in_b input then Some (-1, out_seconds, frames)
      else if in_a input then Some (1, duration_secs (kDurations ! nat sel), frames)
      else
        let sel = (if in_up input \<and> sel > 0 then sel - 1 else sel);
            sel = (if in_down input \<and> sel < int NXMT_DURATION_COUNT - 1 then sel + 1 else sel)
        in duration_loop sel out_seconds frames)"

definition tui_choose_duration :: "u64 \<Rightarrow> Frame list \<Rightarrow> (int \<times> u64 \<times> Frame list) option" where
  "tui_choose_duration out_seconds frames = duration_loop 1 out_seconds frames"

section \<open>The mode\<close>

text \<open>The benchmark screen waits for a button before it returns to the menu.\<close>

fun bench_screen_wait :: "Frame list \<Rightarrow> Frame list option" where
  "bench_screen_wait [] = None"
| "bench_screen_wait (None # frames) = Some frames"
| "bench_screen_wait (Some input # frames) =
     (if in_plus input \<or> in_b input then Some frames else bench_screen_wait frames)"

lemma bench_screen_wait_shorter: "bench_screen_wait frames = Some rest \<Longrightarrow> length rest < length frames"
  by (induction frames rule: bench_screen_wait.induct) (auto split: if_splits)

text \<open>\<open>bench\<close> is what the benchmark screen does to the memory.\<close>

function tui_choose_mode ::
    "(mem \<Rightarrow> mem) \<Rightarrow> NxmtArena \<Rightarrow> NxmtMode \<Rightarrow> mem \<Rightarrow> Frame list \<Rightarrow> (bool \<times> NxmtMode \<times> mem \<times> Frame list) option" where
  "tui_choose_mode bench arena out_mode m frames =
     (let has_memory_load = a_size arena \<ge> 256 * NXMT_MIB_BYTES;
          has_extreme = a_size arena \<ge> 512 * NXMT_MIB_BYTES
      in case frames of
           [] \<Rightarrow> None
         | None # frames \<Rightarrow> Some (False, out_mode, m, frames)
         | Some input # frames \<Rightarrow>
             if in_plus input then Some (False, out_mode, m, frames)
             else if in_a input then Some (True, NXMT_MODE_QUICK, m, frames)
             else if in_x input \<and> has_memory_load then Some (True, NXMT_MODE_MEMORY_LOAD, m, frames)
             else if in_y input \<and> has_extreme then Some (True, NXMT_MODE_EXTREME, m, frames)
             else if in_b input
             then (case bench_screen_wait frames of
                     None \<Rightarrow> None
                   | Some rest \<Rightarrow> tui_choose_mode bench arena out_mode (bench m) rest)
             else tui_choose_mode bench arena out_mode m frames)"
  by pat_completeness auto
termination
  by (relation "measure (\<lambda>(bench, arena, out_mode, m, frames). length frames)")
    (auto dest: bench_screen_wait_shorter)

declare tui_choose_mode.simps [simp del]

section \<open>The selection\<close>

record Selection =
  sel_exit_app :: bool
  sel_mode_selected :: bool
  sel_mode :: NxmtMode
  sel_duration_seconds :: u64
  sel_mem :: mem
  sel_frames :: "Frame list"

text \<open>One frame of the mode menu: what the rest of the frames is left for.\<close>

lemma choose_mode_step:
  "tui_choose_mode bench arena out_mode m [] = None"
  "tui_choose_mode bench arena out_mode m (None # frames) = Some (False, out_mode, m, frames)"
  "tui_choose_mode bench arena out_mode m (Some input # frames) =
     (if in_plus input then Some (False, out_mode, m, frames)
      else if in_a input then Some (True, NXMT_MODE_QUICK, m, frames)
      else if in_x input \<and> a_size arena \<ge> 256 * NXMT_MIB_BYTES then Some (True, NXMT_MODE_MEMORY_LOAD, m, frames)
      else if in_y input \<and> a_size arena \<ge> 512 * NXMT_MIB_BYTES then Some (True, NXMT_MODE_EXTREME, m, frames)
      else if in_b input
      then (case bench_screen_wait frames of
              None \<Rightarrow> None
            | Some rest \<Rightarrow> tui_choose_mode bench arena out_mode (bench m) rest)
      else tui_choose_mode bench arena out_mode m frames)"
  by (simp_all add: tui_choose_mode.simps [of bench arena out_mode m])

text \<open>What the mode menu returns; the induction over its frames, once.\<close>

definition mode_ok :: "NxmtArena \<Rightarrow> NxmtMode \<Rightarrow> bool" where
  "mode_ok arena mode \<longleftrightarrow> (mode = NXMT_MODE_MEMORY_LOAD \<longrightarrow> 256 * NXMT_MIB_BYTES \<le> a_size arena)
     \<and> (mode = NXMT_MODE_EXTREME \<longrightarrow> 512 * NXMT_MIB_BYTES \<le> a_size arena)"

lemma choose_mode_result:
  "tui_choose_mode bench arena out_mode m frames = Some (ok, md, m', rest) \<Longrightarrow>
    length rest < length frames \<and> (if ok then mode_ok arena md else md = out_mode)
    \<and> (\<exists>k. m' = (bench ^^ k) m)"
proof (induction frames arbitrary: m rule: length_induct)
  case (1 frames)
  note IH = "1.IH" [rule_format]
  show ?case
  proof (cases frames)
    case Nil
    with "1.prems" show ?thesis by (simp add: choose_mode_step)
  next
    case (Cons f fs)
    show ?thesis
    proof (cases f)
      case None
      with "1.prems" Cons show ?thesis by (auto simp: choose_mode_step intro: exI [of _ 0])
    next
      case (Some input)
      show ?thesis
      proof (cases "in_plus input \<or> in_a input \<or> in_x input \<and> a_size arena \<ge> 256 * NXMT_MIB_BYTES
          \<or> in_y input \<and> a_size arena \<ge> 512 * NXMT_MIB_BYTES")
        case True
        with "1.prems" Cons Some show ?thesis
          by (auto simp: choose_mode_step mode_ok_def intro: exI [of _ 0] split: if_splits)
      next
        case False
        show ?thesis
        proof (cases "in_b input")
          case True
          with "1.prems" Cons Some False obtain r where
            r: "bench_screen_wait fs = Some r" "tui_choose_mode bench arena out_mode (bench m) r = Some (ok, md, m', rest)"
            by (auto simp: choose_mode_step split: option.splits if_splits)
          from bench_screen_wait_shorter [OF r(1)] Cons IH [OF _ r(2)] obtain k where
            "length rest < length frames \<and> (if ok then mode_ok arena md else md = out_mode)" "m' = (bench ^^ k) (bench m)"
            by force
          then show ?thesis by (auto intro!: exI [of _ "Suc k"] simp: funpow_swap1)
        next
          case noB: False
          with "1.prems" Cons Some False have "tui_choose_mode bench arena out_mode m fs = Some (ok, md, m', rest)"
            by (auto simp: choose_mode_step split: if_splits)
          with IH [of fs m] Cons show ?thesis by force
        qed
      qed
    qed
  qed
qed

lemma choose_mode_shorter:
  "tui_choose_mode bench arena out_mode m frames = Some (ok, md, m', rest) \<Longrightarrow> length rest < length frames"
  using choose_mode_result by blast

lemma duration_result:
  "duration_loop sel secs frames = Some (r, secs', rest) \<Longrightarrow> 0 \<le> sel \<Longrightarrow> sel < 6 \<Longrightarrow>
    length rest < length frames \<and> r \<in> {-1, 0, 1}
    \<and> (if r = 1 then secs' \<in> duration_secs ` set kDurations else secs' = secs)"
proof (induction frames arbitrary: sel)
  case (Cons f frames)
  have six: "length kDurations = 6" by (simp add: kDurations_def)
  show ?case
  proof (cases f)
    case None
    with Cons.prems show ?thesis by auto
  next
    case (Some input)
    let ?up = "if in_up input \<and> sel > 0 then sel - 1 else sel"
    let ?sel = "if in_down input \<and> ?up < 5 then ?up + 1 else ?up"
    show ?thesis
    proof (cases "in_plus input \<or> in_b input \<or> in_a input")
      case True
      have "kDurations ! nat sel \<in> set kDurations" using Cons.prems by (intro nth_mem) (simp add: six)
      with True Cons.prems Some show ?thesis by (auto split: if_splits)
    next
      case False
      then have "duration_loop ?sel secs frames = Some (r, secs', rest)"
        using Cons.prems(1) Some by (simp add: six Let_def)
      moreover have "0 \<le> ?sel" "?sel < 6" using Cons.prems(2,3) by auto
      ultimately have "length rest < length frames \<and> r \<in> {-1, 0, 1}
          \<and> (if r = 1 then secs' \<in> duration_secs ` set kDurations else secs' = secs)"
        by (rule Cons.IH)
      then show ?thesis by auto
    qed
  qed
qed simp

lemma duration_shorter:
  "tui_choose_duration secs frames = Some (r, secs', rest) \<Longrightarrow> length rest < length frames"
  unfolding tui_choose_duration_def by (drule duration_result) simp_all

function mode_select_loop ::
    "(mem \<Rightarrow> mem) \<Rightarrow> NxmtArena \<Rightarrow> NxmtMode \<Rightarrow> u64 \<Rightarrow> mem \<Rightarrow> Frame list \<Rightarrow> Selection option" where
  "mode_select_loop bench arena mode duration_seconds m frames =
     (case tui_choose_mode bench arena mode m frames of
        None \<Rightarrow> None
      | Some (chosen, mode, m, frames) \<Rightarrow>
          if \<not> chosen
          then Some \<lparr>sel_exit_app = True, sel_mode_selected = False, sel_mode = mode,
                     sel_duration_seconds = duration_seconds, sel_mem = m, sel_frames = frames\<rparr>
          else if mode = NXMT_MODE_QUICK
          then Some \<lparr>sel_exit_app = False, sel_mode_selected = True, sel_mode = mode,
                     sel_duration_seconds = 0, sel_mem = m, sel_frames = frames\<rparr>
          else (case tui_choose_duration duration_seconds frames of
                  None \<Rightarrow> None
                | Some (dr, duration_seconds, frames) \<Rightarrow>
                    if dr = 0
                    then Some \<lparr>sel_exit_app = True, sel_mode_selected = False, sel_mode = mode,
                               sel_duration_seconds = duration_seconds, sel_mem = m, sel_frames = frames\<rparr>
                    else if dr = 1
                    then Some \<lparr>sel_exit_app = False, sel_mode_selected = True, sel_mode = mode,
                               sel_duration_seconds = duration_seconds, sel_mem = m, sel_frames = frames\<rparr>
                    else mode_select_loop bench arena mode duration_seconds m frames))"
  by pat_completeness auto
termination
  by (relation "measure (\<lambda>(bench, arena, mode, secs, m, frames). length frames)")
    (auto dest!: choose_mode_shorter duration_shorter)

declare mode_select_loop.simps [simp del]


section \<open>Properties\<close>

text \<open>Told to end twice, every menu returns: once for the benchmark screen, once for the menu itself.\<close>

lemma bench_wait_tail:
  "\<exists>rest. bench_screen_wait (fs @ [None, None]) = Some rest
    \<and> (rest = [None] \<or> (\<exists>fs'. length fs' < Suc (length fs) \<and> rest = fs' @ [None, None]))"
proof (induction fs)
  case (Cons f fs)
  then show ?case by (cases f) (auto intro: less_SucI)
qed simp

lemma choose_mode_tail:
  "\<exists>ok md m' rest. tui_choose_mode bench arena out_mode m (fs @ [None, None]) = Some (ok, md, m', rest)
    \<and> (ok \<longrightarrow> (\<exists>fs'. length fs' < length fs \<and> rest = fs' @ [None, None]))"
proof (induction fs arbitrary: m rule: length_induct)
  case (1 fs)
  note IH = "1.IH" [rule_format]
  show ?case
  proof (cases fs)
    case Nil
    then show ?thesis by (auto simp: choose_mode_step)
  next
    case (Cons f gs)
    then show ?thesis
    proof (cases f)
      case None
      with Cons show ?thesis by (auto simp: choose_mode_step)
    next
      case (Some input)
      have gs: "\<exists>ok md m' rest. tui_choose_mode bench arena out_mode m'' (hs @ [None, None]) = Some (ok, md, m', rest)
          \<and> (ok \<longrightarrow> (\<exists>fs'. length fs' < length fs \<and> rest = fs' @ [None, None]))"
        if less: "length hs < length fs" for hs m''
      proof -
        from IH [OF less, of m''] obtain ok md m' rest where
          r: "tui_choose_mode bench arena out_mode m'' (hs @ [None, None]) = Some (ok, md, m', rest)"
          "ok \<longrightarrow> (\<exists>fs'. length fs' < length hs \<and> rest = fs' @ [None, None])"
          by blast
        from r(2) less have "ok \<longrightarrow> (\<exists>fs'. length fs' < length fs \<and> rest = fs' @ [None, None])"
          using less_trans by blast
        with r(1) show ?thesis by blast
      qed
      obtain rest where rest: "bench_screen_wait (gs @ [None, None]) = Some rest"
        "rest = [None] \<or> (\<exists>fs'. length fs' < Suc (length gs) \<and> rest = fs' @ [None, None])"
        using bench_wait_tail by blast
      from rest(2) have bench: "\<exists>ok md m' rest'. tui_choose_mode bench arena out_mode (bench m) rest = Some (ok, md, m', rest')
          \<and> (ok \<longrightarrow> (\<exists>fs'. length fs' < length fs \<and> rest' = fs' @ [None, None]))"
      proof
        assume "rest = [None]"
        then show ?thesis by (auto simp: choose_mode_step)
      next
        assume "\<exists>fs'. length fs' < Suc (length gs) \<and> rest = fs' @ [None, None]"
        with gs Cons show ?thesis by auto
      qed
      have stay: "\<exists>ok md m' rest. tui_choose_mode bench arena out_mode m (gs @ [None, None]) = Some (ok, md, m', rest)
          \<and> (ok \<longrightarrow> (\<exists>fs'. length fs' < length fs \<and> rest = fs' @ [None, None]))"
        using gs [of gs m] Cons by simp
      have "length gs < length fs" using Cons by simp
      then have chosen: "\<exists>fs'. length fs' < length fs \<and> gs @ [None, None] = fs' @ [None, None]" by blast
      show ?thesis
        unfolding Cons Some append_Cons choose_mode_step(3) rest(1) option.case
        using bench stay chosen unfolding Cons Some by (simp split del: if_split) (simp split: if_split, blast)
    qed
  qed
qed

lemma duration_tail:
  "\<exists>r secs' rest. duration_loop sel secs (fs @ [None, None]) = Some (r, secs', rest)
    \<and> (r \<notin> {0, 1} \<longrightarrow> (\<exists>fs'. length fs' < length fs \<and> rest = fs' @ [None, None]))"
proof (induction fs arbitrary: sel)
  case (Cons f fs)
  show ?case
  proof (cases f)
    case (Some input)
    have "\<exists>r secs' rest. duration_loop sel' secs (fs @ [None, None]) = Some (r, secs', rest)
      \<and> (r \<notin> {0, 1} \<longrightarrow> (\<exists>fs'. length fs' < length (f # fs) \<and> rest = fs' @ [None, None]))" for sel'
      using Cons [of sel'] by fastforce
    with Some show ?thesis by (auto simp: Let_def)
  qed simp
qed simp

text \<open>
  Property C37.  The menus end: whatever has been pressed before, once the system tells the
  application to end (at most two frames of it are needed) a selection has been made.
\<close>

theorem menu_returns:
  "mode_select_loop bench arena mode duration_seconds m (frames @ [None, None]) \<noteq> None"
proof (induction frames arbitrary: mode duration_seconds m rule: length_induct)
  case (1 frames)
  obtain ok md m' rest where chosen: "tui_choose_mode bench arena mode m (frames @ [None, None]) = Some (ok, md, m', rest)"
    "ok \<longrightarrow> (\<exists>fs'. length fs' < length frames \<and> rest = fs' @ [None, None])"
    using choose_mode_tail by blast
  show ?case
  proof (cases "ok \<and> md \<noteq> NXMT_MODE_QUICK")
    case False
    with chosen show ?thesis by (subst mode_select_loop.simps) simp
  next
    case True
    then obtain fs where fs: "length fs < length frames" "rest = fs @ [None, None]" using chosen(2) by blast
    obtain r secs' rest' where dur: "tui_choose_duration duration_seconds rest = Some (r, secs', rest')"
      "r \<notin> {0, 1} \<longrightarrow> (\<exists>fs'. length fs' < length fs \<and> rest' = fs' @ [None, None])"
      unfolding tui_choose_duration_def fs(2) using duration_tail by blast
    show ?thesis
    proof (cases "r \<in> {0, 1}")
      case True': True
      with chosen(1) True dur(1) show ?thesis by (subst mode_select_loop.simps) auto
    next
      case False
      then obtain fs' where "length fs' < length frames" "rest' = fs' @ [None, None]"
        using dur(2) fs(1) less_trans by blast
      with "1.IH" have "mode_select_loop bench arena md secs' m' rest' \<noteq> None" by blast
      with chosen(1) True dur(1) False show ?thesis by (subst mode_select_loop.simps) auto
    qed
  qed
qed

text \<open>
  Property C18.  What the menus can select: they either leave the application or select a mode.  Quick
  has no duration; the other modes are offered only in an arena that is large enough (256 MiB
  and 512 MiB) and come with one of the durations of the list.  The memory is as it was but for
  the benchmark runs asked for on the way, and at least one frame has passed.
\<close>

theorem menu_selection:
  assumes "mode_select_loop bench arena mode duration_seconds m frames = Some r"
  shows "sel_exit_app r = (\<not> sel_mode_selected r)
    \<and> (sel_mode_selected r \<longrightarrow>
         (if sel_mode r = NXMT_MODE_QUICK then sel_duration_seconds r = 0
          else sel_duration_seconds r \<in> {180, 300, 600, 900, 1800, 3600}
            \<and> (if sel_mode r = NXMT_MODE_MEMORY_LOAD then 256 else 512) * 2 ^ 20 \<le> unat (a_size arena)))
    \<and> (\<exists>k. sel_mem r = (bench ^^ k) m)
    \<and> length (sel_frames r) < length frames"
  using assms
proof (induction frames arbitrary: mode duration_seconds m rule: length_induct)
  case (1 frames)
  from "1.prems" obtain ok md m' rest where
    chosen: "tui_choose_mode bench arena mode m frames = Some (ok, md, m', rest)"
    by (subst (asm) mode_select_loop.simps) (auto split: option.splits)
  from choose_mode_result [OF this] obtain k where
    c: "length rest < length frames" "ok \<Longrightarrow> mode_ok arena md" "m' = (bench ^^ k) m"
    by (auto split: if_splits)
  note run = "1.prems" [unfolded mode_select_loop.simps [of bench arena mode duration_seconds m frames] chosen option.case prod.case]
  show ?case
  proof (cases "ok \<and> md \<noteq> NXMT_MODE_QUICK")
    case False
    with run c show ?thesis by (auto split: if_splits)
  next
    case True
    with run obtain dr secs' rest' where dur: "tui_choose_duration duration_seconds rest = Some (dr, secs', rest')"
      by (auto split: option.splits)
    from duration_result [OF this [unfolded tui_choose_duration_def]]
    have d: "length rest' < length rest" "dr \<in> {-1, 0, 1}" "dr = 1 \<Longrightarrow> secs' \<in> {180, 300, 600, 900, 1800, 3600}"
      by (auto simp: kDurations_def split: if_splits)
    have size: "(if md = NXMT_MODE_MEMORY_LOAD then 256 else 512) * 2 ^ 20 \<le> unat (a_size arena)"
      using True c(2) by (cases md) (auto simp: mode_ok_def word_le_nat_alt)
    show ?thesis
    proof (cases "dr = 0 \<or> dr = 1")
      case zero: True
      with run True dur d c size show ?thesis by (auto split: if_splits)
    next
      case False
      with run True dur have again: "mode_select_loop bench arena md secs' m' rest' = Some r" by simp
      have "length rest' < length frames" using d(1) c(1) by simp
      from "1.IH" [rule_format, OF this again] c(3) obtain j where
        "sel_mem r = (bench ^^ (j + k)) m" by (auto simp: funpow_add)
      with "1.IH" [rule_format, OF \<open>length rest' < length frames\<close> again] d(1) c(1) show ?thesis
        by (auto split: if_splits)
    qed
  qed
qed

definition no_buttons :: NxmtInput where
  "no_buttons = \<lparr>in_a = False, in_b = False, in_x = False, in_y = False, in_up = False, in_down = False,
     in_plus = False\<rparr>"

definition demo_frames :: "Frame list" where
  "demo_frames = [Some (no_buttons\<lparr>in_b := True\<rparr>), Some (no_buttons\<lparr>in_b := True\<rparr>),
     Some (no_buttons\<lparr>in_x := True\<rparr>), Some (no_buttons\<lparr>in_down := True\<rparr>), Some (no_buttons\<lparr>in_a := True\<rparr>)]"

lemma demo_menu:
  "mode_select_loop (\<lambda>m. m(5 := 1)) \<lparr>a_base = 0x100000, a_size = 0x20000000, a_words = 0x4000000\<rparr> NXMT_MODE_QUICK 0
      (\<lambda>_. 0) demo_frames
    = Some \<lparr>sel_exit_app = False, sel_mode_selected = True, sel_mode = NXMT_MODE_MEMORY_LOAD,
        sel_duration_seconds = 600, sel_mem = (\<lambda>_. 0)(5 := 1), sel_frames = []\<rparr>"
  by (simp add: mode_select_loop.simps demo_frames_def no_buttons_def choose_mode_step tui_choose_duration_def
      kDurations_def Let_def)

theorem menu_selection_witness:
  "\<exists>r. mode_select_loop (\<lambda>m. m(5 := 1)) \<lparr>a_base = 0x100000, a_size = 0x20000000, a_words = 0x4000000\<rparr> NXMT_MODE_QUICK 0
      (\<lambda>_. 0) demo_frames = Some r \<and> sel_mode_selected r \<and> sel_exit_app r = (\<not> sel_mode_selected r)"
  using menu_selection [OF demo_menu] demo_menu by simp

end
