(* ===== verification/Filler.thy ===== *)
theory Filler
  imports Patterns Platform
begin

text \<open>
  \<^verbatim>\<open>source/nx/cpu_filler.c\<close>: a thread that mixes a number in bursts of 90 ms until the stop flag
  is raised.  The environment gives the clock at each reading and the flag at each load;
  \<open>f_loads\<close> and \<open>f_reads\<close> count them.  Both loops may run for ever, so they are partial.
\<close>

unbundle bit_operations_syntax

record FillerEnv =
  filler_stop :: "nat \<Rightarrow> bool"
  filler_ticks :: "nat \<Rightarrow> u64"
  filler_threadCreate :: u32
  filler_threadStart :: u32

record FillerState =
  f_state :: u64
  g_filler_sink :: u64
  f_loads :: nat
  f_reads :: nat

definition NXMT_FILLER_BURST_MS :: u64 where "NXMT_FILLER_BURST_MS = 90"

definition filler_mix :: "u64 \<Rightarrow> u64" where
  "filler_mix state = fst (for_by 1 0 4096
     (\<lambda>i state.
        let state = nxmt_mix64 (state + of_nat i);
            state = state XOR push_bit 13 state;
            state = state XOR drop_bit 7 state
        in state XOR push_bit 17 state) state)"

partial_function (option) filler_burst :: "FillerEnv \<Rightarrow> u64 \<Rightarrow> FillerState \<Rightarrow> FillerState option" where
  "filler_burst env deadline s =
     (if filler_ticks env (f_reads s) < deadline
      then let stop = filler_stop env (f_loads s);
               s = s\<lparr>f_reads := f_reads s + 1, f_state := filler_mix (f_state s), f_loads := f_loads s + 1\<rparr>
           in if stop then Some s else filler_burst env deadline s
      else Some (s\<lparr>f_reads := f_reads s + 1\<rparr>))"

partial_function (option) filler_loop :: "FillerEnv \<Rightarrow> FillerState \<Rightarrow> FillerState option" where
  "filler_loop env s =
     (let stop = filler_stop env (f_loads s);
          s = s\<lparr>f_loads := f_loads s + 1\<rparr>
      in if stop then Some s
         else
           let deadline = filler_ticks env (f_reads s) + NXMT_FILLER_BURST_MS
           in case filler_burst env deadline (s\<lparr>f_reads := f_reads s + 1\<rparr>) of
                None \<Rightarrow> None
              | Some s \<Rightarrow> filler_loop env (s\<lparr>g_filler_sink := f_state s\<rparr>))"

definition filler_entry :: "FillerEnv \<Rightarrow> u64 \<Rightarrow> FillerState option" where
  "filler_entry env sink =
     filler_loop env \<lparr>f_state = 0xc0ffeebaadf00d05, g_filler_sink = sink, f_loads = 0, f_reads = 0\<rparr>"

definition nxmt_cpu_filler_start :: "FillerEnv \<Rightarrow> bool \<Rightarrow> bool" where
  "nxmt_cpu_filler_start env has_stop =
     (if \<not> has_stop then False
      else if R_FAILED (filler_threadCreate env) then False
      else if R_FAILED (filler_threadStart env) then False
      else True)"

section \<open>Stopping\<close>

lemma filler_burst_returns:
  assumes stop: "\<forall>k\<ge>n. filler_stop env k"
  shows "\<exists>s'. filler_burst env deadline s = Some s' \<and> f_loads s \<le> f_loads s'
    \<and> f_loads s' \<le> max (f_loads s + 1) (n + 1)"
proof (induction "n - f_loads s" arbitrary: s rule: less_induct)
  case less
  let ?s = "s\<lparr>f_reads := f_reads s + 1, f_state := filler_mix (f_state s), f_loads := f_loads s + 1\<rparr>"
  show ?case
  proof (cases "filler_ticks env (f_reads s) < deadline \<and> \<not> filler_stop env (f_loads s)")
    case True
    then have lt: "f_loads s < n" using stop not_less by blast
    then have "n - f_loads ?s < n - f_loads s" by simp
    from less [OF this] lt obtain s' where "filler_burst env deadline ?s = Some s'" "f_loads ?s \<le> f_loads s'"
      "f_loads s' \<le> max (f_loads ?s + 1) (n + 1)"
      by auto
    with True lt show ?thesis
      by (subst filler_burst.simps) (auto simp: Let_def)
  next
    case False
    then show ?thesis by (subst filler_burst.simps) (auto simp: Let_def)
  qed
qed

lemma filler_loop_returns:
  assumes stop: "\<forall>k\<ge>n. filler_stop env k" and "f_loads s \<le> n + 1"
  shows "\<exists>s'. filler_loop env s = Some s' \<and> f_loads s' \<le> n + 2 \<and> filler_stop env (f_loads s' - 1)"
  using assms(2)
proof (induction "n + 1 - f_loads s" arbitrary: s rule: less_induct)
  case less
  show ?case
  proof (cases "filler_stop env (f_loads s)")
    case True
    then show ?thesis using less.prems by (subst filler_loop.simps) (auto simp: Let_def)
  next
    case False
    then have lt: "f_loads s < n" using stop not_less by blast
    let ?s = "s\<lparr>f_loads := f_loads s + 1, f_reads := f_reads s + 1\<rparr>"
    obtain s1 where s1: "filler_burst env (filler_ticks env (f_reads s) + NXMT_FILLER_BURST_MS) ?s = Some s1"
      "f_loads ?s \<le> f_loads s1" "f_loads s1 \<le> max (f_loads ?s + 1) (n + 1)"
      using filler_burst_returns [OF stop] by blast
    let ?s1 = "s1\<lparr>g_filler_sink := f_state s1\<rparr>"
    have "n + 1 - f_loads ?s1 < n + 1 - f_loads s" "f_loads ?s1 \<le> n + 1" using s1 lt by auto
    from less.hyps [OF this] False s1(1) show ?thesis
      by (subst filler_loop.simps) (simp add: Let_def)
  qed
qed

text \<open>
  Property C36.  The filler thread ends, whatever the clock shows (it may stand still or jump): if
  the stop flag stays raised from its \<open>n\<close>-th load on, the thread ends having seen it raised,
  at most two loads later.
\<close>

theorem filler_stops:
  assumes "\<forall>k\<ge>n. filler_stop env k"
  shows "\<exists>s'. filler_entry env sink = Some s' \<and> f_loads s' \<le> n + 2 \<and> filler_stop env (f_loads s' - 1)"
  unfolding filler_entry_def by (rule filler_loop_returns [OF assms]) simp

theorem filler_stops_witness:
  "\<exists>s'. filler_entry \<lparr>filler_stop = (\<lambda>k. 4 \<le> k), filler_ticks = (\<lambda>_. 0), filler_threadCreate = 0,
      filler_threadStart = 0\<rparr> 0 = Some s' \<and> f_loads s' \<le> 6"
  using filler_stops [of 4 "\<lparr>filler_stop = (\<lambda>k. 4 \<le> k), filler_ticks = (\<lambda>_. 0), filler_threadCreate = 0,
      filler_threadStart = 0\<rparr>" 0] by auto

end
