(* ===== verification/Text.thy ===== *)
theory Text
  imports Arena "HOL-Library.Char_ord"
begin

text \<open>
  Text as the sources format it: the conversions of \<^verbatim>\<open>snprintf\<close> they use, and the functions of
  \<^verbatim>\<open>source/nx/main.c\<close> that produce strings (\<^verbatim>\<open>fill_chars\<close>, \<^verbatim>\<open>visible_width\<close>, \<^verbatim>\<open>format_size_mib\<close>,
  \<^verbatim>\<open>format_percent\<close>, \<^verbatim>\<open>format_elapsed\<close>, \<^verbatim>\<open>format_progress_bar\<close>, the names).  A string has no
  terminating zero: a buffer of \<open>n\<close> bytes holds a string of fewer than \<open>n\<close> characters.
\<close>

section \<open>Digits\<close>

definition digit_char :: "nat \<Rightarrow> char" where
  "digit_char d = (if d < 10 then char_of (48 + d) else char_of (87 + d))"

definition digit_value :: "char \<Rightarrow> nat" where
  "digit_value c = (if of_char c < (58 :: nat) then of_char c - 48 else of_char c - 87)"

function digits :: "nat \<Rightarrow> nat \<Rightarrow> string" where
  "digits b n = (if b < 2 \<or> n < b then [digit_char n] else digits b (n div b) @ [digit_char (n mod b)])"
  by pat_completeness auto
termination
  by (relation "measure snd") auto

declare digits.simps [simp del]

definition of_digits :: "nat \<Rightarrow> string \<Rightarrow> nat" where
  "of_digits b s = foldl (\<lambda>acc c. acc * b + digit_value c) 0 s"

lemma digit_value_char [simp]: "d < 16 \<Longrightarrow> digit_value (digit_char d) = d"
  by (auto simp: digit_value_def digit_char_def)

lemma of_digits_digits: "2 \<le> b \<Longrightarrow> b \<le> 16 \<Longrightarrow> of_digits b (digits b n) = n"
proof (induction b n rule: digits.induct)
  case (1 b n)
  then have "digit_value (digit_char (n mod b)) = n mod b"
    using mod_less_divisor [of b n] by (intro digit_value_char) linarith
  with 1 show ?case by (subst digits.simps) (auto simp: of_digits_def)
qed

lemma length_digits_pos: "0 < length (digits b n)"
  by (subst digits.simps) simp

lemma length_digits: "2 \<le> b \<Longrightarrow> n < b ^ Suc k \<Longrightarrow> length (digits b n) \<le> Suc k"
proof (induction k arbitrary: n)
  case 0
  then show ?case by (subst digits.simps) simp
next
  case (Suc k)
  then have "n div b < b ^ Suc k" by (simp add: less_mult_imp_div_less mult.commute)
  with Suc have "length (digits b (n div b)) \<le> Suc k" by blast
  then show ?case by (subst digits.simps) simp
qed

lemma digits_chars: "2 \<le> b \<Longrightarrow> b \<le> 16 \<Longrightarrow> set (digits b n) \<subseteq> digit_char ` {..<b}"
proof (induction b n rule: digits.induct)
  case (1 b n)
  then show ?case by (subst digits.simps) auto
qed

section \<open>The conversions of snprintf\<close>

definition pad_left :: "char \<Rightarrow> nat \<Rightarrow> string \<Rightarrow> string" where
  "pad_left c width s = replicate (width - length s) c @ s"

definition pad_right :: "nat \<Rightarrow> string \<Rightarrow> string" where
  "pad_right width s = s @ replicate (width - length s) CHR '' ''"

text \<open>\<open>%llu\<close> and \<open>%u\<close>, with a width filled with zeros, and \<open>%llx\<close> likewise.\<close>

definition fmt_u :: "'a::len word \<Rightarrow> string" where
  "fmt_u w = digits 10 (unat w)"

definition fmt_0u :: "nat \<Rightarrow> 'a::len word \<Rightarrow> string" where
  "fmt_0u width w = pad_left CHR ''0'' width (fmt_u w)"

definition fmt_x :: "'a::len word \<Rightarrow> string" where
  "fmt_x w = digits 16 (unat w)"

definition fmt_0x :: "nat \<Rightarrow> 'a::len word \<Rightarrow> string" where
  "fmt_0x width w = pad_left CHR ''0'' width (fmt_x w)"

text \<open>The result is cut off at the size of the buffer.\<close>

definition snprintf :: "nat \<Rightarrow> string \<Rightarrow> string" where
  "snprintf buf_size s = (if buf_size = 0 then [] else take (buf_size - 1) s)"

lemma snprintf_fits [simp]: "length s < n \<Longrightarrow> snprintf n s = s"
  by (simp add: snprintf_def)

lemma length_snprintf: "0 < n \<Longrightarrow> length (snprintf n s) < n"
  unfolding snprintf_def by (simp add: min_def) arith

lemma length_pad_left [simp]: "length (pad_left c w s) = max w (length s)"
  by (simp add: pad_left_def)

lemma length_pad_right [simp]: "length (pad_right w s) = max w (length s)"
  by (simp add: pad_right_def)

lemma length_fmt_u: "unat w < 10 ^ Suc k \<Longrightarrow> length (fmt_u w) \<le> Suc k"
  unfolding fmt_u_def by (intro length_digits) simp_all

lemma length_fmt_u64: "length (fmt_u w) \<le> 20" for w :: u64
  using length_fmt_u [of w 19] unat64_less [of w] by simp

lemma length_fmt_u32: "length (fmt_u w) \<le> 10" for w :: u32
  using length_fmt_u [of w 9] unat32_less [of w] by simp

lemma length_fmt_x64: "length (fmt_x w) \<le> 16" for w :: u64
  unfolding fmt_x_def using length_digits [of 16 "unat w" 15] unat64_less [of w] by simp

lemma of_digits_pad [simp]: "of_digits b (pad_left CHR ''0'' w s) = of_digits b s"
proof -
  have "foldl (\<lambda>acc c. acc * b + digit_value c) 0 (replicate n CHR ''0'') = 0" for n
    by (induction n) (simp_all add: digit_value_def)
  then show ?thesis by (simp add: of_digits_def pad_left_def)
qed

lemma of_digits_fmt [simp]:
  "of_digits 10 (fmt_u w) = unat w" "of_digits 16 (fmt_x w) = unat w"
  by (simp_all add: fmt_u_def fmt_x_def of_digits_digits)

lemma of_digits_fmt_0 [simp]:
  "of_digits 10 (fmt_0u n w) = unat w" "of_digits 16 (fmt_0x n w) = unat w"
  by (simp_all add: fmt_0u_def fmt_0x_def)

lemma fmt_u_chars: "set (fmt_u w) \<subseteq> digit_char ` {..<10}"
  unfolding fmt_u_def by (rule digits_chars) simp_all

section \<open>Names\<close>

definition mode_name :: "NxmtMode \<Rightarrow> string" where
  "mode_name mode = (case mode of NXMT_MODE_QUICK \<Rightarrow> ''Quick Check''
     | NXMT_MODE_MEMORY_LOAD \<Rightarrow> ''Memory Load'' | NXMT_MODE_EXTREME \<Rightarrow> ''Extreme'')"

definition status_name :: "NxmtStatus \<Rightarrow> string" where
  "status_name status = (case status of NXMT_STATUS_PASS \<Rightarrow> ''PASS'' | NXMT_STATUS_FAIL \<Rightarrow> ''FAIL''
     | NXMT_STATUS_ABORTED \<Rightarrow> ''ABORTED'' | NXMT_STATUS_UNSUPPORTED \<Rightarrow> ''UNSUPPORTED'')"

definition memory_source_name :: "NxmtMemorySource \<Rightarrow> string" where
  "memory_source_name source = (case source of
       NXMT_MEMORY_SOURCE_PHYSICAL_POOLS \<Rightarrow> ''physical-pools''
     | NXMT_MEMORY_SOURCE_PROCESS_TOTAL \<Rightarrow> ''process-total''
     | NXMT_MEMORY_SOURCE_OVERRIDE_HEAP \<Rightarrow> ''override-heap''
     | NXMT_MEMORY_SOURCE_NONE \<Rightarrow> ''none'')"

section \<open>Escape sequences and their width\<close>

abbreviation ESC :: char where "ESC \<equiv> CHR 0x1B"

abbreviation csi :: "string \<Rightarrow> string" where "csi s \<equiv> ESC # CHR ''['' # s"

definition ANSI_RESET :: string where "ANSI_RESET = csi ''0m''"
definition ANSI_BOLD :: string where "ANSI_BOLD = csi ''1m''"
definition ANSI_DIM :: string where "ANSI_DIM = csi ''2m''"
definition ANSI_RED :: string where "ANSI_RED = csi ''31m''"
definition ANSI_GREEN :: string where "ANSI_GREEN = csi ''32m''"
definition ANSI_YELLOW :: string where "ANSI_YELLOW = csi ''33m''"
definition ANSI_CYAN :: string where "ANSI_CYAN = csi ''36m''"
definition ANSI_WHITE :: string where "ANSI_WHITE = csi ''37m''"

lemmas ansi_defs = ANSI_RESET_def ANSI_BOLD_def ANSI_DIM_def ANSI_RED_def ANSI_GREEN_def
  ANSI_YELLOW_def ANSI_CYAN_def ANSI_WHITE_def

definition status_color :: "NxmtStatus \<Rightarrow> string" where
  "status_color status = (case status of NXMT_STATUS_PASS \<Rightarrow> ANSI_GREEN | NXMT_STATUS_FAIL \<Rightarrow> ANSI_RED
     | NXMT_STATUS_ABORTED \<Rightarrow> ANSI_YELLOW | NXMT_STATUS_UNSUPPORTED \<Rightarrow> ANSI_DIM)"

text \<open>The parameters of a sequence, up to and with its final byte.\<close>

fun skip_csi :: "string \<Rightarrow> string" where
  "skip_csi [] = []"
| "skip_csi (c # s) = (if CHR ''@'' \<le> c \<and> c \<le> CHR ''~'' then s else skip_csi s)"

lemma skip_csi_shorter: "length (skip_csi s) \<le> length s"
  by (induction s) auto

function visible_width :: "string \<Rightarrow> int" where
  "visible_width [] = 0"
| "visible_width (c # s) =
     (if c = ESC \<and> s \<noteq> [] \<and> hd s = CHR ''['' then visible_width (skip_csi (tl s))
      else visible_width s + 1)"
  by pat_completeness auto
termination
proof (relation "measure length")
  fix c s
  assume "c = ESC \<and> s \<noteq> [] \<and> hd s = CHR ''[''"
  then show "(skip_csi (tl s), c # s) \<in> measure length"
    using skip_csi_shorter [of "tl s"] by (cases s) simp_all
qed simp_all

text \<open>Text without escape characters, and text whose sequences are all complete.\<close>

definition plain :: "string \<Rightarrow> bool" where
  "plain s \<longleftrightarrow> ESC \<notin> set s"

inductive closed_text :: "string \<Rightarrow> bool" where
  "closed_text []"
| "c \<noteq> ESC \<Longrightarrow> closed_text s \<Longrightarrow> closed_text (c # s)"
| "\<forall>d \<in> set ps. d < CHR ''@'' \<Longrightarrow> CHR ''@'' \<le> f \<Longrightarrow> f \<le> CHR ''~'' \<Longrightarrow> closed_text s \<Longrightarrow>
     closed_text (csi (ps @ f # s))"

lemma skip_csi_params: "\<forall>d \<in> set ps. d < CHR ''@'' \<Longrightarrow> skip_csi (ps @ s) = skip_csi s"
  by (induction ps) (auto simp: not_le)

lemma width_closed: "closed_text s \<Longrightarrow> visible_width (s @ t) = visible_width s + visible_width t"
proof (induction rule: closed_text.induct)
  case (3 ps f s)
  then show ?case by (simp add: skip_csi_params)
qed simp_all

lemma closed_append: "closed_text s \<Longrightarrow> closed_text t \<Longrightarrow> closed_text (s @ t)"
proof (induction rule: closed_text.induct)
  case (3 ps f s)
  then show ?case using closed_text.intros(3) [of ps f "s @ t"] by simp
qed (simp_all add: closed_text.intros)

lemma plain_closed: "plain s \<Longrightarrow> closed_text s"
  by (induction s) (auto simp: plain_def intro: closed_text.intros)

lemma plain_width: "plain s \<Longrightarrow> visible_width s = int (length s)"
  by (induction s) (auto simp: plain_def)

lemma ansi_closed: "closed_text ANSI_RESET" "closed_text ANSI_BOLD" "closed_text ANSI_DIM" "closed_text ANSI_RED"
  "closed_text ANSI_GREEN" "closed_text ANSI_YELLOW" "closed_text ANSI_CYAN" "closed_text ANSI_WHITE"
  unfolding ansi_defs
  using closed_text.intros(3) [of "''0''" "CHR ''m''" "[]"] closed_text.intros(3) [of "''1''" "CHR ''m''" "[]"]
    closed_text.intros(3) [of "''2''" "CHR ''m''" "[]"] closed_text.intros(3) [of "''31''" "CHR ''m''" "[]"]
    closed_text.intros(3) [of "''32''" "CHR ''m''" "[]"] closed_text.intros(3) [of "''33''" "CHR ''m''" "[]"]
    closed_text.intros(3) [of "''36''" "CHR ''m''" "[]"] closed_text.intros(3) [of "''37''" "CHR ''m''" "[]"]
  by (simp_all add: closed_text.intros less_char_def less_eq_char_def)

lemma ansi_width: "visible_width ANSI_RESET = 0" "visible_width ANSI_BOLD = 0" "visible_width ANSI_DIM = 0"
  "visible_width ANSI_RED = 0" "visible_width ANSI_GREEN = 0" "visible_width ANSI_YELLOW = 0"
  "visible_width ANSI_CYAN = 0" "visible_width ANSI_WHITE = 0"
  by (simp_all add: ansi_defs less_eq_char_def)

lemma plain_simps [simp]:
  "plain []" "plain (c # s) \<longleftrightarrow> c \<noteq> ESC \<and> plain s" "plain (s @ t) \<longleftrightarrow> plain s \<and> plain t"
  "plain (replicate n c) \<longleftrightarrow> n = 0 \<or> c \<noteq> ESC"
  by (auto simp: plain_def)

lemma plain_take: "plain s \<Longrightarrow> plain (take n s)"
  by (auto simp: plain_def dest: in_set_takeD)

lemma plain_snprintf: "plain s \<Longrightarrow> plain (snprintf n s)"
  by (simp add: snprintf_def plain_take)

lemma digit_char_not_esc: "d < 16 \<Longrightarrow> digit_char d \<noteq> ESC"
proof
  assume d: "d < 16" and "digit_char d = ESC"
  then have "of_char (digit_char d) = (of_char ESC :: nat)" by simp
  with d show False by (auto simp: digit_char_def split: if_splits)
qed

lemma plain_digits: "2 \<le> b \<Longrightarrow> b \<le> 16 \<Longrightarrow> plain (digits b n)"
proof -
  assume b: "2 \<le> b" "b \<le> 16"
  have "ESC \<notin> digit_char ` {..<b}"
  proof
    assume "ESC \<in> digit_char ` {..<b}"
    then obtain d where "d < b" "digit_char d = ESC" by auto
    with digit_char_not_esc [of d] b(2) show False by simp
  qed
  with digits_chars [OF b, of n] show ?thesis unfolding plain_def by blast
qed

lemma plain_fmt [simp]: "plain (fmt_u w)" "plain (fmt_0u n w)" "plain (fmt_x w)" "plain (fmt_0x n w)"
  by (simp_all add: fmt_u_def fmt_0u_def fmt_x_def fmt_0x_def pad_left_def plain_digits)

section \<open>Formatting\<close>

definition fill_chars :: "nat \<Rightarrow> char \<Rightarrow> int \<Rightarrow> string" where
  "fill_chars buf_size c count =
     (if buf_size = 0 then []
      else let count = (if count < 0 then 0 else nat count);
               count = (if count \<ge> buf_size then buf_size - 1 else count)
           in replicate count c)"

definition format_size_mib :: "nat \<Rightarrow> u64 \<Rightarrow> string" where
  "format_size_mib buf_size bytes = snprintf buf_size (fmt_u (bytes div NXMT_MIB_BYTES) @ '' MiB'')"

definition format_percent :: "nat \<Rightarrow> u64 \<Rightarrow> string" where
  "format_percent buf_size milli =
     snprintf buf_size (fmt_u (milli div 1000) @ ''.'' @ fmt_0u 3 (milli mod 1000) @ ''%'')"

definition format_elapsed :: "nat \<Rightarrow> u64 \<Rightarrow> string" where
  "format_elapsed buf_size ms =
     (let secs = ms div 1000; mm = secs div 60; ss = secs mod 60
      in snprintf buf_size (fmt_0u 2 mm @ '':'' @ fmt_0u 2 ss))"

abbreviation TUI_WIDTH :: nat where "TUI_WIDTH \<equiv> 78"
abbreviation TUI_BAR_WIDTH :: nat where "TUI_BAR_WIDTH \<equiv> 56"

text \<open>
  \<open>bar\<close> is what the buffer holds; its length is the position of the source.  The buffer is not
  empty: for size 0 the bound \<^verbatim>\<open>buf_size - 1\<close> of the source would wrap.
\<close>

definition format_progress_bar :: "nat \<Rightarrow> u64 \<Rightarrow> string" where
  "format_progress_bar buf_size milli =
     (let filled = (milli * of_nat TUI_BAR_WIDTH) div 100000;
          filled = (if filled > of_nat TUI_BAR_WIDTH then of_nat TUI_BAR_WIDTH else filled);
          bar = (if 0 < buf_size then ''['' else []);
          bar = fold (\<lambda>i bar. if length bar < buf_size - 1
                  then bar @ [if of_nat i < filled then CHR ''#'' else CHR ''.''] else bar)
                [0..<TUI_BAR_WIDTH] bar;
          bar = (if length bar < buf_size then bar @ '']'' else bar)
      in if length bar < buf_size then bar else take (buf_size - 1) bar)"

lemma length_fill_chars: "length (fill_chars n c k) = min (nat k) (n - 1)"
  by (auto simp: fill_chars_def Let_def)

lemma plain_fill_chars: "c \<noteq> ESC \<Longrightarrow> plain (fill_chars n c k)"
  by (simp add: fill_chars_def Let_def)

text \<open>Every conversion fits the buffers the sources use.\<close>

lemma length_format_size: "length (format_size_mib n b) \<le> 24"
proof -
  have "length (fmt_u (b div NXMT_MIB_BYTES)) \<le> 20" by (rule length_fmt_u64)
  then show ?thesis by (auto simp: format_size_mib_def snprintf_def)
qed

lemma length_percent_text:
  "length (fmt_u (milli div 1000)) \<le> 17" "length (fmt_0u 3 (milli mod 1000)) = 3" for milli :: u64
proof -
  have "unat (milli div 1000) < 10 ^ Suc 16" using unat64_less [of milli] by (simp add: unat_div)
  then show "length (fmt_u (milli div 1000)) \<le> 17" using length_fmt_u by fastforce
  have "unat (milli mod 1000) < 10 ^ Suc 2" by (simp add: unat_mod)
  from length_fmt_u [OF this] show "length (fmt_0u 3 (milli mod 1000)) = 3" by (simp add: fmt_0u_def)
qed

lemma format_percent_text:
  "format_percent (n + 23) milli = fmt_u (milli div 1000) @ ''.'' @ fmt_0u 3 (milli mod 1000) @ ''%''"
  unfolding format_percent_def using length_percent_text [of milli] by simp

lemma length_elapsed_text:
  "length (fmt_0u 2 (secs div 60)) \<le> 18" "length (fmt_0u 2 (secs mod 60)) = 2" for secs :: u64
proof -
  have "unat (secs div 60) < 10 ^ Suc 17" using unat64_less [of secs] by (simp add: unat_div)
  from length_fmt_u [OF this] show "length (fmt_0u 2 (secs div 60)) \<le> 18" by (simp add: fmt_0u_def)
  have "unat (secs mod 60) < 10 ^ Suc 1" using mod_less_divisor [of 60 "unat secs"] by (simp add: unat_mod)
  from length_fmt_u [OF this] show "length (fmt_0u 2 (secs mod 60)) = 2" by (simp add: fmt_0u_def)
qed

lemma format_elapsed_text:
  "format_elapsed (n + 22) ms = fmt_0u 2 (ms div 1000 div 60) @ '':'' @ fmt_0u 2 (ms div 1000 mod 60)"
  unfolding format_elapsed_def Let_def using length_elapsed_text [of "ms div 1000"] by simp

section \<open>Properties\<close>

text \<open>What a reader gets back from the two texts: the number before the mark, and the one after it.\<close>

definition read_around :: "char \<Rightarrow> nat \<Rightarrow> string \<Rightarrow> nat \<times> nat" where
  "read_around mark width s =
     (of_digits 10 (takeWhile (\<lambda>c. c \<noteq> mark) s),
      of_digits 10 (take width (tl (dropWhile (\<lambda>c. c \<noteq> mark) s))))"

lemma read_around_text:
  assumes "mark \<notin> set a" and "length b = width"
  shows "read_around mark width (a @ mark # b @ s) = (of_digits 10 a, of_digits 10 b)"
proof -
  have "takeWhile (\<lambda>c. c \<noteq> mark) (a @ mark # b @ s) = a" "dropWhile (\<lambda>c. c \<noteq> mark) (a @ mark # b @ s) = mark # b @ s"
    using assms(1) by (auto simp: takeWhile_append2 dropWhile_append2 takeWhile_append dropWhile_append)
  then show ?thesis using assms(2) by (simp add: read_around_def)
qed

lemma mark_not_digit: "c \<in> {CHR ''.'', CHR '':''} \<Longrightarrow> c \<notin> set (fmt_0u n w)"
proof
  assume c: "c \<in> {CHR ''.'', CHR '':''}" and "c \<in> set (fmt_0u n w)"
  then have "c = CHR ''0'' \<or> (\<exists>d<10. c = digit_char d)"
    using fmt_u_chars [of w] by (auto simp: fmt_0u_def pad_left_def)
  with c have "\<exists>d<10. c = digit_char d" by auto
  then obtain d where "d < 10" "c = digit_char d" by blast
  then have "of_char c = (48 + d :: nat)" by (simp add: digit_char_def)
  with c \<open>d < 10\<close> show False by auto
qed

text \<open>
  The percentage and the elapsed time can be read back from their texts: for every
  64-bit value and every buffer of at least 23 (22) bytes, the number before the point times a thousand
  plus the three digits after it is the percentage in thousandths, and minutes and seconds are
  those of the time; no digit is lost to the buffer or to a missing leading zero.
\<close>

theorem percent_and_elapsed_read_back:
  "(case read_around CHR ''.'' 3 (format_percent (n + 23) milli) of (whole, frac) \<Rightarrow> whole * 1000 + frac)
      = unat milli
    \<and> read_around CHR '':'' 2 (format_elapsed (n + 22) ms)
      = (unat ms div 60000, unat ms div 1000 mod 60)"
proof
  have "read_around CHR ''.'' 3 (format_percent (n + 23) milli) = (unat milli div 1000, unat milli mod 1000)"
    using read_around_text [of "CHR ''.''" "fmt_u (milli div 1000)" "fmt_0u 3 (milli mod 1000)" 3 "''%''"]
      mark_not_digit [of "CHR ''.''" 0 "milli div 1000"] length_percent_text [of milli]
    by (simp add: format_percent_text unat_div unat_mod fmt_0u_def [of 0] pad_left_def)
  then show "(case read_around CHR ''.'' 3 (format_percent (n + 23) milli) of (whole, frac) \<Rightarrow> whole * 1000 + frac)
      = unat milli" by simp
  show "read_around CHR '':'' 2 (format_elapsed (n + 22) ms) = (unat ms div 60000, unat ms div 1000 mod 60)"
    using read_around_text [of "CHR '':''" "fmt_0u 2 (ms div 1000 div 60)" "fmt_0u 2 (ms div 1000 mod 60)" 2 "[]"]
      mark_not_digit [of "CHR '':''" 2 "ms div 1000 div 60"] length_elapsed_text [of "ms div 1000"]
    by (simp add: format_elapsed_text unat_div unat_mod div_mult2_eq [symmetric])
qed

lemma bar_loop:
  "length bar + m < n \<Longrightarrow> fold (\<lambda>i bar. if length bar < n - 1 then bar @ [f i] else bar) [0..<m] bar = bar @ map f [0..<m]"
  by (induction m) auto

lemma map_threshold: "k \<le> n \<Longrightarrow> map (\<lambda>i. if i < k then a else b) [0..<n] = replicate k a @ replicate (n - k) b"
  by (rule nth_equalityI) (auto simp: nth_append)

text \<open>
  The progress bar is 56 cells between brackets, of which the share given by the
  percentage (in thousandths, rounded down, all of them from 100 percent on) is filled.
\<close>

theorem progress_bar_cells:
  assumes "unat milli * 56 < 2 ^ 64"
  shows "format_progress_bar 60 milli
    = ''['' @ replicate (min 56 (unat milli * 56 div 100000)) CHR ''#''
        @ replicate (56 - min 56 (unat milli * 56 div 100000)) CHR ''.'' @ '']''"
proof -
  let ?q = "unat milli * 56 div 100000"
  let ?f = "(milli * 56) div 100000"
  have "unat (milli * 56) = unat milli * 56" using assms by (subst unat_mult_small) simp_all
  then have q: "unat ?f = ?q" by (simp add: unat_div)
  let ?k = "if ?f > 56 then 56 else ?f"
  have k: "unat ?k = min 56 ?q" by (simp add: word_less_nat_alt q min_def)
  have less: "(of_nat i < ?k) = (i < min 56 ?q)" if "i < 56" for i
    using that by (simp add: word_less_nat_alt [of "of_nat i"] k unat_of_nat64)
  have "map (\<lambda>i. if of_nat i < ?k then CHR ''#'' else CHR ''.'') [0..<56]
      = map (\<lambda>i. if i < min 56 ?q then CHR ''#'' else CHR ''.'') [0..<56]"
    using less by (intro map_cong) (auto simp del: upt_rec_numeral)
  also have "\<dots> = replicate (min 56 ?q) CHR ''#'' @ replicate (56 - min 56 ?q) CHR ''.''"
    by (rule map_threshold) simp
  finally have cells: "map (\<lambda>i. if of_nat i < ?k then CHR ''#'' else CHR ''.'') [0..<56]
      = replicate (min 56 ?q) CHR ''#'' @ replicate (56 - min 56 ?q) CHR ''.''" .
  have "fold (\<lambda>i bar. if length bar < 60 - 1 then bar @ [if of_nat i < ?k then CHR ''#'' else CHR ''.''] else bar)
      [0..<56] ''['' = ''['' @ map (\<lambda>i. if of_nat i < ?k then CHR ''#'' else CHR ''.'') [0..<56]"
    by (rule bar_loop) simp
  note loop = this [unfolded cells]
  have sixty: "(0 < (60 :: nat)) = True" "of_nat 56 = (56 :: u64)" by simp_all
  show ?thesis
    unfolding format_progress_bar_def Let_def sixty if_True loop by simp
qed

theorem progress_bar_cells_witness:
  "format_progress_bar 60 25000 = ''['' @ replicate 14 CHR ''#'' @ replicate 42 CHR ''.'' @ '']''"
  using progress_bar_cells [of 25000] by simp

end
