(* ===== verification/Tui.thy ===== *)
theory Tui
  imports Text Menu Runner
begin

text \<open>
  The text interface of \<^verbatim>\<open>source/nx/main.c\<close>: every drawing function as the lines (or the escape
  sequences) it prints, and the report it writes to the log.  The console itself and the file
  are outside the model.
\<close>

section \<open>Boxes\<close>

definition tui_clear :: string where
  "tui_clear = csi ''2J'' @ csi ''H''"

definition tui_goto :: "u32 \<Rightarrow> u32 \<Rightarrow> string" where
  "tui_goto row col = csi (fmt_u row @ '';'' @ fmt_u col @ ''H'')"

definition tui_hide_cursor :: string where "tui_hide_cursor = csi ''?25l''"
definition tui_show_cursor :: string where "tui_show_cursor = csi ''?25h''"

definition tui_section_top :: "string \<Rightarrow> string" where
  "tui_section_top title =
     (let title_len = int (length title);
          dashes = int TUI_WIDTH - 1 - (4 + title_len);
          dash_buf = fill_chars TUI_WIDTH CHR ''-'' dashes
      in ANSI_CYAN @ ''+- '' @ ANSI_BOLD @ title @ ANSI_RESET @ ANSI_CYAN @ '' '' @ dash_buf @ ''+'' @ ANSI_RESET)"

definition tui_section_bottom :: string where
  "tui_section_bottom = ANSI_CYAN @ ''+'' @ fill_chars TUI_WIDTH CHR ''-'' (int TUI_WIDTH - 2) @ ''+'' @ ANSI_RESET"

definition tui_section_blank :: string where
  "tui_section_blank =
     ANSI_CYAN @ ''|'' @ ANSI_RESET @ fill_chars TUI_WIDTH CHR '' '' (int TUI_WIDTH - 2)
       @ ANSI_CYAN @ ''|'' @ ANSI_RESET"

text \<open>The value comes formatted; the length is the one \<^verbatim>\<open>snprintf\<close> returns, before it cuts off.\<close>

definition tui_kv :: "string \<Rightarrow> string \<Rightarrow> string \<Rightarrow> string" where
  "tui_kv label value_color text =
     (let value = snprintf 128 text;
          written = int (length (''  '' @ pad_right 22 label @ '' : '' @ value));
          padding = (int TUI_WIDTH - 2) - written;
          pad_buf = fill_chars TUI_WIDTH CHR '' '' padding
      in ANSI_CYAN @ ''|'' @ ANSI_RESET @ ''  '' @ ANSI_DIM @ pad_right 22 label @ ANSI_RESET @ '' : ''
         @ value_color @ value @ ANSI_RESET @ pad_buf @ ANSI_CYAN @ ''|'' @ ANSI_RESET)"

definition tui_text_line :: "string \<Rightarrow> string \<Rightarrow> string" where
  "tui_text_line text_color formatted =
     (let text = snprintf 256 formatted;
          visible = visible_width text_color + visible_width text;
          padding = (int TUI_WIDTH - 2 - 2) - visible;
          pad_buf = fill_chars TUI_WIDTH CHR '' '' padding
      in ANSI_CYAN @ ''|'' @ ANSI_RESET @ ''  '' @ text_color @ text @ ANSI_RESET @ pad_buf
         @ ANSI_CYAN @ ''|'' @ ANSI_RESET)"

section \<open>Screens\<close>

definition draw_header :: "string list" where
  "draw_header =
     (let eq_buf = fill_chars TUI_WIDTH CHR ''='' (int TUI_WIDTH - 2);
          title_left = ''NX-MemTest 0.1.0''; title_right = ''[PLUS] Exit'';
          padding = (int TUI_WIDTH - 2) - 1 - int (length title_left) - int (length title_right) - 1;
          pad_buf = fill_chars TUI_WIDTH CHR '' '' padding
      in [ANSI_CYAN @ ''+'' @ eq_buf @ ''+'' @ ANSI_RESET,
          tui_section_blank,
          ANSI_CYAN @ ''|'' @ ANSI_RESET @ '' '' @ ANSI_BOLD @ ANSI_WHITE @ title_left @ ANSI_RESET @ pad_buf
            @ ANSI_DIM @ title_right @ ANSI_RESET @ '' '' @ ANSI_CYAN @ ''|'' @ ANSI_RESET,
          tui_section_blank,
          ANSI_CYAN @ ''+'' @ eq_buf @ ''+'' @ ANSI_RESET])"

definition draw_footer_hint :: "string \<Rightarrow> string" where
  "draw_footer_hint hint = ANSI_DIM @ ''  '' @ hint @ ANSI_RESET @ csi ''K''"

definition draw_memory_section :: "NxmtArena \<Rightarrow> NxmtPlatformMemory \<Rightarrow> string list" where
  "draw_memory_section arena memory =
     [tui_section_top ''Memory'',
      tui_section_blank,
      tui_kv ''Test Arena'' ANSI_YELLOW (format_size_mib 64 (a_size arena))]
     @ (if has_effective_total memory
        then [tui_kv ''Effective Total'' ANSI_YELLOW (format_size_mib 64 (effective_total_memory memory)),
              tui_kv ''Total Source'' ANSI_WHITE (memory_source_name (effective_total_source memory)),
              tui_kv ''Extended Memory'' (if pm_extended_memory_detected memory then ANSI_GREEN else ANSI_DIM)
                (if pm_extended_memory_detected memory then ''detected'' else ''no''),
              tui_kv ''Physical Coverage'' ANSI_WHITE
                (format_percent 64 (nxmt_percent_milli (a_size arena) (effective_total_memory memory)))]
        else [tui_kv ''Effective Total'' ANSI_DIM ''unavailable'',
              tui_kv ''Total Source'' ANSI_DIM ''none'',
              tui_kv ''Extended Memory'' ANSI_DIM ''no'',
              tui_kv ''Physical Coverage'' ANSI_DIM ''unavailable''])
     @ [tui_section_blank, tui_section_bottom]"

definition draw_run_config_section :: "NxmtMode \<Rightarrow> u32 \<Rightarrow> u64 \<Rightarrow> u64 \<Rightarrow> string list" where
  "draw_run_config_section mode workers seed duration_seconds =
     [tui_section_top ''Configuration'',
      tui_section_blank,
      tui_kv ''Mode'' ANSI_YELLOW (mode_name mode),
      tui_kv ''Workers'' ANSI_YELLOW (snprintf 64 (fmt_u workers)),
      tui_kv ''Seed'' ANSI_WHITE (snprintf 64 (''0x'' @ fmt_0x 16 seed)),
      (if duration_seconds > 0
       then tui_kv ''Duration'' ANSI_YELLOW
              (snprintf 64 (if duration_seconds mod 60 = 0 then fmt_u (duration_seconds div 60) @ '' min''
                            else fmt_u duration_seconds @ '' s''))
       else tui_kv ''Duration'' ANSI_DIM ''single pass''),
      tui_section_blank,
      tui_section_bottom]"

definition tui_draw_mode_menu :: "bool \<Rightarrow> bool \<Rightarrow> string list" where
  "tui_draw_mode_menu has_memory_load has_extreme =
     [tui_section_top ''Select Mode'',
      tui_section_blank,
      tui_text_line (ANSI_GREEN @ ''[A]'' @ ANSI_RESET) '' Quick Check'',
      tui_text_line (if has_memory_load then ANSI_GREEN @ ''[X]'' @ ANSI_RESET else ANSI_DIM @ ''[X]'' @ ANSI_RESET)
        ('' Memory Load'' @ (if has_memory_load then [] else ''  (requires 256 MiB)'')),
      tui_text_line (if has_extreme then ANSI_GREEN @ ''[Y]'' @ ANSI_RESET else ANSI_DIM @ ''[Y]'' @ ANSI_RESET)
        ('' Extreme'' @ (if has_extreme then [] else ''  (requires 512 MiB)'')),
      tui_text_line (ANSI_CYAN @ ''[B]'' @ ANSI_RESET) '' GPU Bandwidth PoC'',
      tui_text_line (ANSI_RED @ ''[+]'' @ ANSI_RESET) '' Exit'',
      tui_section_blank,
      tui_section_bottom]"

definition draw_duration_menu :: "NxmtMode \<Rightarrow> int \<Rightarrow> string list" where
  "draw_duration_menu mode sel =
     [tui_section_top (snprintf 64 (''Test Duration  ('' @ mode_name mode @ '')'')), tui_section_blank]
     @ map (\<lambda>i. let label = duration_label (kDurations ! i)
                in if int i = sel
                   then tui_text_line (ANSI_GREEN @ ''>'' @ ANSI_RESET) ('' '' @ ANSI_BOLD @ label @ ANSI_RESET)
                   else tui_text_line (ANSI_DIM @ '' '' @ ANSI_RESET) ('' '' @ label))
         [0..<NXMT_DURATION_COUNT]
     @ [tui_section_blank, tui_section_bottom]"

section \<open>Progress\<close>

record ProgressLayout =
  row_top :: u32
  row_line :: u32
  row_bar :: u32
  row_info :: u32
  row_bottom :: u32

definition draw_progress_frame :: "u32 \<Rightarrow> ProgressLayout \<times> string list" where
  "draw_progress_frame row_start =
     (let layout = \<lparr>row_top = row_start, row_line = row_start + 2, row_bar = row_start + 3,
            row_info = row_start + 4, row_bottom = row_start + 6\<rparr>
      in (layout,
          [tui_goto (row_top layout) 1 @ tui_section_top ''Progress'',
           tui_goto (row_start + 1) 1 @ tui_section_blank,
           tui_goto (row_line layout) 1 @ tui_section_blank,
           tui_goto (row_bar layout) 1 @ tui_section_blank,
           tui_goto (row_info layout) 1 @ tui_section_blank,
           tui_goto (row_start + 5) 1 @ tui_section_blank,
           tui_goto (row_bottom layout) 1 @ tui_section_bottom]))"

record ProgressInfo =
  pi_spinner :: char
  pi_milli :: u64
  pi_header_extra :: string
  pi_info_text :: string

definition redraw_progress_lines :: "ProgressLayout \<Rightarrow> ProgressInfo \<Rightarrow> string list" where
  "redraw_progress_lines layout info =
     (let pct = format_percent 32 (pi_milli info);
          bar = format_progress_bar (TUI_BAR_WIDTH + 4) (pi_milli info);
          body_line = snprintf 160 (ANSI_GREEN @ ''['' @ [pi_spinner info] @ '']'' @ ANSI_RESET @ ''  ''
            @ ANSI_BOLD @ pct @ ANSI_RESET @ ''    '' @ pi_header_extra info)
      in [tui_goto (row_line layout) 1 @ tui_text_line [] body_line,
          tui_goto (row_bar layout) 1 @ tui_text_line ANSI_GREEN bar,
          tui_goto (row_info layout) 1 @ tui_text_line [] (pi_info_text info)])"

section \<open>The result\<close>

text \<open>An amount of bytes, in hundredths of a GiB from 1 GiB on.\<close>

definition format_amount :: "u64 \<Rightarrow> string" where
  "format_amount bytes =
     (if bytes \<ge> 1024 * NXMT_MIB_BYTES
      then let gib_x100 = (bytes * 100) div (1024 * NXMT_MIB_BYTES)
           in snprintf 64 (fmt_u (gib_x100 div 100) @ ''.'' @ fmt_0u 2 (gib_x100 mod 100) @ '' GiB'')
      else snprintf 64 (fmt_u (bytes div NXMT_MIB_BYTES) @ '' MiB''))"

definition format_rate :: "u64 \<Rightarrow> u64 \<Rightarrow> string" where
  "format_rate total_bytes elapsed_ms =
     (let mb_per_s = (total_bytes div 1000000) * 1000 div elapsed_ms
      in if mb_per_s \<ge> 1000
         then snprintf 64 (fmt_u (mb_per_s div 1000) @ ''.'' @ fmt_u ((mb_per_s mod 1000) div 100) @ '' GB/s'')
         else snprintf 64 (fmt_u mb_per_s @ '' MB/s''))"

definition NXMT_LOG_PATH :: string where
  "NXMT_LOG_PATH = ''sdmc:/switch/NX-MemTest/logs/latest.txt''"

definition draw_results_section ::
    "u32 \<Rightarrow> u32 \<Rightarrow> u64 \<Rightarrow> NxmtArena \<Rightarrow> NxmtRunStats \<Rightarrow> NxmtReport \<Rightarrow> NxmtStatus \<Rightarrow> bool \<Rightarrow> u64
      \<Rightarrow> u64 \<Rightarrow> u64 \<Rightarrow> u64 \<Rightarrow> bool \<Rightarrow> string list" where
  "draw_results_section workers completed_workers passes_completed arena total_stats report status thread_fallback
      elapsed_ms gpu_pumped_bytes gpu_pump_error_batches gpu_pump_verified_batches log_ok =
     [tui_section_top ''Result'',
      tui_section_blank,
      tui_kv ''Status'' (status_color status) (status_name status),
      tui_kv ''System Stress Pass'' ANSI_WHITE
        (format_percent 64 (nxmt_percent_milli (ucast completed_workers) (ucast workers))),
      tui_kv ''Passes Completed'' ANSI_YELLOW (snprintf 64 (fmt_u passes_completed)),
      (if a_size arena = 0 then tui_kv ''Verified Arena'' ANSI_DIM ''unavailable''
       else let verified_for_progress = (if bytes_verified total_stats > a_size arena then a_size arena
                                         else bytes_verified total_stats);
                pmilli = nxmt_percent_milli verified_for_progress (a_size arena)
            in tui_kv ''Verified Arena'' ANSI_WHITE
                 (snprintf 96 (fmt_u (pmilli div 1000) @ ''.'' @ fmt_0u 3 (pmilli mod 1000) @ ''% of ''
                    @ fmt_u (a_size arena div NXMT_MIB_BYTES) @ '' MiB''))),
      tui_kv ''Tested'' ANSI_YELLOW (format_amount (bytes_verified total_stats))]
     @ (if gpu_pumped_bytes > 0
        then [tui_kv ''GPU Pumped'' ANSI_CYAN (format_amount gpu_pumped_bytes),
              tui_kv ''GPU Verify Batches'' ANSI_CYAN (snprintf 64 (fmt_u gpu_pump_verified_batches)),
              (if gpu_pump_error_batches = 0 then tui_kv ''GPU Verify Status'' ANSI_GREEN ''ok''
               else tui_kv ''GPU Verify Status'' ANSI_RED
                 (snprintf 64 (fmt_u gpu_pump_error_batches @ '' mismatched'')))]
        else [])
     @ (if elapsed_ms > 0
        then [tui_kv ''Throughput'' ANSI_YELLOW
                (format_rate (bytes_written total_stats + bytes_verified total_stats + gpu_pumped_bytes) elapsed_ms)]
        else [])
     @ [tui_kv ''Elapsed'' ANSI_YELLOW (format_elapsed 64 elapsed_ms),
        tui_kv ''Errors'' (if error_count report = 0 then ANSI_GREEN else ANSI_RED)
          (snprintf 64 (fmt_u (error_count report)))]
     @ (if thread_fallback then [tui_kv ''Thread Fallback'' ANSI_YELLOW ''yes''] else [])
     @ [tui_kv ''Log'' (if log_ok then ANSI_DIM else ANSI_RED) (if log_ok then NXMT_LOG_PATH else ''unavailable''),
        tui_section_blank,
        tui_section_bottom]"

section \<open>Whole screens\<close>

text \<open>
  What \<^verbatim>\<open>main\<close> and the benchmark screen draw after clearing the screen, line by line, an empty line for each
  \<^verbatim>\<open>print("\n")\<close>; the hint under a screen is its second component.
\<close>

definition no_heap_screen :: "string list \<times> string" where
  "no_heap_screen =
     (draw_header @ [[],
        tui_section_top ''Memory'',
        tui_section_blank,
        tui_kv ''Override Heap'' ANSI_RED ''missing'',
        tui_section_blank,
        tui_section_bottom,
        [],
        tui_section_top ''Notice'',
        tui_section_blank,
        tui_text_line ANSI_RED ''No usable OverrideHeap was provided.'',
        tui_text_line [] ''Launch through hbmenu in title-override / full-memory mode.'',
        tui_section_blank,
        tui_section_bottom,
        []], draw_footer_hint ''[PLUS] Exit'')"

definition bench_screen :: "string list" where
  "bench_screen =
     draw_header @ [[],
       tui_section_top ''GPU Bandwidth PoC'',
       tui_section_blank,
       tui_text_line ANSI_DIM ''Stepping deko3d buffer size up until the kernel runs out of headroom.'',
       tui_section_blank,
       tui_section_bottom,
       []]"

definition run_preamble :: "NxmtArena \<Rightarrow> NxmtPlatformMemory \<Rightarrow> NxmtMode \<Rightarrow> u32 \<Rightarrow> u64 \<Rightarrow> u64 \<Rightarrow> string list" where
  "run_preamble arena memory mode workers seed duration_seconds =
     draw_header @ [[]] @ draw_memory_section arena memory @ [[]]
       @ draw_run_config_section mode workers seed duration_seconds @ [[]]"

definition progress_row_start :: u32 where "progress_row_start = 27"

definition result_screen ::
    "NxmtMode \<Rightarrow> u32 \<Rightarrow> u32 \<Rightarrow> u64 \<Rightarrow> u64 \<Rightarrow> u64 \<Rightarrow> NxmtArena \<Rightarrow> NxmtPlatformMemory \<Rightarrow> NxmtRunStats \<Rightarrow> NxmtReport
      \<Rightarrow> NxmtStatus \<Rightarrow> bool \<Rightarrow> u64 \<Rightarrow> u64 \<Rightarrow> u64 \<Rightarrow> u64 \<Rightarrow> bool \<Rightarrow> string list \<times> string" where
  "result_screen mode workers completed_workers seed duration_seconds passes_completed arena memory total_stats report
      status thread_fallback elapsed gpu_pumped gpu_err_batches gpu_ver_batches log_ok =
     (run_preamble arena memory mode workers seed duration_seconds
        @ draw_results_section workers completed_workers passes_completed arena total_stats report status
            thread_fallback elapsed gpu_pumped gpu_err_batches gpu_ver_batches log_ok
        @ [[]],
      draw_footer_hint ''[B] Back to menu    [PLUS] Exit'')"

text \<open>What a benchmark run prints.\<close>

definition bench_rate :: "u64 \<Rightarrow> u64 \<Rightarrow> u64" where
  "bench_rate bytes elapsed_ms = (if elapsed_ms > 0 then (bytes div 1000000) * 1000 div elapsed_ms else 0)"

definition bench_lines :: "u64 \<Rightarrow> u32 \<Rightarrow> u64 \<Rightarrow> bool \<Rightarrow> string list" where
  "bench_lines buffer_size_aligned iterations elapsed_ms verify_ok =
     (let per_iter_traffic = buffer_size_aligned * 2;
          total_traffic = per_iter_traffic * ucast iterations;
          total_copy = buffer_size_aligned * ucast iterations
      in [''GPU bench: '' @ fmt_u (buffer_size_aligned div NXMT_MIB_BYTES) @ '' MiB x '' @ fmt_u iterations
            @ '' iters in '' @ fmt_u elapsed_ms @ '' ms'',
          ''  copy rate     ~'' @ fmt_u (bench_rate total_copy elapsed_ms) @ '' MB/s'',
          ''  bus traffic   ~'' @ fmt_u (bench_rate total_traffic elapsed_ms) @ '' MB/s  (read+write)'',
          ''  verify        '' @ (if verify_ok then ''ok'' else ''FAIL'')])"

section \<open>The report\<close>

definition yes_no :: "bool \<Rightarrow> string" where
  "yes_no b = (if b then ''yes'' else ''no'')"

text \<open>The lines of the report: the labels of the format string with what is put in.\<close>

definition report_lines ::
    "NxmtMode \<Rightarrow> u32 \<Rightarrow> u32 \<Rightarrow> u64 \<Rightarrow> NxmtArena \<Rightarrow> NxmtPlatformMemory \<Rightarrow> NxmtReport \<Rightarrow> NxmtRunStats \<Rightarrow> NxmtStatus
      \<Rightarrow> bool \<Rightarrow> bool \<Rightarrow> u64 \<Rightarrow> u64 \<Rightarrow> u64 \<Rightarrow> u64 \<Rightarrow> (string \<times> string) list" where
  "report_lines mode workers completed_workers seed arena memory report stats status thread_fallback stop_requested
      elapsed_ms gpu_pumped_bytes gpu_pump_error_batches gpu_pump_verified_batches =
     (let coverage = (if has_effective_total memory
                      then nxmt_percent_milli (a_size arena) (effective_total_memory memory) else 0);
          at_first = (\<lambda>f. if has_first_error report then f (first report) else 0)
      in [(''NX-MemTest Report'', []),
          (''Mode: '', mode_name mode),
          (''Workers: '', fmt_u workers),
          (''Workers Completed: '', fmt_u completed_workers),
          (''Seed: 0x'', fmt_0x 16 seed),
          (''Status: '', status_name status),
          (''Thread Fallback: '', yes_no thread_fallback),
          (''Stop Requested: '', yes_no stop_requested),
          (''Test Arena MiB: '', fmt_u (a_size arena div NXMT_MIB_BYTES)),
          (''Effective Total MiB: '',
             fmt_u (if has_effective_total memory then effective_total_memory memory div NXMT_MIB_BYTES else 0)),
          (''Total Source: '', memory_source_name (effective_total_source memory)),
          (''Extended Memory Detected: '', yes_no (pm_extended_memory_detected memory)),
          (''Physical Coverage MilliPercent: '', fmt_u coverage),
          (''Bytes Written: '', fmt_u (bytes_written stats)),
          (''Bytes Verified: '', fmt_u (bytes_verified stats)),
          (''GPU Pumped Bytes: '', fmt_u gpu_pumped_bytes),
          (''GPU Verify Batches: '', fmt_u gpu_pump_verified_batches),
          (''GPU Verify Error Batches: '', fmt_u gpu_pump_error_batches),
          (''Elapsed ms: '', fmt_u elapsed_ms),
          (''Errors: '', fmt_u (error_count report)),
          (''First Error Offset: 0x'', fmt_x (at_first e_offset)),
          (''First Error Expected: 0x'', fmt_0x 16 (at_first e_expected)),
          (''First Error Actual: 0x'', fmt_0x 16 (at_first e_actual)),
          (''First Error XorDiff: 0x'', fmt_0x 16 (at_first e_xor_diff))])"

abbreviation newline :: char where "newline \<equiv> CHR 0x0A"

definition format_report ::
    "nat \<Rightarrow> NxmtMode \<Rightarrow> u32 \<Rightarrow> u32 \<Rightarrow> u64 \<Rightarrow> NxmtArena \<Rightarrow> NxmtPlatformMemory \<Rightarrow> NxmtReport \<Rightarrow> NxmtRunStats
      \<Rightarrow> NxmtStatus \<Rightarrow> bool \<Rightarrow> bool \<Rightarrow> u64 \<Rightarrow> u64 \<Rightarrow> u64 \<Rightarrow> u64 \<Rightarrow> string" where
  "format_report out_size mode workers completed_workers seed arena memory report stats status thread_fallback
      stop_requested elapsed_ms gpu_pumped_bytes gpu_pump_error_batches gpu_pump_verified_batches =
     snprintf out_size (concat (map (\<lambda>(label, value). label @ value @ [newline])
       (report_lines mode workers completed_workers seed arena memory report stats status thread_fallback
          stop_requested elapsed_ms gpu_pumped_bytes gpu_pump_error_batches gpu_pump_verified_batches)))"

section \<open>Widths\<close>

lemma width_ansi [simp]:
  "visible_width (ANSI_RESET @ s) = visible_width s" "visible_width (ANSI_BOLD @ s) = visible_width s"
  "visible_width (ANSI_DIM @ s) = visible_width s" "visible_width (ANSI_RED @ s) = visible_width s"
  "visible_width (ANSI_GREEN @ s) = visible_width s" "visible_width (ANSI_YELLOW @ s) = visible_width s"
  "visible_width (ANSI_CYAN @ s) = visible_width s" "visible_width (ANSI_WHITE @ s) = visible_width s"
  by (simp_all add: width_closed ansi_closed ansi_width)

lemma width_plain [simp]: "plain s \<Longrightarrow> visible_width (s @ t) = int (length s) + visible_width t"
  by (simp add: width_closed plain_closed plain_width)

lemma width_reset [simp]: "visible_width ANSI_RESET = 0"
  by (rule ansi_width)

lemma plain_pad_right [simp]: "plain (pad_right n s) \<longleftrightarrow> plain s"
  by (auto simp: pad_right_def)

lemma plain_fill [simp]: "c \<noteq> ESC \<Longrightarrow> plain (fill_chars n c k)"
  by (rule plain_fill_chars)

definition aligned_line :: "string \<Rightarrow> bool" where
  "aligned_line line \<longleftrightarrow> visible_width line = int TUI_WIDTH"

lemma top_aligned: "plain title \<Longrightarrow> length title \<le> 73 \<Longrightarrow> aligned_line (tui_section_top title)"
  by (simp add: aligned_line_def tui_section_top_def Let_def length_fill_chars)

lemma bottom_aligned: "aligned_line tui_section_bottom"
  by (simp add: aligned_line_def tui_section_bottom_def length_fill_chars)

lemma blank_aligned: "aligned_line tui_section_blank"
  by (simp add: aligned_line_def tui_section_blank_def length_fill_chars)

definition is_color :: "string \<Rightarrow> bool" where
  "is_color c \<longleftrightarrow> closed_text c \<and> visible_width c = 0"

lemma colors [simp]: "is_color []" "is_color ANSI_DIM" "is_color ANSI_RED" "is_color ANSI_GREEN"
  "is_color ANSI_YELLOW" "is_color ANSI_CYAN" "is_color ANSI_WHITE" "is_color (status_color st)"
  by (simp_all add: is_color_def ansi_closed ansi_width closed_text.intros status_color_def split: NxmtStatus.split)

lemma kv_aligned:
  assumes "plain label" "length label \<le> 22" and "is_color color" and "plain text" "length text \<le> 49"
  shows "aligned_line (tui_kv label color text)"
  using assms by (simp add: aligned_line_def tui_kv_def Let_def length_fill_chars is_color_def width_closed)

lemma text_aligned:
  assumes "closed_text color" "closed_text text" "length text < 256" and "visible_width color + visible_width text \<le> 74"
    and "0 \<le> visible_width color" "0 \<le> visible_width text"
  shows "aligned_line (tui_text_line color text)"
  using assms by (simp add: aligned_line_def tui_text_line_def Let_def length_fill_chars width_closed)

text \<open>A list of lines, down to its lines.\<close>

lemma all_lines:
  "list_all P []" "P x \<Longrightarrow> list_all P xs \<Longrightarrow> list_all P (x # xs)"
  "list_all P xs \<Longrightarrow> list_all P ys \<Longrightarrow> list_all P (xs @ ys)"
  "(c \<Longrightarrow> list_all P xs) \<Longrightarrow> (\<not> c \<Longrightarrow> list_all P ys) \<Longrightarrow> list_all P (if c then xs else ys)"
  "(c \<Longrightarrow> aligned_line a) \<Longrightarrow> (\<not> c \<Longrightarrow> aligned_line b) \<Longrightarrow> aligned_line (if c then a else b)"
  by simp_all

lemma map_lines: "(\<And>i. i < n \<Longrightarrow> P (f i)) \<Longrightarrow> list_all P (map f [0..<n])"
  by (simp add: list_all_iff)

lemmas line_rules = all_lines top_aligned bottom_aligned blank_aligned kv_aligned

text \<open>The texts the sections put in.\<close>

lemma plain_formats [simp]:
  "plain (format_size_mib n b)" "plain (format_percent n milli)" "plain (format_elapsed n ms)"
  by (simp_all add: format_size_mib_def format_percent_def format_elapsed_def Let_def plain_snprintf)

lemma length_formats:
  "length (format_percent 64 milli) \<le> 22" "length (format_elapsed 64 ms) \<le> 21"
  using format_percent_text [of 41 milli] format_elapsed_text [of 42 ms] length_percent_text [of milli]
    length_elapsed_text [of "ms div 1000"]
  by simp_all

lemma length_snprintf_le: "length s \<le> k \<Longrightarrow> length (snprintf n s) \<le> k"
  by (auto simp: snprintf_def)

lemma length_mib: "length (fmt_u (b div NXMT_MIB_BYTES)) \<le> 14" for b :: u64
proof -
  have "unat (b div NXMT_MIB_BYTES) < 10 ^ Suc 13" using unat64_less [of b] by (simp add: unat_div)
  from length_fmt_u [OF this] show ?thesis by simp
qed

lemma amount_text: "plain (format_amount b)" "length (format_amount b) \<le> 45"
proof -
  show "plain (format_amount b)" by (simp add: format_amount_def Let_def plain_snprintf)
  have "length (fmt_u (b * 100 div 1073741824 div 100)) \<le> 20" "length (fmt_u (b * 100 div 1073741824 mod 100)) \<le> 20"
    by (rule length_fmt_u64)+
  then show "length (format_amount b) \<le> 45"
    using length_mib [of b] by (auto simp: format_amount_def Let_def fmt_0u_def intro!: length_snprintf_le)
qed

lemma rate_text: "plain (format_rate b ms)" "length (format_rate b ms) \<le> 46"
proof -
  show "plain (format_rate b ms)" by (simp add: format_rate_def Let_def plain_snprintf)
  let ?r = "b div 1000000 * 1000 div ms"
  have "length (fmt_u ?r) \<le> 20" "length (fmt_u (?r div 1000)) \<le> 20" "length (fmt_u (?r mod 1000 div 100)) \<le> 20"
    by (rule length_fmt_u64)+
  then show "length (format_rate b ms) \<le> 46"
    unfolding format_rate_def Let_def by (auto intro!: length_snprintf_le)
qed

lemma name_texts:
  "plain (mode_name mode)" "length (mode_name mode) \<le> 11"
  "plain (status_name st)" "length (status_name st) \<le> 11"
  "plain (memory_source_name src)" "length (memory_source_name src) \<le> 14"
  "plain NXMT_LOG_PATH" "length NXMT_LOG_PATH \<le> 49"
  by (simp_all add: mode_name_def status_name_def memory_source_name_def NXMT_LOG_PATH_def
      split: NxmtMode.split NxmtStatus.split NxmtMemorySource.split)


text \<open>Each section.\<close>

lemma number_fits:
  "length (fmt_u w) \<le> 49" "length (fmt_u w @ '' min'') \<le> 49" "length (fmt_u w @ '' s'') \<le> 49"
  "length (fmt_u w @ '' mismatched'') \<le> 49" "length (fmt_0x 16 w) \<le> 47" for w :: u64
  using length_fmt_u64 [of w] length_fmt_x64 [of w] by (simp_all add: fmt_0x_def)

lemma text_fits:
  "length (format_size_mib 64 b) \<le> 49" "length (format_percent 64 milli) \<le> 49"
  "length (format_elapsed 64 ms) \<le> 49" "length (format_amount b) \<le> 49" "length (format_rate b ms) \<le> 49"
  "length (mode_name mode) \<le> 49" "length (status_name st) \<le> 49" "length (memory_source_name src) \<le> 49"
  using length_format_size [of 64 b] length_formats [of milli] length_formats(2) [of ms] amount_text(2) [of b]
    rate_text(2) [of b ms] name_texts(2) [of mode] name_texts(4) [of st] name_texts(6) [of src]
  by simp_all

lemmas plain_texts = amount_text(1) rate_text(1) plain_snprintf name_texts

lemma header_aligned: "list_all aligned_line draw_header"
  by (simp add: draw_header_def Let_def blank_aligned) (simp add: aligned_line_def length_fill_chars)

lemma memory_section_aligned: "list_all aligned_line (draw_memory_section arena memory)"
  unfolding draw_memory_section_def
  by (intro line_rules) (simp_all add: plain_texts text_fits)

lemma run_config_aligned: "list_all aligned_line (draw_run_config_section mode workers seed duration_seconds)"
proof -
  have "length (fmt_u w) \<le> 49" for w :: u32 using length_fmt_u32 [of w] by simp
  then show ?thesis
    unfolding draw_run_config_section_def
    by (intro line_rules)
      (auto intro!: length_snprintf_le number_fits simp: plain_texts text_fits simp del: length_append)
qed

lemma number_line:
  fixes w :: u64
  assumes "plain label" "length label \<le> 22" "is_color color"
  shows "aligned_line (tui_kv label color (snprintf 64 (fmt_u w)))"
  using assms length_snprintf_le [OF number_fits(1) [of w], of 64] by (intro kv_aligned) (simp_all add: plain_snprintf)

lemma result_lines:
  "aligned_line (tui_kv ''Verified Arena'' ANSI_WHITE (snprintf 96 (fmt_u (p div 1000) @ ''.''
      @ fmt_0u 3 (p mod 1000) @ ''% of '' @ fmt_u (b div NXMT_MIB_BYTES) @ '' MiB'')))"
  "aligned_line (tui_kv ''GPU Verify Status'' ANSI_RED (snprintf 64 (fmt_u w @ '' mismatched'')))"
  "aligned_line (tui_kv ''Status'' (status_color st) (status_name st))"
  "aligned_line (tui_kv ''System Stress Pass'' ANSI_WHITE (format_percent 64 milli))"
  "aligned_line (tui_kv ''Tested'' ANSI_YELLOW (format_amount b))"
  "aligned_line (tui_kv ''GPU Pumped'' ANSI_CYAN (format_amount b))"
  "aligned_line (tui_kv ''Throughput'' ANSI_YELLOW (format_rate b ms))"
  "aligned_line (tui_kv ''Elapsed'' ANSI_YELLOW (format_elapsed 64 ms))"
  "aligned_line (tui_kv ''Verified Arena'' ANSI_DIM ''unavailable'')"
  "aligned_line (tui_kv ''GPU Verify Status'' ANSI_GREEN ''ok'')"
  "aligned_line (tui_kv ''Thread Fallback'' ANSI_YELLOW ''yes'')"
  "aligned_line (tui_kv ''Log'' (if log_ok then ANSI_DIM else ANSI_RED) (if log_ok then NXMT_LOG_PATH else ''unavailable''))"
  for p b w :: u64
proof -
  have "length (fmt_u (p div 1000) @ ''.'' @ fmt_0u 3 (p mod 1000) @ ''% of ''
      @ fmt_u (b div NXMT_MIB_BYTES) @ '' MiB'') \<le> 49"
    using length_percent_text [of p] length_mib [of b] by simp
  from length_snprintf_le [OF this, of 96]
  show "aligned_line (tui_kv ''Verified Arena'' ANSI_WHITE (snprintf 96 (fmt_u (p div 1000) @ ''.''
      @ fmt_0u 3 (p mod 1000) @ ''% of '' @ fmt_u (b div NXMT_MIB_BYTES) @ '' MiB'')))"
    by (intro kv_aligned plain_snprintf) simp_all
  from length_snprintf_le [OF number_fits(4) [of w], of 64]
  show "aligned_line (tui_kv ''GPU Verify Status'' ANSI_RED (snprintf 64 (fmt_u w @ '' mismatched'')))"
    by (intro kv_aligned plain_snprintf) simp_all
qed (rule kv_aligned; simp add: text_fits plain_texts)+

lemma results_aligned:
  "list_all aligned_line (draw_results_section workers completed_workers passes_completed arena total_stats report
      status thread_fallback elapsed_ms gpu_pumped_bytes gpu_pump_error_batches gpu_pump_verified_batches log_ok)"
  unfolding draw_results_section_def Let_def
  by (intro all_lines top_aligned bottom_aligned blank_aligned number_line result_lines) simp_all

lemmas menu_texts = closed_append ansi_closed plain_closed closed_text.intros(2) plain_width

lemma mode_menu_aligned: "list_all aligned_line (tui_draw_mode_menu has_memory_load has_extreme)"
  unfolding tui_draw_mode_menu_def
  by (auto simp: menu_texts top_aligned bottom_aligned blank_aligned intro!: text_aligned)

lemma duration_entry_aligned:
  assumes "i < NXMT_DURATION_COUNT"
  shows "aligned_line (if int i = sel
      then tui_text_line (ANSI_GREEN @ ''>'' @ ANSI_RESET) ('' '' @ ANSI_BOLD @ duration_label (kDurations ! i) @ ANSI_RESET)
      else tui_text_line (ANSI_DIM @ '' '' @ ANSI_RESET) ('' '' @ duration_label (kDurations ! i)))"
proof -
  have "list_all (\<lambda>d. plain (duration_label d) \<and> length (duration_label d) \<le> 10) kDurations"
    by (simp add: kDurations_def)
  with assms have "plain (duration_label (kDurations ! i))" "length (duration_label (kDurations ! i)) \<le> 10"
    by (simp_all add: list_all_length)
  moreover have "length ANSI_BOLD = 4" "length ANSI_RESET = 4" by (simp_all add: ansi_defs)
  ultimately show ?thesis by (intro all_lines text_aligned) (simp_all add: menu_texts)
qed

lemma duration_menu_aligned: "list_all aligned_line (draw_duration_menu mode sel)"
proof -
  have "length (mode_name mode) + 17 < 64" using name_texts(2) [of mode] by simp
  then have "aligned_line (tui_section_top (snprintf 64 (''Test Duration  ('' @ mode_name mode @ '')'')))"
    using name_texts by (intro top_aligned plain_snprintf length_snprintf_le) auto
  then show ?thesis
    unfolding draw_duration_menu_def Let_def
    by (intro all_lines(1-3) map_lines bottom_aligned blank_aligned duration_entry_aligned)
qed

text \<open>Whole screens: a line is empty or as wide as a box.\<close>

definition screen_line :: "string \<Rightarrow> bool" where
  "screen_line line \<longleftrightarrow> line = [] \<or> aligned_line line"

lemma screen_lines:
  "screen_line []" "list_all aligned_line lines \<Longrightarrow> list_all screen_line lines"
  by (auto simp: screen_line_def list_all_iff)

lemma preamble_lines: "list_all screen_line (run_preamble arena memory mode workers seed duration_seconds)"
  unfolding run_preamble_def
  by (intro all_lines(1-3) screen_lines header_aligned memory_section_aligned run_config_aligned)

lemma preamble_rows: "length (run_preamble arena memory mode workers seed duration_seconds) = 25"
  by (simp add: run_preamble_def draw_header_def draw_memory_section_def draw_run_config_section_def Let_def)

lemma notice_lines: "list_all screen_line (fst no_heap_screen)" "list_all screen_line bench_screen"
proof -
  have lines: "screen_line line" if "aligned_line line" for line using that by (simp add: screen_line_def)
  have "list_all screen_line draw_header" by (intro screen_lines header_aligned)
  moreover have "aligned_line (tui_kv ''Override Heap'' ANSI_RED ''missing'')"
    "aligned_line (tui_text_line ANSI_RED ''No usable OverrideHeap was provided.'')"
    "aligned_line (tui_text_line [] ''Launch through hbmenu in title-override / full-memory mode.'')"
    "aligned_line (tui_text_line ANSI_DIM ''Stepping deko3d buffer size up until the kernel runs out of headroom.'')"
    by (auto intro!: kv_aligned text_aligned simp: menu_texts ansi_width)
  ultimately show "list_all screen_line (fst no_heap_screen)" "list_all screen_line bench_screen"
    by (simp_all add: no_heap_screen_def bench_screen_def lines screen_lines(1) top_aligned bottom_aligned blank_aligned)
qed

section \<open>Properties\<close>


text \<open>The lines of a text.\<close>

function lines_of :: "string \<Rightarrow> string list" where
  "lines_of s = (if s = [] then []
     else takeWhile (\<lambda>c. c \<noteq> newline) s # lines_of (tl (dropWhile (\<lambda>c. c \<noteq> newline) s)))"
  by pat_completeness auto
termination
proof (relation "measure length")
  fix s :: string
  assume "s \<noteq> []"
  moreover have "length (dropWhile (\<lambda>c. c \<noteq> newline) s) \<le> length s" by (rule length_dropWhile_le)
  ultimately show "(tl (dropWhile (\<lambda>c. c \<noteq> newline) s), s) \<in> measure length"
    by (cases s) auto
qed simp

declare lines_of.simps [simp del]

lemma lines_of_line: "newline \<notin> set a \<Longrightarrow> lines_of (a @ newline # s) = a # lines_of s"
  by (subst lines_of.simps) (simp add: takeWhile_append dropWhile_append)

lemma lines_of_lines:
  "list_all (\<lambda>(label, value). newline \<notin> set (label @ value)) ls \<Longrightarrow>
    lines_of (concat (map (\<lambda>(label, value). label @ value @ [newline]) ls)) = map (\<lambda>(label, value). label @ value) ls"
proof (induction ls)
  case (Cons l ls)
  obtain a b where l: "l = (a, b)" by (cases l)
  show ?case using Cons lines_of_line [of "a @ b"] by (simp add: l)
qed (simp add: lines_of.simps)

lemma fmt_no_newline [simp]:
  "newline \<notin> set (fmt_u w)" "newline \<notin> set (fmt_x w)" "newline \<notin> set (fmt_0x n w)"
proof -
  have "newline \<notin> set (digits b n)" if "2 \<le> b" "b \<le> 16" for b n
  proof
    assume "newline \<in> set (digits b n)"
    with digits_chars [OF that] have "newline \<in> digit_char ` {..<b}" by blast
    then obtain d where "d < b" "digit_char d = newline" by auto
    then have "of_char (digit_char d) = (10 :: nat)" "d < 16" using that(2) by simp_all
    then show False by (auto simp: digit_char_def split: if_splits)
  qed
  then show "newline \<notin> set (fmt_u w)" "newline \<notin> set (fmt_x w)" "newline \<notin> set (fmt_0x n w)"
    by (auto simp: fmt_u_def fmt_x_def fmt_0x_def pad_left_def)
qed

lemma length_lines:
  "list_all (\<lambda>(label, value). length label + length value \<le> 55) ls \<Longrightarrow>
    length (concat (map (\<lambda>(label, value). label @ value @ [newline]) ls)) \<le> 56 * length ls"
proof (induction ls)
  case (Cons l ls)
  then show ?case by (cases l) simp
qed simp

text \<open>
  The report always fits its buffer of 2048 bytes, so the text is cut into exactly its 24 lines, and the numbers in
  them read back.
\<close>

lemma report_text_reads_back:
  fixes mode workers completed_workers seed arena memory report stats status thread_fallback stop_requested
    elapsed_ms gpu_pumped_bytes gpu_pump_error_batches gpu_pump_verified_batches
  defines "ls \<equiv> report_lines mode workers completed_workers seed arena memory report stats status thread_fallback
      stop_requested elapsed_ms gpu_pumped_bytes gpu_pump_error_batches gpu_pump_verified_batches"
  shows "lines_of (format_report 2048 mode workers completed_workers seed arena memory report stats status thread_fallback
      stop_requested elapsed_ms gpu_pumped_bytes gpu_pump_error_batches gpu_pump_verified_batches)
      = map (\<lambda>(label, value). label @ value) ls
    \<and> length ls = 24
    \<and> map (\<lambda>(label, value). of_digits 16 value) (drop 20 ls)
      = (if has_first_error report
         then map unat [e_offset (first report), e_expected (first report), e_actual (first report), e_xor_diff (first report)]
         else [0, 0, 0, 0])
    \<and> map_of ls ''Status: '' = Some (status_name status)
    \<and> map_option (of_digits 10) (map_of ls ''Errors: '') = Some (unat (error_count report))"
proof -
  have len: "length ls = 24" by (simp add: ls_def report_lines_def Let_def)
  have u: "length (fmt_u w) \<le> 20" "length (fmt_x w) \<le> 20" "length (fmt_0x 16 w) \<le> 20" for w :: u64
    using length_fmt_u64 [of w] length_fmt_x64 [of w] by (simp_all add: fmt_0x_def)
  have w32: "length (fmt_u w) \<le> 20" for w :: u32 using length_fmt_u32 [of w] by simp
  have names: "length (mode_name mode) \<le> 20" "length (status_name status) \<le> 20"
    "length (memory_source_name (effective_total_source memory)) \<le> 20" "length (yes_no b) \<le> 20" for b
    using name_texts(2) [of mode] name_texts(4) [of status] name_texts(6) [of "effective_total_source memory"]
    by (simp_all add: yes_no_def)
  have "list_all (\<lambda>(label, value). length label + length value \<le> 55) ls"
    unfolding ls_def report_lines_def Let_def by (simp add: u w32 names order_trans [OF u(1)] order_trans [OF u(2)] order_trans [OF u(3)]
      order_trans [OF w32] order_trans [OF names(1)] order_trans [OF names(2)] order_trans [OF names(3)] order_trans [OF names(4)])
  from length_lines [OF this] len
  have fits: "length (concat (map (\<lambda>(label, value). label @ value @ [newline]) ls)) < 2048" by simp
  have "newline \<notin> set (mode_name mode)" "newline \<notin> set (status_name status)"
    "newline \<notin> set (memory_source_name (effective_total_source memory))" "newline \<notin> set (yes_no b)" for b
    by (simp_all add: mode_name_def status_name_def memory_source_name_def yes_no_def
        split: NxmtMode.split NxmtStatus.split NxmtMemorySource.split)
  then have "list_all (\<lambda>(label, value). newline \<notin> set (label @ value)) ls"
    unfolding ls_def report_lines_def Let_def by simp
  note lines_of_lines [OF this]
  with fits have "lines_of (format_report 2048 mode workers completed_workers seed arena memory report stats status
      thread_fallback stop_requested elapsed_ms gpu_pumped_bytes gpu_pump_error_batches gpu_pump_verified_batches)
      = map (\<lambda>(label, value). label @ value) ls"
    unfolding format_report_def ls_def [symmetric] by simp
  moreover have "map (\<lambda>(label, value). of_digits 16 value) (drop 20 ls)
      = (if has_first_error report
         then map unat [e_offset (first report), e_expected (first report), e_actual (first report), e_xor_diff (first report)]
         else [0, 0, 0, 0])"
    by (simp add: ls_def report_lines_def Let_def)
  moreover have "map_of ls ''Status: '' = Some (status_name status)"
    "map_option (of_digits 10) (map_of ls ''Errors: '') = Some (unat (error_count report))"
    by (simp_all add: ls_def report_lines_def Let_def)
  ultimately show ?thesis using len by blast
qed

end
