(* ===== verification/Session.thy ===== *)
theory Session
  imports Tui Workers Filler
begin

text \<open>
  \<^verbatim>\<open>main\<close> of \<^verbatim>\<open>source/nx/main.c\<close>: the choice of the region for the GPU pump, the loop over the passes
  with its monitor, the fallback to a single worker, the final status, and the outer loop over
  menus and runs.  What libnx, the user, the clock and the other threads contribute is given as
  records: a \<open>Tick\<close> is one turn of the monitor, a \<open>PassEnv\<close> one pass, a \<open>SessionEnv\<close> one run.  A list
  that is too short means that the program is still running, the result \<open>None\<close>.
\<close>

section \<open>The region of the GPU pump\<close>

abbreviation NXMT_MAX_WORKERS :: nat where "NXMT_MAX_WORKERS \<equiv> 4"

definition worker_cpu_map :: "u64 \<Rightarrow> int list" where
  "worker_cpu_map core_mask =
     (let cores = map int (collect_worker_cpu_map core_mask NXMT_MAX_WORKERS)
      in if cores = [] then [-2] else cores)"

definition loads_bus :: "NxmtMode \<Rightarrow> bool" where
  "loads_bus mode \<longleftrightarrow> mode = NXMT_MODE_MEMORY_LOAD \<or> mode = NXMT_MODE_EXTREME"

record Carve =
  cpu_arena :: NxmtArena
  gpu_pump_region :: u64
  gpu_pump_active :: bool
  run_workers :: nat
  pump_core :: "int option"
  pump_globals :: PumpGlobals

definition carve_gpu_region :: "PumpEnv \<Rightarrow> NxmtArena \<Rightarrow> NxmtMode \<Rightarrow> u64 \<Rightarrow> int list \<Rightarrow> PumpGlobals \<Rightarrow> Carve" where
  "carve_gpu_region env arena mode seed cpu_map g =
     (let workers = length cpu_map;
          whole = \<lparr>cpu_arena = arena, gpu_pump_region = 0, gpu_pump_active = False, run_workers = workers,
                   pump_core = None, pump_globals = g\<rparr>
      in if loads_bus mode \<and> a_size arena \<ge> 1024 * NXMT_MIB_BYTES \<and> workers \<ge> 2
         then
           let region = 256 * NXMT_MIB_BYTES;
               size = a_size arena - region;
               carved = arena\<lparr>a_size := size, a_words := size div NXMT_WORD_BYTES\<rparr>;
               gpu_storage = a_base arena + size;
               (active, g) = nxmt_gpu_pump_start env gpu_storage region (64 * NXMT_MIB_BYTES) seed True
                 (Some 0) (Some 0) (Some 0) g
           in if active
              then \<lparr>cpu_arena = carved, gpu_pump_region = region, gpu_pump_active = True, run_workers = workers - 1,
                    pump_core = Some (cpu_map ! (workers - 1)), pump_globals = g\<rparr>
              else whole\<lparr>pump_globals := g\<rparr>
         else whole)"

section \<open>The monitor\<close>

text \<open>
  What one turn of the monitor finds: the count of the finished workers, the main-loop and button
  state, the clock (read once against the duration and once for the display), the progress counters
  of the workers and of the pump.
\<close>

record Tick =
  tk_finished :: nat
  tk_main_loop :: bool
  tk_plus :: bool
  tk_clock :: u64
  tk_now :: u64
  tk_progress :: "u64 list"
  tk_gpu_bytes :: u64

text \<open>The parameters of a run.\<close>

record RunSetup =
  rs_arena :: NxmtArena
  rs_mode :: NxmtMode
  rs_seed :: u64
  rs_workers :: nat
  rs_duration_seconds :: u64
  rs_test_started :: u64

definition duration_ms :: "RunSetup \<Rightarrow> u64" where
  "duration_ms rs = rs_duration_seconds rs * 1000"

definition pass_total_work :: "RunSetup \<Rightarrow> u64" where
  "pass_total_work rs =
     (let work = of_nat (nxmt_runner_phase_count (rs_mode rs)) * 2 * a_size (rs_arena rs)
      in if work = 0 then 1 else work)"

definition timed_header :: "RunSetup \<Rightarrow> u64 \<Rightarrow> string" where
  "timed_header rs test_elapsed =
     snprintf 64 (fmt_0u 2 ((test_elapsed div 1000) div 60) @ '':'' @ fmt_0u 2 ((test_elapsed div 1000) mod 60)
       @ '' / '' @ fmt_0u 2 (rs_duration_seconds rs div 60) @ '':'' @ fmt_0u 2 (rs_duration_seconds rs mod 60))"

definition spinner_chars :: string where "spinner_chars = ''|/-'' @ [CHR 0x5C]"

definition first_progress :: "RunSetup \<Rightarrow> Totals \<Rightarrow> u64 \<Rightarrow> u64 \<Rightarrow> ProgressInfo" where
  "first_progress rs t pass_index clock =
     \<lparr>pi_spinner = spinner_chars ! 0,
      pi_milli = (if duration_ms rs > 0 then nxmt_percent_milli (clock - rs_test_started rs) (duration_ms rs) else 0),
      pi_header_extra = (if duration_ms rs > 0 then timed_header rs (clock - rs_test_started rs)
        else snprintf 64 (''0 / '' @ fmt_u (pass_total_work rs div NXMT_MIB_BYTES) @ '' MiB'')),
      pi_info_text = snprintf 160 (''Pass '' @ ANSI_YELLOW @ fmt_u (pass_index + 1) @ ANSI_RESET
        @ ''    Errors '' @ ANSI_YELLOW @ fmt_u (error_count (t_report t)) @ ANSI_RESET)\<rparr>"

definition pass_done :: "RunSetup \<Rightarrow> nat \<Rightarrow> u64 list \<Rightarrow> u64" where
  "pass_done rs started progress =
     (let pass_done = fold (\<lambda>p acc. acc + p) (take started progress) 0
      in if pass_done > pass_total_work rs then pass_total_work rs else pass_done)"

definition tick_progress :: "RunSetup \<Rightarrow> Totals \<Rightarrow> u64 \<Rightarrow> nat \<Rightarrow> u32 \<Rightarrow> Tick \<Rightarrow> ProgressInfo" where
  "tick_progress rs t pass_index started tick_idx tk =
     (let done = pass_done rs started (tk_progress tk);
          test_elapsed = tk_now tk - rs_test_started rs;
          gpu_so_far = tk_gpu_bytes tk;
          cumulative_bytes = bytes_written (t_stats t) + bytes_verified (t_stats t) + done + gpu_so_far;
          (unit, scale) = (if cumulative_bytes \<ge> 1024 * NXMT_MIB_BYTES then ('' GiB'', 1024 * NXMT_MIB_BYTES)
                           else ('' MiB'', NXMT_MIB_BYTES))
      in \<lparr>pi_spinner = spinner_chars ! unat (take_bit 2 tick_idx),
          pi_milli = (if duration_ms rs > 0 then nxmt_percent_milli test_elapsed (duration_ms rs)
                      else nxmt_percent_milli done (pass_total_work rs)),
          pi_header_extra = (if duration_ms rs > 0 then timed_header rs test_elapsed
            else snprintf 64 (fmt_u (done div NXMT_MIB_BYTES) @ '' / ''
                   @ fmt_u (pass_total_work rs div NXMT_MIB_BYTES) @ '' MiB'')),
          pi_info_text = snprintf 160 (''Pass '' @ ANSI_YELLOW @ fmt_u (pass_index + 1) @ ANSI_RESET
            @ ''    Bus '' @ ANSI_YELLOW @ fmt_u (cumulative_bytes div scale) @ ANSI_RESET @ unit
            @ ''    GPU '' @ ANSI_CYAN @ fmt_u (gpu_so_far div scale) @ ANSI_RESET @ unit
            @ ''    Err '' @ ANSI_YELLOW @ fmt_u (error_count (t_report t)) @ ANSI_RESET)\<rparr>)"

text \<open>
  The loop that waits for the started workers: whether it raised the stop flag, whether the user
  aborted, and what it drew (a redraw at most every 200 ms).
\<close>

fun monitor_loop ::
    "RunSetup \<Rightarrow> Totals \<Rightarrow> u64 \<Rightarrow> nat \<Rightarrow> Tick list \<Rightarrow> u64 \<Rightarrow> u32 \<Rightarrow> ProgressInfo list
      \<Rightarrow> (bool \<times> bool \<times> ProgressInfo list) option" where
  "monitor_loop rs t pass_index started [] last_tick_ms tick_idx drawn = None"
| "monitor_loop rs t pass_index started (tk # ticks) last_tick_ms tick_idx drawn =
     (if \<not> tk_finished tk < started then Some (False, False, drawn)
      else if \<not> tk_main_loop tk then Some (True, True, drawn)
      else if tk_plus tk then Some (True, True, drawn)
      else if duration_ms rs > 0 \<and> tk_clock tk - rs_test_started rs \<ge> duration_ms rs then Some (True, False, drawn)
      else if tk_now tk - last_tick_ms \<ge> 200
      then monitor_loop rs t pass_index started ticks (tk_now tk) (tick_idx + 1)
             (drawn @ [tick_progress rs t pass_index started tick_idx tk])
      else monitor_loop rs t pass_index started ticks last_tick_ms tick_idx drawn)"

section \<open>One pass\<close>

text \<open>
  \<open>pe_create\<close> and \<open>pe_start\<close> are the results of the thread calls, \<open>pe_env\<close> and \<open>pe_mem\<close> the
  environment and the memory of each worker: other threads act between its polls through its
  \<open>env_drift\<close>.
\<close>

record PassEnv =
  pe_clock :: u64
  pe_create :: "nat \<Rightarrow> u32"
  pe_start :: "nat \<Rightarrow> u32"
  pe_first_clock :: u64
  pe_last_tick :: u64
  pe_ticks :: "Tick list"
  pe_env :: "nat \<Rightarrow> Env"
  pe_mem :: "nat \<Rightarrow> mem"

record Session =
  ss_totals :: Totals
  ss_passes :: u64
  ss_pass_index :: u64
  ss_stop :: bool
  ss_user_aborted :: bool
  ss_fallback :: bool
  ss_drawn :: "ProgressInfo list"

text \<open>How many calls succeed before the first that fails.\<close>

definition count_ok :: "(nat \<Rightarrow> u32) \<Rightarrow> nat \<Rightarrow> nat" where
  "count_ok rc n = length (takeWhile (\<lambda>w. rc w = 0) [0..<n])"

definition pass_context :: "RunSetup \<Rightarrow> u64 \<Rightarrow> nat \<Rightarrow> NxmtWorkerContext" where
  "pass_context rs pass_index worker =
     (let ctx = init_worker_context (rs_arena rs) (rs_mode rs) (rs_seed rs) (of_nat worker)
            (of_nat (rs_workers rs)) True
      in ctx\<lparr>ctx_config := (ctx_config ctx)\<lparr>c_pass := pass_index, has_progress_bytes := True\<rparr>\<rparr>)"

text \<open>A worker sees the flag raised only after it has been raised.\<close>

definition with_stop :: "bool \<Rightarrow> Env \<Rightarrow> Env" where
  "with_stop stop env = env\<lparr>env_stop := (\<lambda>k. stop \<and> env_stop env k)\<rparr>"

fun run_threads :: "(nat \<Rightarrow> NxmtWorkerContext option) \<Rightarrow> nat list \<Rightarrow> NxmtWorkerContext list option" where
  "run_threads thread [] = Some []"
| "run_threads thread (w # ws) =
     (case thread w of
        None \<Rightarrow> None
      | Some ctx \<Rightarrow> map_option ((#) ctx) (run_threads thread ws))"

definition worker_thread :: "RunSetup \<Rightarrow> PassEnv \<Rightarrow> bool \<Rightarrow> u64 \<Rightarrow> nat \<Rightarrow> NxmtWorkerContext option" where
  "worker_thread rs pe stop pass_index w =
     map_option fst (nxmt_worker_entry (with_stop stop (pe_env pe w)) (pe_mem pe w) 0 0 (pass_context rs pass_index w))"

text \<open>The body of the loop over the passes; \<open>True\<close> when the loop goes on.\<close>

definition run_one_pass :: "RunSetup \<Rightarrow> PassEnv \<Rightarrow> Session \<Rightarrow> (bool \<times> Session) option" where
  "run_one_pass rs pe s =
     (let workers = rs_workers rs;
          created_threads = count_ok (pe_create pe) workers
      in if created_threads < workers then Some (False, s\<lparr>ss_fallback := True\<rparr>)
         else
           let started_threads = count_ok (pe_start pe) workers
           in if started_threads < workers \<and> started_threads = 0 then Some (False, s\<lparr>ss_fallback := True\<rparr>)
              else
                case monitor_loop rs (ss_totals s) (ss_pass_index s) started_threads (pe_ticks pe) (pe_last_tick pe) 1
                    (ss_drawn s @ [first_progress rs (ss_totals s) (ss_pass_index s) (pe_first_clock pe)]) of
                  None \<Rightarrow> None
                | Some (stop, aborted, drawn) \<Rightarrow>
                    (case run_threads (worker_thread rs pe (ss_stop s \<or> stop) (ss_pass_index s)) [0..<started_threads] of
                       None \<Rightarrow> None
                     | Some ctxs \<Rightarrow>
                         let s = s\<lparr>ss_totals := merge_worker_contexts ctxs (ss_totals s),
                                   ss_passes := ss_passes s + 1, ss_stop := ss_stop s \<or> stop,
                                   ss_user_aborted := ss_user_aborted s \<or> aborted, ss_drawn := drawn\<rparr>
                         in if t_status (ss_totals s) = NXMT_STATUS_FAIL then Some (False, s)
                            else if ss_stop s then Some (False, s)
                            else if duration_ms rs = 0 then Some (False, s)
                            else Some (True, s\<lparr>ss_pass_index := ss_pass_index s + 1\<rparr>)))"

fun pass_loop :: "RunSetup \<Rightarrow> PassEnv list \<Rightarrow> Session \<Rightarrow> Session option" where
  "pass_loop rs [] s = None"
| "pass_loop rs (pe # passes) s =
     (if ss_stop s then Some s
      else if duration_ms rs > 0 \<and> pe_clock pe - rs_test_started rs \<ge> duration_ms rs then Some s
      else case run_one_pass rs pe s of
             None \<Rightarrow> None
           | Some (False, s) \<Rightarrow> Some s
           | Some (True, s) \<Rightarrow> pass_loop rs passes s)"

section \<open>One run\<close>

text \<open>The single worker on the main thread when no threads could be had.\<close>

definition run_fallback :: "RunSetup \<Rightarrow> Env \<Rightarrow> mem \<Rightarrow> Session \<Rightarrow> Session option" where
  "run_fallback rs env m s =
     (if \<not> ss_fallback s then Some s
      else
        let s = s\<lparr>ss_stop := False\<rparr>;
            context = init_worker_context (rs_arena rs) (rs_mode rs) (rs_seed rs) 0 1 True;
            context = context\<lparr>ctx_config := (ctx_config context)\<lparr>c_pass := ss_pass_index s\<rparr>,
              ctx_report := nxmt_report_init (ctx_report context), ctx_stats := zero_stats\<rparr>
        in case nxmt_runner_run_pass (with_stop (ss_stop s) env) (Some (rs_arena rs)) (Some (ctx_config context)) True True
                  \<lparr>w_mem = m, w_progress = 0, w_polls = 0, w_pressure = 0,
                   w_report = ctx_report context, w_stats = ctx_stats context\<rparr> of
             None \<Rightarrow> None
           | Some (status, r) \<Rightarrow>
               let context = context\<lparr>ctx_report := w_report r, ctx_stats := w_stats r, ctx_status := status\<rparr>
               in Some (s\<lparr>ss_totals := merge_worker_context context (ss_totals s), ss_passes := ss_passes s + 1\<rparr>))"

text \<open>The status shown at the end.\<close>

definition final_status :: "bool \<Rightarrow> u64 \<Rightarrow> Totals \<Rightarrow> NxmtStatus" where
  "final_status user_aborted gpu_err_batches t =
     (let status = t_status t;
          status = (if gpu_err_batches > 0 then (if status \<noteq> NXMT_STATUS_FAIL then NXMT_STATUS_FAIL else status) else status)
      in if \<not> user_aborted \<and> status = NXMT_STATUS_ABORTED \<and> error_count (t_report t) = 0 then NXMT_STATUS_PASS
         else status)"

record SessionEnv =
  se_core_mask :: u64
  se_seed :: u64
  se_pump :: PumpEnv
  se_pump_globals :: PumpGlobals
  se_filler :: FillerEnv
  se_filler_sink :: u64
  se_test_started :: u64
  se_passes :: "PassEnv list"
  se_fallback_env :: Env
  se_fallback_mem :: mem
  se_end_clock :: u64

record RunResult =
  rr_mode :: NxmtMode
  rr_seed :: u64
  rr_cpu_arena :: NxmtArena
  rr_workers :: nat
  rr_totals :: Totals
  rr_status :: NxmtStatus
  rr_passes :: u64
  rr_fallback :: bool
  rr_user_aborted :: bool
  rr_gpu_bytes :: u64
  rr_gpu_errors :: u64
  rr_gpu_verified :: u64
  rr_elapsed :: u64

definition session_carve :: "SessionEnv \<Rightarrow> NxmtArena \<Rightarrow> NxmtMode \<Rightarrow> Carve" where
  "session_carve se arena mode =
     carve_gpu_region (se_pump se) arena mode (se_seed se) (worker_cpu_map (se_core_mask se)) (se_pump_globals se)"

definition session_setup :: "SessionEnv \<Rightarrow> NxmtArena \<Rightarrow> NxmtMode \<Rightarrow> u64 \<Rightarrow> RunSetup" where
  "session_setup se arena mode duration_seconds =
     \<lparr>rs_arena = cpu_arena (session_carve se arena mode), rs_mode = mode, rs_seed = se_seed se,
      rs_workers = run_workers (session_carve se arena mode), rs_duration_seconds = duration_seconds,
      rs_test_started = se_test_started se\<rparr>"

definition session_start :: Session where
  "session_start =
     \<lparr>ss_totals = \<lparr>t_report = nxmt_report_init zero_report, t_stats = zero_stats, t_status = NXMT_STATUS_PASS,
        t_completed = 0\<rparr>,
      ss_passes = 0, ss_pass_index = 0, ss_stop = False, ss_user_aborted = False, ss_fallback = False, ss_drawn = []\<rparr>"

text \<open>Stopping the filler and the pump waits for their threads.\<close>

definition run_session :: "SessionEnv \<Rightarrow> NxmtArena \<Rightarrow> NxmtMode \<Rightarrow> u64 \<Rightarrow> RunResult option" where
  "run_session se arena mode duration_seconds =
     (let cv = session_carve se arena mode;
          rs = session_setup se arena mode duration_seconds;
          cpu_filler_active = (loads_bus mode \<and> gpu_pump_active cv \<and> nxmt_cpu_filler_start (se_filler se) True)
      in case pass_loop rs (se_passes se) session_start of
           None \<Rightarrow> None
         | Some s \<Rightarrow>
             (case run_fallback rs (se_fallback_env se) (se_fallback_mem se) s of
                None \<Rightarrow> None
              | Some s \<Rightarrow>
                  if cpu_filler_active \<and> filler_entry (se_filler se) (se_filler_sink se) = None then None
                  else
                    (case (if gpu_pump_active cv then pump_thread_entry (se_pump se) (pump_globals cv)
                           else Some ((pump_globals cv)\<lparr>g_pump_progress := Some 0, g_pump_errors := Some 0,
                                                       g_pump_verified := Some 0\<rparr>)) of
                       None \<Rightarrow> None
                     | Some g \<Rightarrow>
                         Some \<lparr>rr_mode = mode, rr_seed = se_seed se, rr_cpu_arena = cpu_arena cv,
                               rr_workers = run_workers cv, rr_totals = ss_totals s,
                               rr_status = final_status (ss_user_aborted s) (the (g_pump_errors g)) (ss_totals s),
                               rr_passes = ss_passes s, rr_fallback = ss_fallback s,
                               rr_user_aborted = ss_user_aborted s,
                               rr_gpu_bytes = the (g_pump_progress g), rr_gpu_errors = the (g_pump_errors g),
                               rr_gpu_verified = the (g_pump_verified g),
                               rr_elapsed = se_end_clock se - se_test_started se\<rparr>)))"

text \<open>What is written to the log and shown on the screen.\<close>

definition result_report :: "NxmtArena \<Rightarrow> NxmtPlatformMemory \<Rightarrow> RunResult \<Rightarrow> string" where
  "result_report arena memory r =
     format_report 2048 (rr_mode r) (of_nat (rr_workers r)) (t_completed (rr_totals r)) (rr_seed r) arena memory
       (t_report (rr_totals r)) (t_stats (rr_totals r)) (rr_status r) (rr_fallback r) True (rr_elapsed r)
       (rr_gpu_bytes r) (rr_gpu_errors r) (rr_gpu_verified r)"

section \<open>The program\<close>

fun result_wait :: "Frame list \<Rightarrow> (bool \<times> Frame list) option" where
  "result_wait [] = None"
| "result_wait (None # frames) = Some (False, frames)"
| "result_wait (Some input # frames) =
     (if in_plus input then Some (True, frames) else if in_b input then Some (False, frames) else result_wait frames)"

text \<open>The loop over menu and run: the results of the runs, in order.\<close>

fun main_loop :: "(nat \<Rightarrow> BenchEnv) \<Rightarrow> NxmtArena \<Rightarrow> (mem \<times> SessionEnv) list \<Rightarrow> Frame list \<Rightarrow> RunResult list option" where
  "main_loop bench arena [] frames = None"
| "main_loop bench arena ((m, se) # runs) frames =
     (case mode_select_loop (\<lambda>m. snd (run_gpu_bench_screen bench arena m)) arena NXMT_MODE_QUICK 0 m frames of
        None \<Rightarrow> None
      | Some sel \<Rightarrow>
          if sel_exit_app sel \<or> \<not> sel_mode_selected sel then Some []
          else
            case run_session se arena (sel_mode sel) (sel_duration_seconds sel) of
              None \<Rightarrow> None
            | Some r \<Rightarrow>
                (case result_wait (sel_frames sel) of
                   None \<Rightarrow> None
                 | Some (exit_app, frames) \<Rightarrow>
                     if exit_app then Some [r] else map_option ((#) r) (main_loop bench arena runs frames)))"

text \<open>Without a usable heap the program only shows a notice; it makes no run.\<close>

definition main :: "Libnx \<Rightarrow> HeapState \<Rightarrow> (nat \<Rightarrow> BenchEnv) \<Rightarrow> (mem \<times> SessionEnv) list \<Rightarrow> Frame list \<Rightarrow> RunResult list option" where
  "main libnx h bench runs frames =
     (let memory = nxmt_platform_get_memory libnx h
      in if \<not> has_heap_override memory then Some []
         else main_loop bench (nxmt_arena_from_range (override_heap_addr memory) (override_heap_size memory)) runs frames)"

section \<open>The carved region\<close>

lemma cpu_map_facts:
  "distinct (worker_cpu_map core_mask)" "Suc 0 \<le> length (worker_cpu_map core_mask)" "length (worker_cpu_map core_mask) \<le> 4"
proof -
  have "length (collect_worker_cpu_map core_mask NXMT_MAX_WORKERS) \<le> 4" by (simp add: cpu_map_eq)
  moreover have "distinct (map int (collect_worker_cpu_map core_mask NXMT_MAX_WORKERS))"
    by (simp add: distinct_map cpu_map_distinct)
  ultimately show "distinct (worker_cpu_map core_mask)" "Suc 0 \<le> length (worker_cpu_map core_mask)"
    "length (worker_cpu_map core_mask) \<le> 4"
    by (auto simp: worker_cpu_map_def Let_def Suc_le_eq)
qed

lemma carve_cases:
  obtains (whole) g' where "carve_gpu_region env arena mode seed cpu_map g = \<lparr>cpu_arena = arena, gpu_pump_region = 0,
      gpu_pump_active = False, run_workers = length cpu_map, pump_core = None, pump_globals = g'\<rparr>"
  | (carved) g' where "carve_gpu_region env arena mode seed cpu_map g =
        \<lparr>cpu_arena = arena\<lparr>a_size := a_size arena - 0x10000000, a_words := (a_size arena - 0x10000000) div 8\<rparr>,
         gpu_pump_region = 0x10000000, gpu_pump_active = True, run_workers = length cpu_map - 1,
         pump_core = Some (cpu_map ! (length cpu_map - 1)), pump_globals = g'\<rparr>"
    "nxmt_gpu_pump_start env (a_base arena + (a_size arena - 0x10000000)) 0x10000000 0x4000000 seed True
       (Some 0) (Some 0) (Some 0) g = (True, g')"
    "loads_bus mode" "0x40000000 \<le> a_size arena" "2 \<le> length cpu_map"
proof (cases "loads_bus mode \<and> a_size arena \<ge> 0x40000000 \<and> 2 \<le> length cpu_map")
  case False
  then show ?thesis using whole [of g] by (auto simp: carve_gpu_region_def Let_def)
next
  case True
  obtain active g' where start: "nxmt_gpu_pump_start env (a_base arena + (a_size arena - 0x10000000)) 0x10000000 0x4000000
      seed True (Some 0) (Some 0) (Some 0) g = (active, g')" by fastforce
  show ?thesis
  proof (cases active)
    case active: True
    with True start show ?thesis by (intro carved [of g']) (simp_all add: carve_gpu_region_def Let_def)
  next
    case False
    with True start show ?thesis by (intro whole [of g']) (simp add: carve_gpu_region_def Let_def)
  qed
qed

lemma pump_start_base:
  "nxmt_gpu_pump_start env storage_base storage_size buffer_size seed has_stop progress errors verified g = (True, g')
    \<Longrightarrow> g_pump_storage_base g' = storage_base"
  by (auto simp: nxmt_gpu_pump_start_def Let_def split: if_splits)

lemma unat_gib: "0x40000000 \<le> sz \<Longrightarrow> unat (sz - 0x10000000) = unat sz - 0x10000000" for sz :: u64
  by (subst unat_sub) (simp_all add: word_le_nat_alt)

text \<open>
  Property C11.  The GPU region and the CPU arena share the arena exactly: with the pump running,
  every byte of the arena is in the tail of 256 MiB handed to the pump or in the range given
  to the workers, never in both, and the workers' range holds whole words; the pump's core is
  none of the workers' cores.  Without the pump the workers have the whole arena and every core.
  There are always one to four workers.
\<close>

theorem carve_partitions_arena:
  fixes env arena mode seed core_mask g
  defines "cpu_map \<equiv> worker_cpu_map core_mask"
  defines "cv \<equiv> carve_gpu_region env arena mode seed cpu_map g"
  shows "run_workers cv \<in> {1..4}
    \<and> (if gpu_pump_active cv
       then loads_bus mode \<and> unat (gpu_pump_region cv) = 2 ^ 28 \<and> unat (a_size (cpu_arena cv)) + 2 ^ 28 = unat (a_size arena)
         \<and> {x. x - a_base (cpu_arena cv) < a_size (cpu_arena cv)}
             \<union> {x. x - g_pump_storage_base (pump_globals cv) < gpu_pump_region cv} = {x. x - a_base arena < a_size arena}
         \<and> {x. x - a_base (cpu_arena cv) < a_size (cpu_arena cv)}
             \<inter> {x. x - g_pump_storage_base (pump_globals cv) < gpu_pump_region cv} = {}
         \<and> unat (a_words (cpu_arena cv)) = unat (a_size (cpu_arena cv)) div 8
         \<and> pump_core cv \<notin> Some ` set (take (run_workers cv) cpu_map) \<and> pump_core cv \<in> Some ` set cpu_map
       else cpu_arena cv = arena \<and> run_workers cv = length cpu_map \<and> pump_core cv = None)"
proof (cases rule: carve_cases [of env arena mode seed cpu_map g])
  case (whole g')
  then show ?thesis using cpu_map_facts [of core_mask] by (simp add: cv_def cpu_map_def)
next
  case (carved g')
  let ?S = "a_size arena" and ?c = "a_size arena - 0x10000000" and ?b = "a_base arena"
  have c: "unat ?c = unat ?S - 0x10000000" by (rule unat_gib [OF carved(4)])
  have big: "0x40000000 \<le> unat ?S" using carved(4) by (simp add: word_le_nat_alt)
  have base: "g_pump_storage_base g' = ?b + ?c" using pump_start_base [OF carved(2)] by simp
  have off: "x - (?b + ?c) = (x - ?b) - ?c" for x by simp
  have split: "(d < ?S) = (d < ?c \<or> d - ?c < 0x10000000)" "\<not> (d < ?c \<and> d - ?c < 0x10000000)" for d :: u64
    using big c unat64_less [of ?S] by (auto simp: word_less_nat_alt unat_diff64)
  have core: "cpu_map ! (length cpu_map - 1) \<in> set cpu_map" using carved(5) by (intro nth_mem) linarith
  have "cpu_map ! (length cpu_map - 1) \<notin> set (take (length cpu_map - 1) cpu_map)"
  proof
    assume "cpu_map ! (length cpu_map - 1) \<in> set (take (length cpu_map - 1) cpu_map)"
    then obtain i where "i < length cpu_map - 1" "cpu_map ! i = cpu_map ! (length cpu_map - 1)"
      by (auto simp: in_set_conv_nth)
    moreover have "distinct cpu_map" using cpu_map_facts unfolding cpu_map_def by blast
    ultimately show False by (auto simp: nth_eq_iff_index_eq)
  qed
  with core have cores: "pump_core cv \<notin> Some ` set (take (run_workers cv) cpu_map)" "pump_core cv \<in> Some ` set cpu_map"
    by (auto simp: cv_def carved(1))
  show ?thesis
    using cpu_map_facts(3) [of core_mask] carved(3,5) cores split big c
    by (auto simp: cv_def carved(1) base off unat_div cpu_map_def [symmetric] simp del: add_diff_eq)
qed

end
