(* ===== verification/Session_Verdict.thy ===== *)
theory Session_Verdict
  imports Session
begin

text \<open>
  What a run of \<open>Session\<close> leaves behind: the invariant of its totals over the passes and the fallback, the
  verdict drawn from them, and that a run returns.
\<close>

section \<open>What a run leaves behind\<close>

definition valid_arena :: "NxmtArena \<Rightarrow> bool" where
  "valid_arena arena \<longleftrightarrow> a_base arena \<noteq> 0 \<and> a_words arena \<noteq> 0 \<and> aligned8 (a_base arena) \<and> unat (a_words arena) < 2 ^ 61"

lemma session_workers: "run_workers (session_carve se arena mode) \<in> {1..4}"
  unfolding session_carve_def
  by (cases rule: carve_cases [of "se_pump se" arena mode "se_seed se" "worker_cpu_map (se_core_mask se)" "se_pump_globals se"])
    (use cpu_map_facts [of "se_core_mask se"] in auto)

lemma session_arena_valid:
  assumes "valid_arena arena"
  shows "valid_arena (cpu_arena (session_carve se arena mode))"
proof (cases rule: carve_cases [of "se_pump se" arena mode "se_seed se" "worker_cpu_map (se_core_mask se)" "se_pump_globals se"])
  case (whole g')
  with assms show ?thesis by (simp add: session_carve_def)
next
  case (carved g')
  let ?c = "a_size arena - 0x10000000"
  have "0x30000000 \<le> unat ?c" using carved(4) unat_gib [OF carved(4)] by (simp add: word_le_nat_alt)
  then have "unat (?c div 8) \<noteq> 0" "unat (?c div 8) < 2 ^ 61"
    using unat64_less [of ?c] by (simp_all add: unat_div)
  moreover from this(1) have "?c div 8 \<noteq> 0" by auto
  ultimately show ?thesis using assms carved by (simp add: session_carve_def valid_arena_def)
qed

text \<open>An error some worker of some pass can have found.\<close>

definition run_error :: "NxmtArena \<Rightarrow> NxmtMode \<Rightarrow> u64 \<Rightarrow> NxmtError \<Rightarrow> bool" where
  "run_error arena mode seed e \<longleftrightarrow> (\<exists>config. c_mode config = mode \<and> c_seed config = seed \<and> valid_args arena config
     \<and> \<not> inject_mismatch config \<and> genuine_in_pass arena config e)"

definition good_setup :: "RunSetup \<Rightarrow> bool" where
  "good_setup rs \<longleftrightarrow> valid_arena (rs_arena rs) \<and> rs_workers rs \<in> {1..4}"

lemma session_setup_good: "valid_arena arena \<Longrightarrow> good_setup (session_setup se arena mode dur)"
  using session_workers session_arena_valid by (simp add: good_setup_def session_setup_def)

lemma pass_context_fields [simp]:
  "ctx_arena (pass_context rs p w) = rs_arena rs"
  "c_mode (ctx_config (pass_context rs p w)) = rs_mode rs" "c_seed (ctx_config (pass_context rs p w)) = rs_seed rs"
  "c_worker_id (ctx_config (pass_context rs p w)) = of_nat w"
  "c_worker_count (ctx_config (pass_context rs p w)) = of_nat (rs_workers rs)"
  "\<not> inject_mismatch (ctx_config (pass_context rs p w))"
  "ctx_report (pass_context rs p w) = zero_report" "ctx_stats (pass_context rs p w) = zero_stats"
  by (simp_all add: pass_context_def init_worker_context_def Let_def)

lemma of_nat_small32: "n < 2 ^ 32 \<Longrightarrow> unat (of_nat n :: u32) = n"
  by (simp add: unat_of_nat)

lemma pass_context_valid:
  assumes "good_setup rs" and "w < rs_workers rs"
  shows "valid_args (ctx_arena (pass_context rs p w)) (ctx_config (pass_context rs p w))"
proof -
  have "unat (of_nat w :: u32) = w" "unat (of_nat (rs_workers rs) :: u32) = rs_workers rs"
    using assms by (auto simp: good_setup_def intro!: of_nat_small32)
  then show ?thesis using assms
    by (auto simp: good_setup_def valid_arena_def valid_args_def word_less_nat_alt word_eq_iff_unat)
qed

lemma run_error_context:
  "good_setup rs \<Longrightarrow> w < rs_workers rs \<Longrightarrow> genuine_in_pass (rs_arena rs) (ctx_config (pass_context rs p w)) e
    \<Longrightarrow> run_error (rs_arena rs) (rs_mode rs) (rs_seed rs) e"
  using pass_context_valid [of rs w p] unfolding run_error_def
  by (intro exI [of _ "ctx_config (pass_context rs p w)"]) simp

lemma with_stop_stoppable: "stoppable (with_stop b env) config \<Longrightarrow> b"
  by (auto simp: stoppable_def with_stop_def)

lemma run_threads_all:
  "run_threads thread ws = Some ctxs \<Longrightarrow> list_all2 (\<lambda>w ctx. thread w = Some ctx) ws ctxs"
  by (induction ws arbitrary: ctxs) (auto split: option.splits)

lemma run_threads_returns: "(\<And>w. w \<in> set ws \<Longrightarrow> thread w \<noteq> None) \<Longrightarrow> run_threads thread ws \<noteq> None"
proof (induction ws)
  case (Cons w ws)
  then have "thread w \<noteq> None" "run_threads thread ws \<noteq> None" by simp_all
  then show ?case by auto
qed simp

lemma count_ok_le: "count_ok rc n \<le> n"
  unfolding count_ok_def using length_takeWhile_le [of "\<lambda>w. rc w = 0" "[0..<n]"] by simp

text \<open>The status of a merge is one of the statuses merged.\<close>

lemma merge_status_in:
  "t_status (merge_worker_contexts ctxs t) \<in> insert (t_status t) (ctx_status ` set ctxs)"
proof -
  have "Max (insert (t_status t) (set (map ctx_status ctxs))) \<in> insert (t_status t) (set (map ctx_status ctxs))"
    by (rule Max_in) simp_all
  then show ?thesis by (simp add: merge_status fold_max)
qed

definition session_inv :: "RunSetup \<Rightarrow> Session \<Rightarrow> bool" where
  "session_inv rs s \<longleftrightarrow> (\<exists>es. report_of (t_report (ss_totals s)) es
     \<and> (t_status (ss_totals s) = NXMT_STATUS_FAIL \<longleftrightarrow> es \<noteq> [])
     \<and> (\<forall>e \<in> set es. run_error (rs_arena rs) (rs_mode rs) (rs_seed rs) e))
     \<and> t_status (ss_totals s) \<noteq> NXMT_STATUS_UNSUPPORTED
     \<and> (t_status (ss_totals s) = NXMT_STATUS_ABORTED \<longrightarrow> ss_stop s)"

lemma session_inv_start: "session_inv rs session_start"
  using report_of_init unfolding session_inv_def session_start_def by (auto intro!: exI [of _ "[]"])

lemma session_inv_merge:
  assumes good: "good_setup rs" and inv: "session_inv rs s"
    and threads: "list_all2 (\<lambda>w ctx. w < rs_workers rs \<and> worker_thread rs pe stop p w = Some ctx) ws ctxs"
    and s': "ss_totals s' = merge_worker_contexts ctxs (ss_totals s)" "ss_stop s' \<longleftrightarrow> stop" "ss_stop s \<longrightarrow> stop"
  shows "session_inv rs s'"
proof -
  have words: "unat (a_words (rs_arena rs)) < 2 ^ 61" using good by (simp add: good_setup_def valid_arena_def)
  from inv obtain es0 where es0: "report_of (t_report (ss_totals s)) es0"
    "t_status (ss_totals s) = NXMT_STATUS_FAIL \<longleftrightarrow> es0 \<noteq> []"
    "\<forall>e \<in> set es0. run_error (rs_arena rs) (rs_mode rs) (rs_seed rs) e"
    unfolding session_inv_def by blast
  have ran: "list_all2 ran_to (map (pass_context rs p) ws) ctxs"
    unfolding list_all2_map1 using threads
  proof (rule list_all2_mono)
    fix w ctx
    assume "w < rs_workers rs \<and> worker_thread rs pe stop p w = Some ctx"
    then obtain m' p' f' where "nxmt_worker_entry (with_stop stop (pe_env pe w)) (pe_mem pe w) 0 0 (pass_context rs p w)
        = Some (ctx, m', p', f')" by (auto simp: worker_thread_def)
    with words show "ran_to (pass_context rs p w) ctx" by (intro ran_toI) simp_all
  qed
  have each: "ctx_status ctx \<noteq> NXMT_STATUS_UNSUPPORTED \<and> (ctx_status ctx = NXMT_STATUS_ABORTED \<longrightarrow> stop)"
    if "ctx \<in> set ctxs" for ctx
  proof -
    from that threads obtain w where w: "w < rs_workers rs" "worker_thread rs pe stop p w = Some ctx"
      by (auto simp: list_all2_conv_all_nth in_set_conv_nth)
    then obtain m' p' f' where entry: "nxmt_worker_entry (with_stop stop (pe_env pe w)) (pe_mem pe w) 0 0 (pass_context rs p w)
        = Some (ctx, m', p', f')" by (auto simp: worker_thread_def)
    from worker_entry_result [OF _ this] words pass_context_valid [OF good w(1)] with_stop_stoppable
    show ?thesis by auto
  qed
  from merge_verdict [OF ran es0(1)] obtain es where
    es: "report_of (t_report (ss_totals s')) (es0 @ es)" "NXMT_STATUS_FAIL \<in> ctx_status ` set ctxs \<longleftrightarrow> es \<noteq> []"
      "\<forall>e \<in> set es. \<exists>ctx \<in> set (map (pass_context rs p) ws). genuine_in_pass (ctx_arena ctx) (ctx_config ctx) e"
    unfolding s'(1) by blast
  have "\<forall>e \<in> set es. run_error (rs_arena rs) (rs_mode rs) (rs_seed rs) e"
  proof
    fix e assume "e \<in> set es"
    with es(3) obtain w where "w \<in> set ws" "genuine_in_pass (rs_arena rs) (ctx_config (pass_context rs p w)) e" by auto
    moreover from this(1) threads have "w < rs_workers rs" by (auto simp: list_all2_conv_all_nth in_set_conv_nth)
    ultimately show "run_error (rs_arena rs) (rs_mode rs) (rs_seed rs) e" using good run_error_context by blast
  qed
  moreover have "t_status (ss_totals s') = NXMT_STATUS_FAIL \<longleftrightarrow> es0 @ es \<noteq> []"
    unfolding s'(1) merge_status_fail using es0(2) es(2) by auto
  moreover have "t_status (ss_totals s') \<noteq> NXMT_STATUS_UNSUPPORTED"
    "t_status (ss_totals s') = NXMT_STATUS_ABORTED \<longrightarrow> ss_stop s'"
    using merge_status_in [of ctxs "ss_totals s"] each inv s' unfolding session_inv_def by auto
  ultimately show ?thesis using es(1) es0(3) unfolding session_inv_def by (auto intro!: exI [of _ "es0 @ es"])
qed

text \<open>One pass: what its result can be.\<close>

lemma one_pass_cases:
  assumes "run_one_pass rs pe s = Some (go, s')"
  obtains (fallback) "\<not> go" "s' = s\<lparr>ss_fallback := True\<rparr>"
    "count_ok (pe_create pe) (rs_workers rs) < rs_workers rs \<or> count_ok (pe_start pe) (rs_workers rs) = 0"
  | (ran) started stop aborted drawn ctxs where
    "started = count_ok (pe_start pe) (rs_workers rs)" "started \<le> rs_workers rs"
    "monitor_loop rs (ss_totals s) (ss_pass_index s) started (pe_ticks pe) (pe_last_tick pe) 1
       (ss_drawn s @ [first_progress rs (ss_totals s) (ss_pass_index s) (pe_first_clock pe)]) = Some (stop, aborted, drawn)"
    "list_all2 (\<lambda>w ctx. w < rs_workers rs \<and> worker_thread rs pe (ss_stop s \<or> stop) (ss_pass_index s) w = Some ctx) [0..<started] ctxs"
    "ss_totals s' = merge_worker_contexts ctxs (ss_totals s)" "ss_stop s' \<longleftrightarrow> ss_stop s \<or> stop"
    "ss_user_aborted s' \<longleftrightarrow> ss_user_aborted s \<or> aborted" "ss_fallback s' = ss_fallback s"
    "go \<longleftrightarrow> t_status (ss_totals s') \<noteq> NXMT_STATUS_FAIL \<and> \<not> ss_stop s' \<and> duration_ms rs \<noteq> 0"
    "ss_passes s' = ss_passes s + 1"
proof -
  let ?started = "count_ok (pe_start pe) (rs_workers rs)"
  show ?thesis
  proof (cases "count_ok (pe_create pe) (rs_workers rs) < rs_workers rs \<or> ?started < rs_workers rs \<and> ?started = 0")
    case True
    with assms show ?thesis by (intro fallback) (auto simp: run_one_pass_def Let_def split: if_splits)
  next
    case False
    with assms obtain stop aborted drawn ctxs where
      1: "monitor_loop rs (ss_totals s) (ss_pass_index s) ?started (pe_ticks pe) (pe_last_tick pe) 1
       (ss_drawn s @ [first_progress rs (ss_totals s) (ss_pass_index s) (pe_first_clock pe)]) = Some (stop, aborted, drawn)"
      and 2: "run_threads (worker_thread rs pe (ss_stop s \<or> stop) (ss_pass_index s)) [0..<?started] = Some ctxs"
      by (auto simp: run_one_pass_def Let_def split: option.splits)
    have le: "?started \<le> rs_workers rs" by (rule count_ok_le)
    have "list_all2 (\<lambda>w ctx. w < rs_workers rs \<and> worker_thread rs pe (ss_stop s \<or> stop) (ss_pass_index s) w = Some ctx)
        [0..<?started] ctxs"
      using run_threads_all [OF 2] le by (auto simp: list_all2_conv_all_nth)
    from ran [OF refl le 1 this] assms False 1 2 show ?thesis
      by (auto simp: run_one_pass_def Let_def split: if_splits)
  qed
qed

lemma one_pass_inv:
  assumes "good_setup rs" and "session_inv rs s" and "run_one_pass rs pe s = Some (go, s')"
  shows "session_inv rs s' \<and> (go \<longrightarrow> \<not> ss_stop s') \<and> (ss_fallback s' \<longrightarrow> ss_fallback s \<or> ss_stop s' = ss_stop s)"
  using assms(3)
proof (cases rule: one_pass_cases)
  case fallback
  with assms(2) show ?thesis by (simp add: session_inv_def)
next
  case (ran started stop aborted drawn ctxs)
  from session_inv_merge [OF assms(1,2) ran(4,5,6)] ran(8,9) show ?thesis by auto
qed

lemma pass_loop_inv:
  assumes "good_setup rs" and "session_inv rs s" and "\<not> ss_stop s" and "\<not> ss_fallback s"
    and "pass_loop rs passes s = Some s'"
  shows "session_inv rs s' \<and> (ss_fallback s' \<longrightarrow> \<not> ss_stop s')"
  using assms(2-)
proof (induction passes arbitrary: s)
  case (Cons pe passes)
  show ?case
  proof (cases "duration_ms rs > 0 \<and> pe_clock pe - rs_test_started rs \<ge> duration_ms rs")
    case True
    with Cons.prems show ?thesis by simp
  next
    case False
    with Cons.prems(2,4) obtain go s1 where one: "run_one_pass rs pe s = Some (go, s1)"
      and rest: "if go then pass_loop rs passes s1 = Some s' else s1 = s'"
      by (auto split: option.splits bool.splits)
    from one_pass_inv [OF assms(1) Cons.prems(1) one] have
      inv: "session_inv rs s1" "go \<longrightarrow> \<not> ss_stop s1" "ss_fallback s1 \<longrightarrow> ss_stop s1 = ss_stop s"
      using Cons.prems(3) by auto
    show ?thesis
    proof (cases go)
      case True
      from one have "\<not> ss_fallback s1" using True Cons.prems(3) by (cases rule: one_pass_cases) auto
      with Cons.IH [of s1] inv rest True show ?thesis by simp
    next
      case False
      with inv rest Cons.prems(2) show ?thesis by simp
    qed
  qed
qed simp

text \<open>The fallback is a worker of its own, alone on the arena.\<close>

lemma report_init_twice [simp]: "nxmt_report_init (nxmt_report_init r) = nxmt_report_init r"
  by (simp add: nxmt_report_init_def)

definition fallback_context :: "RunSetup \<Rightarrow> u64 \<Rightarrow> NxmtWorkerContext" where
  "fallback_context rs p =
     (let ctx = init_worker_context (rs_arena rs) (rs_mode rs) (rs_seed rs) 0 1 True
      in ctx\<lparr>ctx_config := (ctx_config ctx)\<lparr>c_pass := p\<rparr>\<rparr>)"

lemma fallback_context_fields [simp]:
  "ctx_arena (fallback_context rs p) = rs_arena rs"
  "c_mode (ctx_config (fallback_context rs p)) = rs_mode rs" "c_seed (ctx_config (fallback_context rs p)) = rs_seed rs"
  "c_worker_id (ctx_config (fallback_context rs p)) = 0" "c_worker_count (ctx_config (fallback_context rs p)) = 1"
  "\<not> inject_mismatch (ctx_config (fallback_context rs p))" "ctx_stats (fallback_context rs p) = zero_stats"
  by (simp_all add: fallback_context_def init_worker_context_def Let_def)

lemma run_fallback_entry:
  "run_fallback rs env m s =
     (if \<not> ss_fallback s then Some s
      else case nxmt_worker_entry (with_stop False env) m 0 0 (fallback_context rs (ss_pass_index s)) of
             None \<Rightarrow> None
           | Some (ctx, _) \<Rightarrow> Some (s\<lparr>ss_stop := False, ss_totals := merge_worker_contexts [ctx] (ss_totals s),
                                      ss_passes := ss_passes s + 1\<rparr>))"
  by (simp add: run_fallback_def nxmt_worker_entry_def fallback_context_def init_worker_context_def Let_def
      merge_worker_contexts_def split: option.split)

lemma fallback_valid: "good_setup rs \<Longrightarrow> valid_args (rs_arena rs) (ctx_config (fallback_context rs p))"
  by (simp add: good_setup_def valid_arena_def valid_args_def)

lemma fallback_inv:
  assumes good: "good_setup rs" and inv: "session_inv rs s" "ss_fallback s \<longrightarrow> \<not> ss_stop s"
    and run: "run_fallback rs env m s = Some s'"
  shows "session_inv rs s' \<and> ss_user_aborted s' = ss_user_aborted s"
proof (cases "ss_fallback s")
  case False
  with run inv show ?thesis by (simp add: run_fallback_def)
next
  case True
  let ?ctx = "fallback_context rs (ss_pass_index s)"
  from True run obtain ctx m' p' f' where
    entry: "nxmt_worker_entry (with_stop False env) m 0 0 ?ctx = Some (ctx, m', p', f')"
    and s': "s' = s\<lparr>ss_stop := False, ss_totals := merge_worker_contexts [ctx] (ss_totals s), ss_passes := ss_passes s + 1\<rparr>"
    by (auto simp: run_fallback_entry split: option.splits)
  have words: "unat (a_words (ctx_arena ?ctx)) < 2 ^ 61" using good by (simp add: good_setup_def valid_arena_def)
  with entry have "list_all2 ran_to [?ctx] [ctx]" by (simp add: ran_toI)
  moreover from inv obtain es0 where es0: "report_of (t_report (ss_totals s)) es0"
    "t_status (ss_totals s) = NXMT_STATUS_FAIL \<longleftrightarrow> es0 \<noteq> []"
    "\<forall>e \<in> set es0. run_error (rs_arena rs) (rs_mode rs) (rs_seed rs) e"
    unfolding session_inv_def by blast
  ultimately obtain es where
    es: "report_of (t_report (merge_worker_contexts [ctx] (ss_totals s))) (es0 @ es)"
      "NXMT_STATUS_FAIL \<in> ctx_status ` set [ctx] \<longleftrightarrow> es \<noteq> []"
      "\<forall>e \<in> set es. genuine_in_pass (rs_arena rs) (ctx_config ?ctx) e"
    using merge_verdict [of "[?ctx]" "[ctx]" "ss_totals s" es0] by auto
  from worker_entry_result [OF words entry] fallback_valid [OF good] with_stop_stoppable
  have each: "ctx_status ctx \<noteq> NXMT_STATUS_UNSUPPORTED" "ctx_status ctx \<noteq> NXMT_STATUS_ABORTED" by auto
  have "run_error (rs_arena rs) (rs_mode rs) (rs_seed rs) e" if "e \<in> set es" for e
    using es(3) that fallback_valid [OF good] unfolding run_error_def
    by (intro exI [of _ "ctx_config ?ctx"]) auto
  moreover have "t_status (ss_totals s') = NXMT_STATUS_FAIL \<longleftrightarrow> es0 @ es \<noteq> []"
    unfolding s' using es0(2) es(2) by (auto simp: merge_status_fail)
  moreover have "t_status (ss_totals s') \<notin> {NXMT_STATUS_UNSUPPORTED, NXMT_STATUS_ABORTED}"
    using merge_status_in [of "[ctx]" "ss_totals s"] each inv True unfolding s' session_inv_def by auto
  ultimately show ?thesis using es(1) es0(3) s' unfolding session_inv_def by (auto intro!: exI [of _ "es0 @ es"])
qed

lemma session_cases:
  assumes "run_session se arena mode dur = Some r"
  obtains s s' where "pass_loop (session_setup se arena mode dur) (se_passes se) session_start = Some s"
    "run_fallback (session_setup se arena mode dur) (se_fallback_env se) (se_fallback_mem se) s = Some s'"
    "rr_totals r = ss_totals s'" "rr_status r = final_status (ss_user_aborted s') (rr_gpu_errors r) (ss_totals s')"
    "rr_user_aborted r = ss_user_aborted s'" "rr_cpu_arena r = cpu_arena (session_carve se arena mode)"
    "rr_workers r = run_workers (session_carve se arena mode)" "rr_mode r = mode" "rr_seed r = se_seed se"
    "rr_fallback r = ss_fallback s'" "rr_passes r = ss_passes s'"
    "\<not> gpu_pump_active (session_carve se arena mode) \<longrightarrow> rr_gpu_errors r = 0"
  using assms by (fastforce simp: run_session_def Let_def split: option.splits if_splits)

lemma session_setup_fields [simp]:
  "rs_arena (session_setup se arena mode dur) = cpu_arena (session_carve se arena mode)"
  "rs_mode (session_setup se arena mode dur) = mode" "rs_seed (session_setup se arena mode dur) = se_seed se"
  "rs_workers (session_setup se arena mode dur) = run_workers (session_carve se arena mode)"
  "rs_duration_seconds (session_setup se arena mode dur) = dur"
  by (simp_all add: session_setup_def)

lemma session_verdict:
  assumes "valid_arena arena" and run: "run_session se arena mode dur = Some r"
  shows "\<exists>es. report_of (t_report (rr_totals r)) es
    \<and> (\<forall>e \<in> set es. run_error (rr_cpu_arena r) (rr_mode r) (rr_seed r) e)
    \<and> rr_status r = (if es \<noteq> [] \<or> rr_gpu_errors r > 0 then NXMT_STATUS_FAIL
         else if rr_user_aborted r \<and> t_status (rr_totals r) = NXMT_STATUS_ABORTED then NXMT_STATUS_ABORTED
         else NXMT_STATUS_PASS)"
  using run
proof (cases rule: session_cases)
  case (1 s s')
  let ?rs = "session_setup se arena mode dur"
  have good: "good_setup ?rs" by (rule session_setup_good [OF assms(1)])
  have "session_inv ?rs s" "ss_fallback s \<longrightarrow> \<not> ss_stop s"
    using pass_loop_inv [OF good session_inv_start _ _ 1(1)] by (simp_all add: session_start_def)
  with fallback_inv [OF good _ _ 1(2)] have "session_inv ?rs s'" by blast
  then obtain es where es: "report_of (t_report (ss_totals s')) es"
    "t_status (ss_totals s') = NXMT_STATUS_FAIL \<longleftrightarrow> es \<noteq> []" "t_status (ss_totals s') \<noteq> NXMT_STATUS_UNSUPPORTED"
    "\<forall>e \<in> set es. run_error (rs_arena ?rs) (rs_mode ?rs) (rs_seed ?rs) e"
    unfolding session_inv_def by blast
  have "es = [] \<Longrightarrow> error_count (t_report (ss_totals s')) = 0" using es(1) by (simp add: report_of_def)
  with es 1 show ?thesis
    by (intro exI [of _ es]) (cases "t_status (ss_totals s')"; auto simp: final_status_def Let_def word_gt_0)
qed

section \<open>That a run returns\<close>

lemma monitor_returns:
  "\<exists>tk \<in> set ticks. started \<le> tk_finished tk \<Longrightarrow>
    monitor_loop rs t p started ticks last_tick_ms tick_idx drawn \<noteq> None"
proof (induction ticks arbitrary: last_tick_ms tick_idx drawn)
  case (Cons tk ticks)
  show ?case
  proof (cases "started \<le> tk_finished tk")
    case False
    with Cons.prems have "monitor_loop rs t p started ticks l i d \<noteq> None" for l i d
      by (intro Cons.IH) auto
    then show ?thesis by auto
  qed simp
qed simp

lemma worker_thread_returns:
  "good_setup rs \<Longrightarrow> worker_thread rs pe stop p w \<noteq> None"
  using worker_entry_returns [of "pass_context rs p w" "with_stop stop (pe_env pe w)" "pe_mem pe w" 0 0]
  by (auto simp: worker_thread_def good_setup_def valid_arena_def)

lemma one_pass_returns:
  assumes good: "good_setup rs" and ticks: "\<exists>tk \<in> set (pe_ticks pe). rs_workers rs \<le> tk_finished tk"
  shows "run_one_pass rs pe s \<noteq> None"
proof -
  let ?started = "count_ok (pe_start pe) (rs_workers rs)"
  have "\<exists>tk \<in> set (pe_ticks pe). ?started \<le> tk_finished tk"
    using ticks count_ok_le [of "pe_start pe" "rs_workers rs"] le_trans by blast
  note monitor = monitor_returns [OF this, of rs "ss_totals s" "ss_pass_index s" "pe_last_tick pe" 1
      "ss_drawn s @ [first_progress rs (ss_totals s) (ss_pass_index s) (pe_first_clock pe)]"]
  have "run_threads (worker_thread rs pe stop p) ws \<noteq> None" for stop p ws
    using worker_thread_returns [OF good] by (intro run_threads_returns)
  note threads = this
  from monitor obtain stop aborted drawn where m: "monitor_loop rs (ss_totals s) (ss_pass_index s) ?started (pe_ticks pe)
      (pe_last_tick pe) 1 (ss_drawn s @ [first_progress rs (ss_totals s) (ss_pass_index s) (pe_first_clock pe)])
      = Some (stop, aborted, drawn)" by (cases rule: option.exhaust) auto
  from threads obtain ctxs where
    "run_threads (worker_thread rs pe (ss_stop s \<or> stop) (ss_pass_index s)) [0..<?started] = Some ctxs" by blast
  with m show ?thesis by (auto simp: run_one_pass_def Let_def)
qed

lemma pass_loop_returns:
  assumes good: "good_setup rs"
    and ticks: "\<forall>pe \<in> set passes. \<exists>tk \<in> set (pe_ticks pe). rs_workers rs \<le> tk_finished tk"
    and ends: "if duration_ms rs = 0 then passes \<noteq> []
      else \<exists>pe \<in> set passes. duration_ms rs \<le> pe_clock pe - rs_test_started rs"
  shows "pass_loop rs passes s \<noteq> None"
  using ticks ends
proof (induction passes arbitrary: s)
  case (Cons pe passes)
  from Cons.prems(1) one_pass_returns [OF good] obtain go s1 where one: "run_one_pass rs pe s = Some (go, s1)"
    by (metis list.set_intros(1) not_None_eq surj_pair)
  show ?case
  proof (cases "ss_stop s \<or> duration_ms rs > 0 \<and> pe_clock pe - rs_test_started rs \<ge> duration_ms rs \<or> \<not> go")
    case True
    with one show ?thesis by auto
  next
    case False
    moreover from this one have "duration_ms rs \<noteq> 0"
      by (auto elim!: one_pass_cases)
    ultimately have "\<exists>pe \<in> set passes. duration_ms rs \<le> pe_clock pe - rs_test_started rs"
      using Cons.prems(2) by (auto simp: word_gt_0)
    with Cons.IH [of s1] Cons.prems(1) \<open>duration_ms rs \<noteq> 0\<close> False one show ?thesis by auto
  qed
qed (simp split: if_splits)

lemma pump_thread_returns: "pump_stop env t \<Longrightarrow> pump_thread_entry env g \<noteq> None"
proof (cases "fst (pump_setup env (align_page (g_pump_buffer_bytes g)) g)")
  case True
  moreover assume "pump_stop env t"
  then obtain n where "pump_ends env n" using pump_ends_exists by blast
  ultimately show ?thesis using thread_ok by fastforce
next
  case False
  then show ?thesis by (simp add: pump_thread_entry_def Let_def split_beta)
qed

lemma run_fallback_returns: "good_setup rs \<Longrightarrow> run_fallback rs env m s \<noteq> None"
  using worker_entry_returns [of "fallback_context rs (ss_pass_index s)" "with_stop False env" m 0 0]
  by (auto simp: run_fallback_entry good_setup_def valid_arena_def)

lemma session_returns:
  assumes arena: "valid_arena arena"
    and ticks: "\<forall>pe \<in> set (se_passes se). \<exists>tk \<in> set (pe_ticks pe). 4 \<le> tk_finished tk"
    and ends: "if duration_seconds * 1000 = 0 then se_passes se \<noteq> []
      else \<exists>pe \<in> set (se_passes se). duration_seconds * 1000 \<le> pe_clock pe - se_test_started se"
    and pump: "pump_stop (se_pump se) n" and filler: "\<forall>k\<ge>l. filler_stop (se_filler se) k"
  shows "run_session se arena mode duration_seconds \<noteq> None"
proof -
  let ?rs = "session_setup se arena mode duration_seconds"
  have good: "good_setup ?rs" by (rule session_setup_good [OF arena])
  then have "\<forall>pe \<in> set (se_passes se). \<exists>tk \<in> set (pe_ticks pe). rs_workers ?rs \<le> tk_finished tk"
    using ticks by (metis atLeastAtMost_iff good_setup_def le_trans)
  moreover have "duration_ms ?rs = duration_seconds * 1000" "rs_test_started ?rs = se_test_started se"
    by (simp_all add: duration_ms_def session_setup_def)
  ultimately have "pass_loop ?rs (se_passes se) session_start \<noteq> None"
    using ends by (intro pass_loop_returns [OF good]) simp_all
  then obtain s where 1: "pass_loop ?rs (se_passes se) session_start = Some s" by blast
  obtain s' where 2: "run_fallback ?rs (se_fallback_env se) (se_fallback_mem se) s = Some s'"
    using run_fallback_returns [OF good] by blast
  have 3: "filler_entry (se_filler se) sink \<noteq> None" for sink
    using filler_loop_returns [OF filler, of "\<lparr>f_state = 0xc0ffeebaadf00d05, g_filler_sink = sink, f_loads = 0, f_reads = 0\<rparr>"]
    by (auto simp: filler_entry_def)
  obtain g where 4: "pump_thread_entry (se_pump se) (pump_globals (session_carve se arena mode)) = Some g"
    using pump_thread_returns [OF pump] by blast
  show ?thesis using 1 2 3 4 by (auto simp: run_session_def Let_def split: option.split)
qed

end
