(* ===== verification/Session_Healthy.thy ===== *)
theory Session_Healthy
  imports Session_Verdict
begin

text \<open>
  Runs of \<open>Session\<close> on memory that keeps what is written to it, and the part of the arena that a pass with
  fewer threads than slices has tested.
\<close>

section \<open>Healthy memory\<close>

lemma kept_with_stop [simp]: "kept (with_stop b env) p n = kept env p n"
  by (simp add: kept_def keeps_def with_stop_def)

lemma report_of_empty: "report_of r [] \<Longrightarrow> error_count r = 0"
  by (simp add: report_of_def)

lemma kept_entry:
  assumes valid: "valid_args (ctx_arena ctx) (ctx_config ctx)" and words: "unat (a_words (ctx_arena ctx)) < 2 ^ 61"
    and kept: "kept_slice env (ctx_arena ctx) (ctx_config ctx)" and inject: "\<not> inject_mismatch (ctx_config ctx)"
    and entry: "nxmt_worker_entry (with_stop b env) m progress fin ctx = Some (ctx', m', p', fin')"
  shows "report_of (ctx_report ctx') []
    \<and> (ctx_status ctx' = NXMT_STATUS_PASS
         \<and> bytes_verified (ctx_stats ctx')
           = of_nat (phases_of (ctx_config ctx)) * (slice_count (ctx_arena ctx) (ctx_config ctx) * 8)
       \<or> ctx_status ctx' = NXMT_STATUS_ABORTED \<and> b)"
proof -
  let ?s = "\<lparr>w_mem = m, w_progress = progress, w_polls = 0, w_pressure = 0,
    w_report = nxmt_report_init (ctx_report ctx), w_stats = ctx_stats ctx\<rparr>"
  have "kept_slice (with_stop b env) (ctx_arena ctx) (ctx_config ctx)" using kept by simp
  from kept_pass [OF this words valid inject, of ?s] obtain st s' where
    pass: "nxmt_runner_run_pass (with_stop b env) (Some (ctx_arena ctx)) (Some (ctx_config ctx)) True True ?s = Some (st, s')"
    and post: "w_report s' = nxmt_report_init (ctx_report ctx)"
      "st = NXMT_STATUS_PASS \<and> bytes_verified (w_stats s')
           = of_nat (phases_of (ctx_config ctx)) * (slice_count (ctx_arena ctx) (ctx_config ctx) * 8)
       \<or> st = NXMT_STATUS_ABORTED \<and> stoppable (with_stop b env) (ctx_config ctx)"
    by auto
  have "ctx' = ctx\<lparr>ctx_report := w_report s', ctx_stats := w_stats s', ctx_status := st\<rparr>"
    using entry pass by (simp add: nxmt_worker_entry_def)
  then show ?thesis using post with_stop_stoppable report_of_init by auto
qed

text \<open>The slices of the run are kept by every environment in it.\<close>

definition kept_run :: "RunSetup \<Rightarrow> PassEnv \<Rightarrow> bool" where
  "kept_run rs pe \<longleftrightarrow> (\<forall>w < rs_workers rs. kept_slice (pe_env pe w) (rs_arena rs) (ctx_config (pass_context rs 0 w)))"

definition clean_inv :: "Session \<Rightarrow> bool" where
  "clean_inv s \<longleftrightarrow> report_of (t_report (ss_totals s)) [] \<and> t_status (ss_totals s) \<in> {NXMT_STATUS_PASS, NXMT_STATUS_ABORTED}"

lemma kept_threads:
  assumes good: "good_setup rs" and kept: "kept_run rs pe"
    and threads: "list_all2 (\<lambda>w ctx. w < rs_workers rs \<and> worker_thread rs pe stop p w = Some ctx) ws ctxs"
  shows "list_all2 (\<lambda>w ctx. report_of (ctx_report ctx) []
    \<and> (ctx_status ctx = NXMT_STATUS_PASS
         \<and> bytes_verified (ctx_stats ctx) = of_nat (nxmt_phase_count_for_mode (rs_mode rs))
             * (nxmt_split_block_size (a_words (rs_arena rs)) (of_nat (rs_workers rs)) (of_nat w) * 8)
       \<or> ctx_status ctx = NXMT_STATUS_ABORTED \<and> stop)) ws ctxs"
  using threads
proof (rule list_all2_mono)
  fix w ctx
  assume w: "w < rs_workers rs \<and> worker_thread rs pe stop p w = Some ctx"
  then obtain m' p' f' where entry: "nxmt_worker_entry (with_stop stop (pe_env pe w)) (pe_mem pe w) 0 0 (pass_context rs p w)
      = Some (ctx, m', p', f')" by (auto simp: worker_thread_def)
  have words: "unat (a_words (ctx_arena (pass_context rs p w))) < 2 ^ 61" using good by (simp add: good_setup_def valid_arena_def)
  have "kept_slice (pe_env pe w) (ctx_arena (pass_context rs p w)) (ctx_config (pass_context rs p w))"
    using kept w by (simp add: kept_run_def)
  from kept_entry [OF pass_context_valid [OF good] words this _ entry] w
  show "report_of (ctx_report ctx) []
    \<and> (ctx_status ctx = NXMT_STATUS_PASS
         \<and> bytes_verified (ctx_stats ctx) = of_nat (nxmt_phase_count_for_mode (rs_mode rs))
             * (nxmt_split_block_size (a_words (rs_arena rs)) (of_nat (rs_workers rs)) (of_nat w) * 8)
       \<or> ctx_status ctx = NXMT_STATUS_ABORTED \<and> stop)"
    by simp
qed

lemma clean_merge:
  assumes "clean_inv s" and "\<forall>ctx \<in> set ctxs. report_of (ctx_report ctx) [] \<and> ctx_status ctx \<in> {NXMT_STATUS_PASS, NXMT_STATUS_ABORTED}"
    and "ss_totals s' = merge_worker_contexts ctxs (ss_totals s)"
  shows "clean_inv s'"
proof -
  have "list_all2 (\<lambda>r es. report_of r es \<and> length es < 2 ^ 64) (map ctx_report ctxs) (map (\<lambda>_. []) ctxs)"
    using assms(2) by (simp add: list_all2_conv_all_nth)
  from rep.repr_merge_all [OF _ this, of "t_report (ss_totals s)" "[]"] assms(1)
  have "report_of (t_report (ss_totals s')) []"
    by (simp add: clean_inv_def assms(3) merge_report map_replicate_const)
  moreover have "t_status (ss_totals s') \<in> {NXMT_STATUS_PASS, NXMT_STATUS_ABORTED}"
    using merge_status_in [of ctxs "ss_totals s"] assms by (auto simp: clean_inv_def)
  ultimately show ?thesis by (simp add: clean_inv_def)
qed

lemma clean_pass:
  assumes good: "good_setup rs" and kept: "kept_run rs pe" and inv: "clean_inv s"
    and run: "run_one_pass rs pe s = Some (go, s')"
  shows "clean_inv s'"
  using run
proof (cases rule: one_pass_cases)
  case fallback
  with inv show ?thesis by (simp add: clean_inv_def)
next
  case (ran started stop aborted drawn ctxs)
  from kept_threads [OF good kept ran(4)]
  have "\<forall>ctx \<in> set ctxs. report_of (ctx_report ctx) [] \<and> ctx_status ctx \<in> {NXMT_STATUS_PASS, NXMT_STATUS_ABORTED}"
    by (auto simp: list_all2_conv_all_nth in_set_conv_nth)
  with inv show ?thesis by (rule clean_merge) (rule ran(5))
qed

lemma clean_loop:
  assumes good: "good_setup rs"
  shows "\<forall>pe \<in> set passes. kept_run rs pe \<Longrightarrow> clean_inv s \<Longrightarrow> pass_loop rs passes s = Some s' \<Longrightarrow> clean_inv s'"
proof (induction passes arbitrary: s)
  case (Cons pe passes)
  show ?case
  proof (cases "ss_stop s \<or> duration_ms rs > 0 \<and> pe_clock pe - rs_test_started rs \<ge> duration_ms rs")
    case True
    with Cons.prems show ?thesis by (auto split: if_splits)
  next
    case False
    with Cons.prems(3) obtain go s1 where one: "run_one_pass rs pe s = Some (go, s1)"
      and rest: "if go then pass_loop rs passes s1 = Some s' else s1 = s'"
      by (auto split: option.splits bool.splits)
    have "clean_inv s1" using clean_pass [OF good _ Cons.prems(2) one] Cons.prems(1) by simp
    with Cons.IH [of s1] rest Cons.prems(1) show ?thesis by (cases go) simp_all
  qed
qed simp

lemma clean_fallback:
  assumes good: "good_setup rs" and inv: "clean_inv s"
    and kept: "kept_slice env (rs_arena rs) (ctx_config (fallback_context rs 0))"
    and run: "run_fallback rs env m s = Some s'"
  shows "clean_inv s'"
proof (cases "ss_fallback s")
  case False
  with run inv show ?thesis by (simp add: run_fallback_def)
next
  case True
  let ?ctx = "fallback_context rs (ss_pass_index s)"
  from True run obtain ctx m' p' f' where
    entry: "nxmt_worker_entry (with_stop False env) m 0 0 ?ctx = Some (ctx, m', p', f')"
    and s': "s' = s\<lparr>ss_stop := False, ss_totals := merge_worker_contexts [ctx] (ss_totals s), ss_passes := ss_passes s + 1\<rparr>"
    by (auto simp: run_fallback_entry split: option.splits)
  have "unat (a_words (ctx_arena ?ctx)) < 2 ^ 61" using good by (simp add: good_setup_def valid_arena_def)
  moreover have "kept_slice env (ctx_arena ?ctx) (ctx_config ?ctx)" using kept by simp
  ultimately have "report_of (ctx_report ctx) [] \<and> ctx_status ctx \<in> {NXMT_STATUS_PASS, NXMT_STATUS_ABORTED}"
    using kept_entry [OF _ _ _ _ entry] fallback_valid [OF good] by auto
  then show ?thesis by (intro clean_merge [OF inv, of "[ctx]"]) (simp_all add: s')
qed

lemma session_healthy:
  assumes arena: "valid_arena arena" and run: "run_session se arena mode dur = Some r"
    and kept: "\<forall>pe \<in> set (se_passes se). kept_run (session_setup se arena mode dur) pe"
    and fallback: "kept_slice (se_fallback_env se) (cpu_arena (session_carve se arena mode))
      (ctx_config (fallback_context (session_setup se arena mode dur) 0))"
  shows "report_of (t_report (rr_totals r)) []
    \<and> (rr_gpu_errors r = 0 \<longrightarrow> rr_status r = (if rr_user_aborted r \<and> t_status (rr_totals r) = NXMT_STATUS_ABORTED
         then NXMT_STATUS_ABORTED else NXMT_STATUS_PASS))"
  using run
proof (cases rule: session_cases)
  case (1 s s')
  let ?rs = "session_setup se arena mode dur"
  have good: "good_setup ?rs" by (rule session_setup_good [OF arena])
  have "clean_inv session_start" using report_of_init by (simp add: clean_inv_def session_start_def)
  from clean_loop [OF good kept this 1(1)] have "clean_inv s" .
  from clean_fallback [OF good this _ 1(2)] fallback have "clean_inv s'" by simp
  then show ?thesis using 1 report_of_empty
    by (auto simp: clean_inv_def final_status_def Let_def)
qed

section \<open>Which part of the arena a pass has tested\<close>

lemma count_ok_eq: "(\<forall>w<k. rc w = 0) \<Longrightarrow> k \<le> n \<Longrightarrow> k = n \<or> rc k \<noteq> 0 \<Longrightarrow> count_ok rc n = k"
proof -
  assume a: "\<forall>w<k. rc w = 0" "k \<le> n" "k = n \<or> rc k \<noteq> 0"
  have "[0..<n] = [0..<k] @ [k..<n]" using a(2) upt_add_eq_append [of 0 k "n - k"] by simp
  moreover have "takeWhile (\<lambda>w. rc w = 0) [k..<n] = []"
    using a(2,3) by (cases "k = n") (simp_all add: upt_conv_Cons)
  ultimately show ?thesis using a(1) by (simp add: count_ok_def takeWhile_append)
qed

lemma start_Suc:
  assumes "0 < (n :: u32)" and "w < unat n"
  shows "nxmt_split_block_start t n (of_nat (Suc w)) = nxmt_split_block_start t n (of_nat w) + nxmt_split_block_size t n (of_nat w)"
proof -
  have "unat (nxmt_split_block_start t n (of_nat (Suc w)))
      = unat (nxmt_split_block_start t n (of_nat w)) + unat (nxmt_split_block_size t n (of_nat w))"
    using split.lo_at_Suc [OF assms(2), of t] by (simp only: split.lo_at_def)
  moreover from this have "unat (nxmt_split_block_start t n (of_nat w) + nxmt_split_block_size t n (of_nat w))
      = unat (nxmt_split_block_start t n (of_nat w)) + unat (nxmt_split_block_size t n (of_nat w))"
    by (intro unat_add_small) (metis unat64_less)
  ultimately show ?thesis by (simp only: word_eq_iff_unat)
qed

lemma sizes_before:
  assumes "0 < (n :: u32)" and "k \<le> unat n"
  shows "sum_list (map (\<lambda>w. c * (nxmt_split_block_size t n (of_nat w) * 8)) [0..<k]) = c * (nxmt_split_block_start t n (of_nat k) * 8)"
  using assms(2)
proof (induction k)
  case 0
  then show ?case using split.start_0 [OF assms(1)] by simp
next
  case (Suc k)
  then show ?case using start_Suc [OF assms(1), of k t] by (simp add: algebra_simps)
qed

lemma monitor_waits:
  assumes "duration_ms rs = 0" and "\<forall>tk \<in> set ticks. tk_main_loop tk \<and> \<not> tk_plus tk"
    and "monitor_loop rs t p started ticks last_tick_ms tick_idx drawn = Some (stop, aborted, drawn')"
  shows "\<not> stop \<and> \<not> aborted"
  using assms(2,3)
proof (induction ticks arbitrary: last_tick_ms tick_idx drawn)
  case (Cons tk ticks)
  from Cons.prems(1) have tk: "tk_main_loop tk" "\<not> tk_plus tk" by simp_all
  show ?case
  proof (cases "tk_finished tk < started")
    case False
    with Cons.prems(2) show ?thesis by simp
  next
    case True
    show ?thesis
    proof (cases "tk_now tk - last_tick_ms \<ge> 200")
      case True': True
      with Cons.prems(2) tk True assms(1) have "monitor_loop rs t p started ticks (tk_now tk) (tick_idx + 1)
          (drawn @ [tick_progress rs t p started tick_idx tk]) = Some (stop, aborted, drawn')" by simp
      with Cons.IH Cons.prems(1) show ?thesis by simp
    next
      case False
      with Cons.prems(2) tk True assms(1) have "monitor_loop rs t p started ticks last_tick_ms tick_idx drawn
          = Some (stop, aborted, drawn')" by simp
      with Cons.IH Cons.prems(1) show ?thesis by simp
    qed
  qed
qed simp

text \<open>Without a duration the loop runs one pass.\<close>

lemma pass_loop_single:
  assumes "\<not> ss_stop s" and "duration_ms rs = 0" and "pass_loop rs (pe # passes) s = Some s'"
  shows "\<exists>go. run_one_pass rs pe s = Some (go, s')"
proof (cases "run_one_pass rs pe s")
  case None
  with assms show ?thesis by simp
next
  case (Some r)
  obtain go s1 where r: "r = (go, s1)" by fastforce
  from Some r have "\<not> go" using assms(2) by (auto elim!: one_pass_cases)
  with Some r assms show ?thesis by auto
qed

text \<open>What the merge makes of clean passes over the first slices.\<close>

lemma clean_merge_totals:
  fixes n k :: nat and words :: u64
  defines "totals \<equiv> \<lambda>ctxs. merge_worker_contexts ctxs (ss_totals session_start)"
  assumes each: "list_all2 (\<lambda>w ctx. report_of (ctx_report ctx) [] \<and> ctx_status ctx = NXMT_STATUS_PASS
      \<and> bytes_verified (ctx_stats ctx) = 3 * (nxmt_split_block_size words (of_nat n) (of_nat w) * 8)) [0..<k] ctxs"
    and n: "0 < n" "k \<le> n" "n \<le> 4"
  shows "bytes_verified (t_stats (totals ctxs)) = 24 * nxmt_split_block_start words (of_nat n) (of_nat k)"
    and "t_completed (totals ctxs) = of_nat k" and "t_status (totals ctxs) = NXMT_STATUS_PASS"
proof -
  have bytes: "map (\<lambda>c. bytes_verified (ctx_stats c)) ctxs
      = map (\<lambda>w. 3 * (nxmt_split_block_size words (of_nat n) (of_nat w) * 8)) [0..<k]"
    using each by (intro nth_equalityI) (auto simp: list_all2_conv_all_nth)
  have n32: "0 < (of_nat n :: u32)" "k \<le> unat (of_nat n :: u32)"
    using n by (simp_all add: word_less_nat_alt of_nat_small32)
  have "bytes_verified (t_stats (totals ctxs)) = sum_list (map (\<lambda>c. bytes_verified (ctx_stats c)) ctxs)"
    by (simp add: totals_def merge_stats session_start_def zero_stats_def)
  then show "bytes_verified (t_stats (totals ctxs)) = 24 * nxmt_split_block_start words (of_nat n) (of_nat k)"
    unfolding bytes sizes_before [OF n32, of 3 words] by simp
  have all: "filter (\<lambda>c. ctx_status c \<in> {NXMT_STATUS_PASS, NXMT_STATUS_FAIL}) ctxs = ctxs" "length ctxs = k"
    using each by (auto simp: list_all2_conv_all_nth in_set_conv_nth intro!: filter_True)
  show "t_completed (totals ctxs) = of_nat k"
    unfolding totals_def merge_completed all by (simp add: session_start_def)
  have "t_status (totals ctxs) \<in> insert NXMT_STATUS_PASS (ctx_status ` set ctxs)"
    using merge_status_in [of ctxs "ss_totals session_start"] by (simp add: totals_def session_start_def)
  moreover have "ctx_status ` set ctxs \<subseteq> {NXMT_STATUS_PASS}"
    using each by (auto simp: list_all2_conv_all_nth in_set_conv_nth)
  ultimately show "t_status (totals ctxs) = NXMT_STATUS_PASS" by blast
qed

end
