(* ===== verification/Session_Main.thy ===== *)
theory Session_Main
  imports Session_Healthy
begin

text \<open>
  The loop over menu and runs of \<^verbatim>\<open>main\<close>, a run to look at, and the properties of whole runs.
\<close>

section \<open>The whole program\<close>

lemma main_arena:
  assumes fits: "unat (envGetHeapOverrideAddr libnx) + unat (envGetHeapOverrideSize libnx) < 2 ^ 64"
    and heap: "libnx_initheap libnx = Inr h" and usable: "has_heap_override (nxmt_platform_get_memory libnx h)"
  shows "valid_arena (nxmt_arena_from_range (override_heap_addr (nxmt_platform_get_memory libnx h))
      (override_heap_size (nxmt_platform_get_memory libnx h)))"
proof -
  let ?b = "g_test_arena_addr h" and ?s = "g_test_arena_size h"
  have present: "envHasHeapOverride libnx" and nz: "?b \<noteq> 0" "?s \<noteq> 0"
    using usable by (auto simp: nxmt_platform_get_memory_def Let_def)
  note arena = mp [OF conjunct2 [OF startup_arena [OF fits present heap]] usable]
  from startup_pages [OF fits present heap] have dvd: "4096 dvd unat ?b" "4096 dvd unat ?s" by simp_all
  from nz(2) have "0 < unat ?s" by (simp add: unat_gt_0)
  with dvd(2) have "4096 \<le> unat ?s" by (rule dvd_imp_le)
  then have "unat (?s div 8) \<noteq> 0" by (simp add: unat_div)
  moreover have "unat (?s div 8) < 2 ^ 61" using unat64_less [of ?s] by (simp add: unat_div)
  moreover have "8 dvd unat ?b" by (rule dvd_trans [OF _ dvd(1)]) simp
  ultimately show ?thesis using nz by (auto simp: arena valid_arena_def aligned8_iff)
qed

lemma main_loop_results:
  assumes arena: "valid_arena arena"
  shows "main_loop bench arena runs frames = Some rs \<Longrightarrow> r \<in> set rs \<Longrightarrow>
    \<exists>(m, se) \<in> set runs. \<exists>mode dur. run_session se arena mode dur = Some r"
proof (induction runs arbitrary: frames rs)
  case (Cons run runs)
  obtain m se where run: "run = (m, se)" by fastforce
  show ?case
  proof (cases "mode_select_loop (\<lambda>m. snd (run_gpu_bench_screen bench arena m)) arena NXMT_MODE_QUICK 0 m frames")
    case None
    with Cons.prems run show ?thesis by simp
  next
    case (Some sel)
    show ?thesis
    proof (cases "sel_exit_app sel \<or> \<not> sel_mode_selected sel")
      case True
      with Some Cons.prems run show ?thesis by auto
    next
      case False
      with Some Cons.prems(1) run obtain r' exit frames' where
        r': "run_session se arena (sel_mode sel) (sel_duration_seconds sel) = Some r'"
        and wait: "result_wait (sel_frames sel) = Some (exit, frames')"
        and rest: "if exit then rs = [r'] else map_option ((#) r') (main_loop bench arena runs frames') = Some rs"
        by (auto split: option.splits if_splits)
      show ?thesis
      proof (cases "r = r'")
        case True
        with r' run show ?thesis by auto
      next
        case False
        with rest Cons.prems(2) obtain rs' where "main_loop bench arena runs frames' = Some rs'" "r \<in> set rs'"
          by (auto split: if_splits)
        from Cons.IH [OF this] show ?thesis by auto
      qed
    qed
  qed
qed simp

section \<open>A run to look at\<close>

text \<open>A quick check on a small arena with three cores, of whose threads the first \<open>k\<close> start.\<close>

definition still_env :: Env where
  "still_env = \<lparr>env_neon = True, env_stop = (\<lambda>_. False), env_drift = (\<lambda>_ m. m)\<rparr>"

definition demo_pass :: "nat \<Rightarrow> PassEnv" where
  "demo_pass k = \<lparr>pe_clock = 0, pe_create = (\<lambda>_. 0), pe_start = (\<lambda>w. if w < k then 0 else 1), pe_first_clock = 0,
     pe_last_tick = 0, pe_ticks = [\<lparr>tk_finished = 4, tk_main_loop = True, tk_plus = False, tk_clock = 0, tk_now = 0,
       tk_progress = [], tk_gpu_bytes = 0\<rparr>],
     pe_env = (\<lambda>_. still_env), pe_mem = (\<lambda>_ _. 0)\<rparr>"

definition demo_session :: "nat \<Rightarrow> SessionEnv" where
  "demo_session k = \<lparr>se_core_mask = 7, se_seed = 7, se_pump = demo_pump, se_pump_globals = demo_globals,
     se_filler = \<lparr>filler_stop = (\<lambda>_. True), filler_ticks = (\<lambda>_. 0), filler_threadCreate = 0, filler_threadStart = 0\<rparr>,
     se_filler_sink = 0, se_test_started = 0, se_passes = [demo_pass k], se_fallback_env = still_env,
     se_fallback_mem = (\<lambda>_. 0), se_end_clock = 0\<rparr>"

definition small_arena :: NxmtArena where
  "small_arena = \<lparr>a_base = 0x10000, a_size = 4096, a_words = 512\<rparr>"

lemma small_arena_valid: "valid_arena small_arena"
  by (simp add: valid_arena_def small_arena_def aligned8_def)

lemma demo_session_ends:
  "\<forall>pe \<in> set (se_passes (demo_session k)). \<exists>tk \<in> set (pe_ticks pe). 4 \<le> tk_finished tk"
  "se_passes (demo_session k) \<noteq> []" "pump_stop (se_pump (demo_session k)) 3"
  "\<forall>j\<ge>0. filler_stop (se_filler (demo_session k)) j"
  by (simp_all add: demo_session_def demo_pass_def demo_pump_def)

lemma demo_session_returns:
  assumes "valid_arena arena"
  shows "\<exists>r. run_session (demo_session k) arena mode 0 = Some r"
  using session_returns [OF assms demo_session_ends(1) [of k] _ demo_session_ends(3,4), of 0 mode] demo_session_ends(2) [of k] by auto

lemma still_kept: "kept still_env p n"
  by (simp add: kept_def keeps_def still_env_def)

lemma demo_kept: "kept_run rs (demo_pass k)"
  by (simp add: kept_run_def demo_pass_def still_kept)

lemma demo_cores: "worker_cpu_map 7 = [2, 0, 1]"
  by (simp add: worker_cpu_map_def cpu_map_eq bit_simps)

section \<open>Properties\<close>





text \<open>
  Property C5.  Healthy memory is never blamed: when every word of each worker's slice keeps what is
  written to it (the other workers, the pump and the hardware may do anything to the rest of the memory, the time may
  run out, the user may stop, threads may fail to start), a run records no error, and without a
  bad GPU batch it ends with \<open>PASS\<close>, or with \<open>ABORTED\<close> after the user stopped it.
\<close>

theorem healthy_session:
  assumes arena: "valid_arena arena" and run: "run_session se arena mode dur = Some r"
    and kept: "\<forall>pe \<in> set (se_passes se). kept_run (session_setup se arena mode dur) pe"
    and fallback: "kept_slice (se_fallback_env se) (cpu_arena (session_carve se arena mode))
      (ctx_config (fallback_context (session_setup se arena mode dur) 0))"
  shows "error_count (t_report (rr_totals r)) = 0 \<and> \<not> has_first_error (t_report (rr_totals r))
    \<and> (rr_gpu_errors r = 0 \<longrightarrow> rr_status r \<in> {NXMT_STATUS_PASS, NXMT_STATUS_ABORTED}
         \<and> (rr_status r = NXMT_STATUS_ABORTED \<longrightarrow> rr_user_aborted r))"
  using session_healthy [OF assms] by (auto simp: report_of_def)

theorem healthy_session_witness:
  "\<exists>r. run_session (demo_session 1) small_arena NXMT_MODE_QUICK 0 = Some r \<and> error_count (t_report (rr_totals r)) = 0"
proof -
  obtain r where r: "run_session (demo_session 1) small_arena NXMT_MODE_QUICK 0 = Some r"
    using demo_session_returns [OF small_arena_valid] by blast
  have "\<forall>pe \<in> set (se_passes (demo_session 1)). kept_run (session_setup (demo_session 1) small_arena NXMT_MODE_QUICK 0) pe"
    by (simp add: demo_session_def demo_kept)
  moreover have "kept (se_fallback_env (demo_session 1)) p n" for p n
    by (simp add: demo_session_def still_kept)
  ultimately show ?thesis using healthy_session [OF small_arena_valid r] r by blast
qed

text \<open>
  Property C9.  What a quick check has really tested: when the threads of all workers are created but only
  the first \<open>k\<close> of them start, the run is not repeated by a single worker and still ends with \<open>PASS\<close> on healthy memory; the
  bytes verified are those of the words before the slice of worker \<open>k\<close>, in each of the three phases.
  Only when every thread has started is that the whole arena.
\<close>

theorem quick_run_coverage:
  assumes arena: "valid_arena arena" and run: "run_session se arena NXMT_MODE_QUICK 0 = Some r"
    and passes: "se_passes se = pe # later"
    and n: "n = length (worker_cpu_map (se_core_mask se))"
    and created: "\<forall>w<n. pe_create pe w = 0"
    and started: "0 < k" "k \<le> n" "\<forall>w<k. pe_start pe w = 0" "k = n \<or> pe_start pe k \<noteq> 0"
    and ticks: "\<forall>tk \<in> set (pe_ticks pe). tk_main_loop tk \<and> \<not> tk_plus tk"
    and kept: "kept_run (session_setup se arena NXMT_MODE_QUICK 0) pe"
  shows "rr_status r = NXMT_STATUS_PASS \<and> rr_passes r = 1 \<and> \<not> rr_fallback r
    \<and> bytes_verified (t_stats (rr_totals r)) = 24 * nxmt_split_block_start (a_words arena) (of_nat n) (of_nat k)
    \<and> t_completed (rr_totals r) = of_nat k
    \<and> (k = n \<longrightarrow> bytes_verified (t_stats (rr_totals r)) = 24 * a_words arena)"
  using run
proof (cases rule: session_cases)
  case (1 s s')
  let ?rs = "session_setup se arena NXMT_MODE_QUICK 0"
  have good: "good_setup ?rs" by (rule session_setup_good [OF arena])
  have carve: "cpu_arena (session_carve se arena NXMT_MODE_QUICK) = arena"
    "run_workers (session_carve se arena NXMT_MODE_QUICK) = n" "\<not> gpu_pump_active (session_carve se arena NXMT_MODE_QUICK)"
    using n by (simp_all add: session_carve_def carve_gpu_region_def Let_def loads_bus_def)
  have counts: "count_ok (pe_create pe) n = n" "count_ok (pe_start pe) n = k"
    using created started by (auto intro!: count_ok_eq)
  have dur: "duration_ms ?rs = 0" by (simp add: duration_ms_def)
  have "\<not> ss_stop session_start" by (simp add: session_start_def)
  from pass_loop_single [OF this dur 1(1) [unfolded passes]] obtain go where
    one: "run_one_pass ?rs pe session_start = Some (go, s)" by blast
  from one show ?thesis
  proof (cases rule: one_pass_cases)
    case fallback
    with counts carve started(1) show ?thesis by simp
  next
    case (ran st stop aborted drawn ctxs)
    have st: "st = k" using ran(1) counts carve by simp
    from monitor_waits [OF dur ticks ran(3)] have quiet: "\<not> stop" "\<not> aborted" by simp_all
    have s: "\<not> ss_fallback s" "\<not> ss_stop s" "\<not> ss_user_aborted s" "ss_passes s = 1"
      using ran(6,7,8,10) quiet by (simp_all add: session_start_def)
    then have s': "s' = s" using 1(2) by (simp add: run_fallback_def)
    have stop: "(ss_stop session_start \<or> stop) = False" using quiet by (simp add: session_start_def)
    from kept_threads [OF good kept ran(4), unfolded st stop]
    have "list_all2 (\<lambda>w ctx. report_of (ctx_report ctx) [] \<and> ctx_status ctx = NXMT_STATUS_PASS
        \<and> bytes_verified (ctx_stats ctx)
          = 3 * (nxmt_split_block_size (a_words arena) (of_nat n) (of_nat w) * 8)) [0..<k] ctxs"
      by (rule list_all2_mono) (simp add: carve nxmt_phase_count_for_mode_def quick_phases_def)
    moreover have n4: "0 < n" "n \<le> 4" using started cpu_map_facts(3) [of "se_core_mask se"] n by auto
    ultimately have merged: "bytes_verified (t_stats (ss_totals s))
        = 24 * nxmt_split_block_start (a_words arena) (of_nat n) (of_nat k)"
      "t_completed (ss_totals s) = of_nat k" "t_status (ss_totals s) = NXMT_STATUS_PASS"
      unfolding ran(5) using started(2) by (auto intro!: clean_merge_totals)
    have "nxmt_split_block_start (a_words arena) (of_nat n) (of_nat n) = a_words arena"
      using split.start_all [of "of_nat n"] n4 by (simp add: word_less_nat_alt of_nat_small32)
    with merged 1 carve(3) s s' show ?thesis by (auto simp: final_status_def Let_def)
  qed
qed

theorem quick_run_coverage_witness:
  "\<exists>r. run_session (demo_session 1) small_arena NXMT_MODE_QUICK 0 = Some r \<and> rr_status r = NXMT_STATUS_PASS
    \<and> bytes_verified (t_stats (rr_totals r)) = 24 * 171 \<and> a_words small_arena = 512"
proof -
  obtain r where r: "run_session (demo_session 1) small_arena NXMT_MODE_QUICK 0 = Some r"
    using demo_session_returns [OF small_arena_valid] by blast
  have h: "se_passes (demo_session 1) = demo_pass 1 # []" "3 = length (worker_cpu_map (se_core_mask (demo_session 1)))"
    "\<forall>w<3. pe_create (demo_pass 1) w = 0" "0 < (1 :: nat)" "1 \<le> (3 :: nat)"
    "\<forall>w<1. pe_start (demo_pass 1) w = 0" "1 = (3 :: nat) \<or> pe_start (demo_pass 1) 1 \<noteq> 0"
    "\<forall>tk \<in> set (pe_ticks (demo_pass 1)). tk_main_loop tk \<and> \<not> tk_plus tk"
    by (simp_all add: demo_session_def demo_cores demo_pass_def)
  note cover = quick_run_coverage [OF small_arena_valid r h demo_kept]
  then have "rr_status r = NXMT_STATUS_PASS"
    "bytes_verified (t_stats (rr_totals r)) = 24 * nxmt_split_block_start (a_words small_arena) (of_nat 3) (of_nat 1)"
    by blast+
  moreover have "nxmt_split_block_start (a_words small_arena) (of_nat 3) (of_nat 1) = 171"
    by (simp add: small_arena_def nxmt_split_block_start_def Let_def word_le_nat_alt word_less_nat_alt word_eq_iff_unat unat_div unat_mod)
  ultimately show ?thesis using r by (simp add: small_arena_def)
qed

end
