(* ===== verification/Concurrent.thy ===== *)
theory Concurrent
  imports Session_Main
begin

text \<open>
  The workers of one pass as threads that share one memory.  \<open>Session\<close> runs every worker by itself in an
  environment; here the threads of \<^verbatim>\<open>nxmt_worker_entry\<close> advance one at a time, in any order, on the same
  memory and stop flag, and every such execution is shown to be one of those that \<open>Session\<close> describes.
  \<open>worker_step\<close> is \<^verbatim>\<open>nxmt_runner_run_pass\<close> cut at its polls; a step from one poll to the next is atomic.
\<close>

unbundle bit_operations_syntax

section \<open>One worker, step by step\<close>

text \<open>
  Where a worker is: before a phase, in the write or the verify loop with the number of words processed, or
  returned.
\<close>

datatype Pc = Before_phase nat | In_write nat u64 | In_verify nat u64 | Finished NxmtStatus

definition loop_chunk :: "u64 \<Rightarrow> u64 \<Rightarrow> u64" where
  "loop_chunk count processed = (if processed + check_chunk > count then count - processed else check_chunk)"

definition end_write :: "u64 \<Rightarrow> u64 \<Rightarrow> NxmtRunConfig \<Rightarrow> RunState \<Rightarrow> RunState" where
  "end_write write_base count config s =
     (let s = (if inject_mismatch config \<and> count > 0
               then s\<lparr>w_mem := store64 (w_mem s) write_base (load64 (w_mem s) write_base XOR 0x100)\<rparr> else s)
      in s\<lparr>w_stats := (w_stats s)\<lparr>bytes_written := bytes_written (w_stats s) + count * NXMT_WORD_BYTES\<rparr>\<rparr>)"

definition end_verify :: "u64 \<Rightarrow> RunState \<Rightarrow> RunState" where
  "end_verify count s =
     s\<lparr>w_stats := (w_stats s)\<lparr>bytes_verified := bytes_verified (w_stats s) + count * NXMT_WORD_BYTES\<rparr>\<rparr>"

definition abort_pass :: "u64 \<Rightarrow> RunState \<Rightarrow> Pc \<times> RunState" where
  "abort_pass initial_errors s = (Finished (nxmt_runner_abort_status (w_report s) initial_errors), set_checksum s)"

definition worker_step :: "Env \<Rightarrow> NxmtArena \<Rightarrow> NxmtRunConfig \<Rightarrow> u64 \<Rightarrow> Pc \<Rightarrow> RunState \<Rightarrow> Pc \<times> RunState" where
  "worker_step env arena config initial_errors pc s =
     (let start = slice_start arena config;
          count = slice_count arena config;
          base = a_base arena + start * NXMT_WORD_BYTES
      in case pc of
           Before_phase i \<Rightarrow>
             if i < phases_of config
             then let (stop, s) = nxmt_runner_stop_requested env config s
                  in if stop then abort_pass initial_errors s
                     else (In_write i 0, s\<lparr>w_stats := (w_stats s)\<lparr>current_phase := nth_phase config i\<rparr>\<rparr>)
             else let s = set_checksum s
                  in (Finished (if error_count (w_report s) \<noteq> initial_errors then NXMT_STATUS_FAIL else NXMT_STATUS_PASS), s)
         | In_write i processed \<Rightarrow>
             if processed < count
             then let (stop, s) = nxmt_runner_stop_requested env config s
                  in if stop then abort_pass initial_errors s
                     else let chunk = loop_chunk count processed
                          in (In_write i (processed + chunk),
                              write_body env base start (nth_phase config i) config processed chunk s)
             else (In_verify i 0, end_write base count config s)
         | In_verify i processed \<Rightarrow>
             if processed < count
             then let (stop, s) = nxmt_runner_stop_requested env config s
                  in if stop then abort_pass initial_errors s
                     else let chunk = loop_chunk count processed
                          in (In_verify i (processed + chunk),
                              verify_body env base start (nth_phase config i) config processed chunk s)
             else (Before_phase (i + 1), end_verify count s)
         | Finished st \<Rightarrow> (Finished st, s))"

text \<open>What is left of the pass at a place in it, as the functions of \<open>Runner\<close> compute it.\<close>

definition rest_of_phase ::
    "Env \<Rightarrow> NxmtArena \<Rightarrow> NxmtRunConfig \<Rightarrow> u64 \<Rightarrow> nat \<Rightarrow> (bool \<times> RunState) option \<Rightarrow> (NxmtStatus \<times> RunState) option" where
  "rest_of_phase env arena config initial_errors i r =
     (case r of
        None \<Rightarrow> None
      | Some (False, s) \<Rightarrow> Some (nxmt_runner_abort_status (w_report s) initial_errors, set_checksum s)
      | Some (True, s) \<Rightarrow> run_phases env (a_base arena) (slice_start arena config) (slice_count arena config) config
            initial_errors [Suc i..<phases_of config] s)"

definition rest_of_verify ::
    "Env \<Rightarrow> NxmtArena \<Rightarrow> NxmtRunConfig \<Rightarrow> nat \<Rightarrow> u64 \<Rightarrow> RunState \<Rightarrow> (bool \<times> RunState) option" where
  "rest_of_verify env arena config i processed s =
     (case chunk_loop (nxmt_runner_stop_requested env config) (slice_count arena config)
         (verify_body env (a_base arena + slice_start arena config * NXMT_WORD_BYTES) (slice_start arena config)
            (nth_phase config i) config) processed s of
        None \<Rightarrow> None
      | Some (False, s) \<Rightarrow> Some (False, s)
      | Some (True, s) \<Rightarrow> Some (True, end_verify (slice_count arena config) s))"

definition rest_of_write ::
    "Env \<Rightarrow> NxmtArena \<Rightarrow> NxmtRunConfig \<Rightarrow> nat \<Rightarrow> u64 \<Rightarrow> RunState \<Rightarrow> (bool \<times> RunState) option" where
  "rest_of_write env arena config i processed s =
     (case chunk_loop (nxmt_runner_stop_requested env config) (slice_count arena config)
         (write_body env (a_base arena + slice_start arena config * NXMT_WORD_BYTES) (slice_start arena config)
            (nth_phase config i) config) processed s of
        None \<Rightarrow> None
      | Some (False, s) \<Rightarrow> Some (False, s)
      | Some (True, s) \<Rightarrow> rest_of_verify env arena config i 0
          (end_write (a_base arena + slice_start arena config * NXMT_WORD_BYTES) (slice_count arena config) config s))"

definition resume ::
    "Env \<Rightarrow> NxmtArena \<Rightarrow> NxmtRunConfig \<Rightarrow> u64 \<Rightarrow> Pc \<Rightarrow> RunState \<Rightarrow> (NxmtStatus \<times> RunState) option" where
  "resume env arena config initial_errors pc s =
     (case pc of
        Before_phase i \<Rightarrow> run_phases env (a_base arena) (slice_start arena config) (slice_count arena config) config
            initial_errors [i..<phases_of config] s
      | In_write i processed \<Rightarrow>
          rest_of_phase env arena config initial_errors i (rest_of_write env arena config i processed s)
      | In_verify i processed \<Rightarrow>
          rest_of_phase env arena config initial_errors i (rest_of_verify env arena config i processed s)
      | Finished st \<Rightarrow> Some (st, s))"

lemma verify_phase_rest:
  "(case nxmt_verify_phase env (a_base arena) (slice_start arena config) (slice_count arena config)
       (nth_phase config i) config s of
      None \<Rightarrow> None
    | Some (False, s) \<Rightarrow> Some (False, s)
    | Some (True, s) \<Rightarrow> Some (True, s\<lparr>w_stats := (w_stats s)\<lparr>bytes_verified
          := bytes_verified (w_stats s) + slice_count arena config * NXMT_WORD_BYTES\<rparr>\<rparr>))
    = rest_of_verify env arena config i 0 s"
  by (simp only: nxmt_verify_phase_def rest_of_verify_def end_verify_def Let_def)

lemma run_phase_rest:
  "run_phase env (a_base arena) (slice_start arena config) (slice_count arena config) (nth_phase config i) config s
    = (let (stop, s) = nxmt_runner_stop_requested env config s
       in if stop then Some (False, s)
          else rest_of_write env arena config i 0 (s\<lparr>w_stats := (w_stats s)\<lparr>current_phase := nth_phase config i\<rparr>\<rparr>))"
proof -
  obtain stop s1 where poll: "nxmt_runner_stop_requested env config s = (stop, s1)" by fastforce
  let ?s1 = "s1\<lparr>w_stats := (w_stats s1)\<lparr>current_phase := nth_phase config i\<rparr>\<rparr>"
  let ?base = "a_base arena + slice_start arena config * NXMT_WORD_BYTES"
  define loop where "loop = chunk_loop (nxmt_runner_stop_requested env config) (slice_count arena config)
      (write_body env ?base (slice_start arena config) (nth_phase config i) config) 0 ?s1"
  have wr: "nxmt_write_phase env (a_base arena) (slice_start arena config) (slice_count arena config)
      (nth_phase config i) config ?s1 = (case loop of None \<Rightarrow> None | Some (False, s) \<Rightarrow> Some (False, s)
        | Some (True, s) \<Rightarrow> Some (True, if inject_mismatch config \<and> slice_count arena config > 0
            then s\<lparr>w_mem := store64 (w_mem s) ?base (load64 (w_mem s) ?base XOR 0x100)\<rparr> else s))"
    by (simp only: nxmt_write_phase_def Let_def loop_def)
  have rest: "rest_of_write env arena config i 0 ?s1 = (case loop of None \<Rightarrow> None | Some (False, s) \<Rightarrow> Some (False, s)
        | Some (True, s) \<Rightarrow> rest_of_verify env arena config i 0 (end_write ?base (slice_count arena config) config s))"
    by (simp only: rest_of_write_def loop_def)
  show ?thesis
    unfolding run_phase_def poll Let_def prod.case wr verify_phase_rest rest
    by (cases loop) (auto simp: end_write_def Let_def split: bool.split)
qed

text \<open>A step does not change what is left to compute: the steps together are the pass.\<close>

lemma resume_step:
  "resume env arena config errs pc s = (case worker_step env arena config errs pc s of
     (pc', s') \<Rightarrow> resume env arena config errs pc' s')"
proof (cases pc)
  case (Before_phase i)
  show ?thesis
  proof (cases "i < phases_of config")
    case True
    then have "[i..<phases_of config] = i # [Suc i..<phases_of config]" by (rule upt_conv_Cons)
    with True Before_phase show ?thesis
      by (simp add: resume_def worker_step_def run_phase_rest rest_of_phase_def abort_pass_def Let_def split_beta
          split: option.split bool.split)
  next
    case False
    with Before_phase show ?thesis by (simp add: resume_def worker_step_def Let_def)
  qed
next
  case (In_write i k)
  then show ?thesis
    by (cases "k < slice_count arena config")
      (simp_all add: resume_def worker_step_def rest_of_write_def chunk_loop.simps [of _ _ _ k] loop_chunk_def
        rest_of_phase_def abort_pass_def Let_def split_beta split: option.split bool.split)
next
  case (In_verify i k)
  then show ?thesis
    by (cases "k < slice_count arena config")
      (simp_all add: resume_def worker_step_def rest_of_verify_def chunk_loop.simps [of _ _ _ k] loop_chunk_def
        rest_of_phase_def abort_pass_def Let_def split_beta split: option.split bool.split)
next
  case (Finished st)
  then show ?thesis by (simp add: resume_def worker_step_def Let_def)
qed

section \<open>Threads on one memory\<close>

text \<open>
  The state all threads share, and where each of them is.  The memory in a thread's own \<open>RunState\<close> is not
  read: a step works on the shared one.
\<close>

record Conf =
  cf_mem :: mem
  cf_stop :: bool
  cf_thread :: "nat \<Rightarrow> Pc \<times> RunState"

definition now :: "bool \<Rightarrow> bool \<Rightarrow> Env" where
  "now neon stop = \<lparr>env_neon = neon, env_stop = (\<lambda>_. stop), env_drift = (\<lambda>_ m. m)\<rparr>"

abbreviation worker_config :: "RunSetup \<Rightarrow> u64 \<Rightarrow> nat \<Rightarrow> NxmtRunConfig" where
  "worker_config rs p w \<equiv> ctx_config (pass_context rs p w)"

text \<open>A thread at its first poll: the report initialised, the arguments checked, the seed of the pressure set.\<close>

definition entry_state :: "mem \<Rightarrow> RunState" where
  "entry_state m = \<lparr>w_mem = m, w_progress = 0, w_polls = 0, w_pressure = 0,
     w_report = nxmt_report_init zero_report, w_stats = zero_stats\<rparr>"

definition conc_start :: "RunSetup \<Rightarrow> u64 \<Rightarrow> mem \<Rightarrow> Conf" where
  "conc_start rs p m = \<lparr>cf_mem = m, cf_stop = False,
     cf_thread = (\<lambda>w. (Before_phase 0, start_state (worker_config rs p w) (entry_state m)))\<rparr>"

text \<open>The words the workers test.\<close>

definition under_test :: "NxmtArena \<Rightarrow> u64 \<Rightarrow> bool" where
  "under_test arena x \<longleftrightarrow> in_slice (a_base arena) (unat (a_words arena)) x"

text \<open>
  The moves: a worker takes its next step, the monitor raises the stop flag, something else (the GPU pump,
  the main thread) writes outside the words under test, and the memory itself fails, in any way.
\<close>

datatype Event = Work nat | Raise_stop | Elsewhere | Fault

inductive conc_step :: "bool \<Rightarrow> RunSetup \<Rightarrow> u64 \<Rightarrow> Conf \<Rightarrow> Event \<Rightarrow> Conf \<Rightarrow> bool" for neon rs p where
  work: "w < rs_workers rs \<Longrightarrow> cf_thread c w = (pc, s) \<Longrightarrow> (\<forall>st. pc \<noteq> Finished st) \<Longrightarrow>
    worker_step (now neon (cf_stop c)) (rs_arena rs) (worker_config rs p w) 0 pc (s\<lparr>w_mem := cf_mem c\<rparr>) = (pc', s') \<Longrightarrow>
    conc_step neon rs p c (Work w) (c\<lparr>cf_mem := w_mem s', cf_thread := (cf_thread c)(w := (pc', s'))\<rparr>)"
| raise_stop: "conc_step neon rs p c Raise_stop (c\<lparr>cf_stop := True\<rparr>)"
| elsewhere: "(\<And>x. under_test (rs_arena rs) x \<Longrightarrow> m x = cf_mem c x) \<Longrightarrow>
    conc_step neon rs p c Elsewhere (c\<lparr>cf_mem := m\<rparr>)"
| fault: "conc_step neon rs p c Fault (c\<lparr>cf_mem := m\<rparr>)"

inductive conc_exec :: "bool \<Rightarrow> RunSetup \<Rightarrow> u64 \<Rightarrow> Conf \<Rightarrow> Event list \<Rightarrow> Conf \<Rightarrow> bool" for neon rs p where
  exec_nil: "conc_exec neon rs p c [] c"
| exec_snoc: "conc_exec neon rs p c0 es c \<Longrightarrow> conc_step neon rs p c e c' \<Longrightarrow> conc_exec neon rs p c0 (es @ [e]) c'"

section \<open>What a step reads and writes\<close>

definition polls :: "NxmtArena \<Rightarrow> NxmtRunConfig \<Rightarrow> Pc \<Rightarrow> bool" where
  "polls arena config pc \<longleftrightarrow>
     (case pc of
        Before_phase i \<Rightarrow> i < phases_of config
      | In_write i k \<Rightarrow> k < slice_count arena config
      | In_verify i k \<Rightarrow> k < slice_count arena config
      | Finished st \<Rightarrow> False)"

lemma body_env:
  "env_neon env = env_neon env' \<Longrightarrow> write_body env = write_body env'"
  "env_neon env = env_neon env' \<Longrightarrow> verify_body env = verify_body env'"
  by (simp_all add: write_body_def verify_body_def fun_eq_iff)

text \<open>A step that polls sees of its environment the flag and the memory at that poll only.\<close>

lemma step_at_poll:
  assumes "polls arena config pc" and "env_neon env = neon"
    and "env_stop env (w_polls s) = stop" and "env_drift env (w_polls s) m' = m"
  shows "worker_step env arena config errs pc (s\<lparr>w_mem := m'\<rparr>)
    = worker_step (now neon stop) arena config errs pc (s\<lparr>w_mem := m\<rparr>)"
proof -
  have "nxmt_runner_stop_requested env config (s\<lparr>w_mem := m'\<rparr>)
      = nxmt_runner_stop_requested (now neon stop) config (s\<lparr>w_mem := m\<rparr>)"
    using assms by (simp add: nxmt_runner_stop_requested_def now_def)
  moreover have "write_body env = write_body (now neon stop)" "verify_body env = verify_body (now neon stop)"
    by (rule body_env; simp add: now_def assms)+
  ultimately show ?thesis
    using assms(1) by (cases pc) (simp_all add: worker_step_def polls_def Let_def split_beta)
qed

text \<open>A step that does not poll leaves the memory alone and asks nothing of the environment.\<close>

lemma step_without_poll_eq:
  assumes "\<not> polls arena config pc"
  shows "worker_step env arena config errs pc s =
    (case pc of
       Before_phase i \<Rightarrow> (Finished (if error_count (w_report s) \<noteq> errs then NXMT_STATUS_FAIL else NXMT_STATUS_PASS), set_checksum s)
     | In_write i k \<Rightarrow> (In_verify i 0, end_write (slice_base arena config) (slice_count arena config) config s)
     | In_verify i k \<Rightarrow> (Before_phase (i + 1), end_verify (slice_count arena config) s)
     | Finished st \<Rightarrow> (Finished st, s))"
  using assms by (cases pc) (simp_all add: worker_step_def polls_def set_checksum_def Let_def)

lemma end_fields:
  "\<not> inject_mismatch config \<Longrightarrow> end_write p n config (s\<lparr>w_mem := m\<rparr>) = (end_write p n config s)\<lparr>w_mem := m\<rparr>"
  "end_verify n (s\<lparr>w_mem := m\<rparr>) = (end_verify n s)\<lparr>w_mem := m\<rparr>"
  "set_checksum (s\<lparr>w_mem := m\<rparr>) = (set_checksum s)\<lparr>w_mem := m\<rparr>"
  "w_polls (end_write p n config s) = w_polls s" "w_polls (end_verify n s) = w_polls s"
  "w_polls (set_checksum s) = w_polls s"
  by (simp_all add: end_write_def end_verify_def set_checksum_def Let_def)

lemma step_without_poll:
  assumes "\<not> polls arena config pc" and "\<not> inject_mismatch config"
    and "worker_step env arena config errs pc (s\<lparr>w_mem := m\<rparr>) = (pc', s')"
  shows "w_mem s' = m \<and> w_polls s' = w_polls s
    \<and> worker_step env' arena config errs pc (s\<lparr>w_mem := m'\<rparr>) = (pc', s'\<lparr>w_mem := m'\<rparr>)"
  using assms(2,3) unfolding step_without_poll_eq [OF assms(1)]
  by (cases pc) (auto simp: end_fields)

lemma step_polls:
  assumes "polls arena config pc" and "worker_step env arena config errs pc s = (pc', s')"
  shows "w_polls s' = w_polls s + 1"
  using assms
  by (cases pc) (auto simp: worker_step_def polls_def nxmt_runner_stop_requested_def abort_pass_def set_checksum_def
      body_fields Let_def split: if_splits)

text \<open>A step writes in its worker's slice only.\<close>

lemma step_frame:
  assumes valid: "valid_args arena config" and words: "unat (a_words arena) < 2 ^ 61"
    and inject: "\<not> inject_mismatch config"
    and step: "worker_step (now neon stop) arena config errs pc s = (pc', s')"
    and x: "\<not> in_slice (slice_base arena config) (unat (slice_count arena config)) x"
  shows "w_mem s' x = w_mem s x"
proof (cases "\<exists>i k. pc = In_write i k \<and> k < slice_count arena config \<and> \<not> (has_stop_requested config \<and> stop)")
  case False
  with step inject show ?thesis
    by (cases pc) (auto simp: worker_step_def end_write_def end_verify_def set_checksum_def abort_pass_def
        nxmt_runner_stop_requested_def now_def body_fields Let_def split: if_splits)
next
  case True
  then obtain i k where pc: "pc = In_write i k" "k < slice_count arena config" "\<not> (has_stop_requested config \<and> stop)" by blast
  let ?start = "slice_start arena config" and ?n = "unat (slice_count arena config)" and ?p = "slice_base arena config"
  have small: "unat ?start + ?n < 2 ^ 61" using slice_le_words [OF valid] words by simp
  have k: "unat k < ?n" using pc(2) by (simp add: word_less_nat_alt)
  have al: "aligned8 ?p" using valid aligned8_add [of "a_base arena" ?start]
    by (simp add: valid_args_def mult.commute)
  have "?n + 131072 \<le> 2 ^ 64" using small by simp
  from next_chunk(1) [OF pc(2) this] have "unat (loop_chunk (slice_count arena config) k) = chunk_len ?n (unat k)"
    by (simp add: loop_chunk_def)
  then have "of_nat (unat (loop_chunk (slice_count arena config) k)) = (of_nat (chunk_len ?n (unat k)) :: u64)" by simp
  then have c: "loop_chunk (slice_count arena config) k = of_nat (chunk_len ?n (unat k))" by simp
  have "w_mem s' = fill (widx ?p (unat k)) (\<lambda>i'. expected_word (c_seed config) (nth_phase config i) (c_pass config) ?start (unat k + i'))
      (chunk_len ?n (unat k)) (w_mem s)"
    using step pc write_body_effect(1) [OF small k al, of "now neon stop" "nth_phase config i" config]
    by (auto simp: worker_step_def nxmt_runner_stop_requested_def now_def c Let_def)
  moreover have "unat k + chunk_len ?n (unat k) \<le> ?n" using k by simp
  then have "\<not> in_slice (widx ?p (unat k)) (chunk_len ?n (unat k)) x" using x in_slice_sub by blast
  ultimately show ?thesis by (simp add: fill_frame)
qed

section \<open>Every execution, worker by worker\<close>

text \<open>
  An environment explains what a worker has done so far when the pass in it, in whatever way it goes on
  after the polls made, would now be where the worker is; as long as the memory is sound, the slice is as
  it is in the shared memory.
\<close>

definition agree_before :: "nat \<Rightarrow> Env \<Rightarrow> Env \<Rightarrow> bool" where
  "agree_before t env env' \<longleftrightarrow> env_neon env' = env_neon env
     \<and> (\<forall>u<t. env_stop env' u = env_stop env u \<and> env_drift env' u = env_drift env u)"

abbreviation in_own_slice :: "NxmtArena \<Rightarrow> NxmtRunConfig \<Rightarrow> u64 \<Rightarrow> bool" where
  "in_own_slice arena config \<equiv> in_slice (slice_base arena config) (unat (slice_count arena config))"

definition same_slice :: "NxmtArena \<Rightarrow> NxmtRunConfig \<Rightarrow> mem \<Rightarrow> mem \<Rightarrow> bool" where
  "same_slice arena config m m' \<longleftrightarrow> (\<forall>x. in_own_slice arena config x \<longrightarrow> m x = m' x)"

definition follows :: "NxmtArena \<Rightarrow> NxmtRunConfig \<Rightarrow> RunState \<Rightarrow> Env \<Rightarrow> Pc \<Rightarrow> RunState \<Rightarrow> mem \<Rightarrow> bool" where
  "follows arena config s0 env pc s \<mu> \<longleftrightarrow>
     (\<forall>env'. agree_before (w_polls s) env env' \<longrightarrow>
        resume env' arena config 0 (Before_phase 0) s0 = resume env' arena config 0 pc (s\<lparr>w_mem := \<mu>\<rparr>))"

lemma follows_start: "follows arena config s0 env (Before_phase 0) s0 (w_mem s0)"
  by (simp add: follows_def)

lemma follows_quiet_step:
  assumes "follows arena config s0 env pc s \<mu>" and "\<not> polls arena config pc" and inject: "\<not> inject_mismatch config"
    and step: "worker_step (now neon stop) arena config 0 pc (s\<lparr>w_mem := m\<rparr>) = (pc', s')"
  shows "follows arena config s0 env pc' s' \<mu>" and "w_mem s' = m"
proof -
  note quiet = step_without_poll [OF assms(2) inject step]
  have "resume env' arena config 0 pc (s\<lparr>w_mem := \<mu>\<rparr>) = resume env' arena config 0 pc' (s'\<lparr>w_mem := \<mu>\<rparr>)" for env'
    using quiet by (subst resume_step) simp
  with assms(1) quiet show "follows arena config s0 env pc' s' \<mu>" "w_mem s' = m" by (simp_all add: follows_def)
qed

text \<open>
  At a poll the environment is completed with the flag read and with what has happened to the memory: the
  bytes of the slice that have their values are kept, all others are set.
\<close>

definition seen_at :: "NxmtArena \<Rightarrow> NxmtRunConfig \<Rightarrow> nat \<Rightarrow> bool \<Rightarrow> mem \<Rightarrow> mem \<Rightarrow> Env \<Rightarrow> Env" where
  "seen_at arena config t stop \<mu> m env =
     env\<lparr>env_stop := (env_stop env)(t := stop),
         env_drift := (env_drift env)(t := (\<lambda>\<mu>' x. if in_own_slice arena config x \<and> \<mu> x = m x then \<mu>' x else m x))\<rparr>"

lemma follows_poll:
  assumes fol: "follows arena config s0 env pc s \<mu>" and polls: "polls arena config pc" and neon: "env_neon env = neon"
    and step: "worker_step (now neon stop) arena config 0 pc (s\<lparr>w_mem := m\<rparr>) = (pc', s')"
  shows "follows arena config s0 (seen_at arena config (w_polls s) stop \<mu> m env) pc' s' (w_mem s')"
  unfolding follows_def
proof (intro allI impI)
  fix env' assume env': "agree_before (w_polls s') (seen_at arena config (w_polls s) stop \<mu> m env) env'"
  have more: "w_polls s' = w_polls s + 1" using step_polls [OF polls step] by simp
  have now: "env_stop env' (w_polls s) = stop" "env_drift env' (w_polls s) \<mu> = m" "env_neon env' = neon"
    using env' neon by (auto simp: agree_before_def more seen_at_def fun_eq_iff)
  have "agree_before (w_polls s) env env'"
    using env' by (auto simp: agree_before_def more seen_at_def)
  with fol have "resume env' arena config 0 (Before_phase 0) s0 = resume env' arena config 0 pc (s\<lparr>w_mem := \<mu>\<rparr>)"
    by (simp add: follows_def)
  also have "\<dots> = resume env' arena config 0 pc' s'"
    using step_at_poll [OF polls now(3,1,2)] step by (subst resume_step) simp
  finally show "resume env' arena config 0 (Before_phase 0) s0 = resume env' arena config 0 pc' (s'\<lparr>w_mem := w_mem s'\<rparr>)"
    by simp
qed

lemma kept_seen:
  "kept_slice env arena config \<Longrightarrow> same_slice arena config \<mu> m \<Longrightarrow> kept_slice (seen_at arena config t stop \<mu> m env) arena config"
  by (auto simp: kept_def keeps_def seen_at_def same_slice_def)

definition explained :: "bool \<Rightarrow> RunSetup \<Rightarrow> u64 \<Rightarrow> mem \<Rightarrow> bool \<Rightarrow> Conf \<Rightarrow> nat \<Rightarrow> bool" where
  "explained neon rs p m0 sound c w \<longleftrightarrow>
     (\<exists>env \<mu>. env_neon env = neon \<and> (\<forall>t. env_stop env t \<longrightarrow> cf_stop c)
       \<and> (sound \<longrightarrow> kept_slice env (rs_arena rs) (worker_config rs p w)
                  \<and> same_slice (rs_arena rs) (worker_config rs p w) \<mu> (cf_mem c))
       \<and> follows (rs_arena rs) (worker_config rs p w) (start_state (worker_config rs p w) (entry_state m0)) env
           (fst (cf_thread c w)) (snd (cf_thread c w)) \<mu>)"

lemma explained_start: "explained neon rs p m sound (conc_start rs p m) w"
proof -
  let ?c = "worker_config rs p w"
  have m: "w_mem (start_state ?c (entry_state m)) = m" by (simp add: start_state_def entry_state_def)
  have "kept_slice (now neon False) (rs_arena rs) ?c" "env_neon (now neon False) = neon"
    "\<not> env_stop (now neon False) t" for t
    by (simp_all add: now_def kept_def keeps_def)
  moreover note follows_start [of "rs_arena rs" ?c "start_state ?c (entry_state m)" "now neon False", unfolded m]
  ultimately show ?thesis unfolding explained_def conc_start_def
    by (intro exI [of _ "now neon False"] exI [of _ m] conjI)
      (simp_all only: Conf.simps fst_conv snd_conv simp_thms same_slice_def)
qed

lemma slice_under_test:
  assumes "good_setup rs" and "w < rs_workers rs" and "in_own_slice (rs_arena rs) (worker_config rs p w) x"
  shows "under_test (rs_arena rs) x"
proof -
  have "valid_args (rs_arena rs) (worker_config rs p w)" using pass_context_valid [OF assms(1,2), of p] by simp
  note slice_le_words [OF this]
  moreover have "slice_base arena config = widx (a_base arena) (unat (slice_start arena config))" for arena config
    by (simp add: widx_def mult.commute)
  ultimately show ?thesis using assms(3) unfolding under_test_def by (metis in_slice_sub)
qed

lemma other_slice:
  assumes good: "good_setup rs" and w: "w < rs_workers rs" "v < rs_workers rs" "w \<noteq> v"
    and x: "in_own_slice (rs_arena rs) (worker_config rs p v) x"
  shows "\<not> in_own_slice (rs_arena rs) (worker_config rs p w) x"
proof -
  let ?arena = "rs_arena rs" and ?c = "worker_config rs p w"
  have valid: "valid_args ?arena ?c" using pass_context_valid [OF good w(1), of p] by simp
  have words: "unat (a_words ?arena) < 2 ^ 61" using good by (simp add: good_setup_def valid_arena_def)
  have ids: "unat (of_nat w :: u32) = w" "unat (of_nat v :: u32) = v" "unat (of_nat (rs_workers rs) :: u32) = rs_workers rs"
    using good w by (auto simp: good_setup_def intro!: of_nat_small32)
  have j: "of_nat v < c_worker_count ?c" "of_nat v \<noteq> c_worker_id ?c"
    using ids w by (simp_all add: word_less_nat_alt word_eq_iff_unat)
  from x obtain k where k: "k < unat (slice_count ?arena (worker_config rs p v))"
    "x - widx (slice_base ?arena (worker_config rs p v)) k < 8" by (auto simp: in_slice_def)
  define i where "i = unat (x - widx (slice_base ?arena (worker_config rs p v)) k)"
  have i: "i < 8" "x = widx (slice_base ?arena (worker_config rs p v)) k + of_nat i"
    using k(2) by (simp_all add: i_def word_less_nat_alt)
  have "aligned8 (a_base ?arena)" "c_worker_id ?c < c_worker_count ?c" using valid by (simp_all add: valid_args_def)
  from slices_disjoint [OF words this j _ i(1), of k] k(1) show ?thesis by (simp add: i(2))
qed

lemma explained_step:
  assumes good: "good_setup rs" and step: "conc_step neon rs p c e c'"
    and v: "v < rs_workers rs" and ex: "explained neon rs p m0 sound c v"
  shows "explained neon rs p m0 (sound \<and> e \<noteq> Fault) c' v"
proof -
  let ?arena = "rs_arena rs" and ?c = "worker_config rs p v"
  let ?s0 = "start_state ?c (entry_state m0)"
  from ex obtain env \<mu> where env: "env_neon env = neon" "\<And>t. env_stop env t \<Longrightarrow> cf_stop c"
    and sound: "sound \<Longrightarrow> kept_slice env ?arena ?c \<and> same_slice ?arena ?c \<mu> (cf_mem c)"
    and fol: "follows ?arena ?c ?s0 env (fst (cf_thread c v)) (snd (cf_thread c v)) \<mu>"
    unfolding explained_def by blast
  have words: "unat (a_words ?arena) < 2 ^ 61" using good by (simp add: good_setup_def valid_arena_def)
  have explainI: "explained neon rs p m0 sound' c'' v"
    if "env_neon env' = neon" "\<And>t. env_stop env' t \<Longrightarrow> cf_stop c''"
      "sound' \<Longrightarrow> kept_slice env' ?arena ?c \<and> same_slice ?arena ?c \<mu>' (cf_mem c'')"
      "follows ?arena ?c ?s0 env' (fst (cf_thread c'' v)) (snd (cf_thread c'' v)) \<mu>'" for env' \<mu>' sound' c''
    using that unfolding explained_def by blast
  from step show ?thesis
  proof cases
    case (work w pc s pc' s')
    show ?thesis
    proof (cases "w = v")
      case False
      have "valid_args ?arena (worker_config rs p w)" using pass_context_valid [OF good work(3), of p] by simp
      from step_frame [OF this words _ work(6)] other_slice [OF good work(3) v False, of p]
      have "w_mem s' x = cf_mem c x" if "in_own_slice ?arena ?c x" for x using that by simp
      then have "sound \<Longrightarrow> same_slice ?arena ?c \<mu> (cf_mem c')" using sound unfolding work same_slice_def by auto
      with fol env sound False show ?thesis by (intro explainI [of env _ _ \<mu>]) (auto simp: work)
    next
      case True
      have fol: "follows ?arena ?c ?s0 env pc s \<mu>" using fol work(4) True by simp
      note st = work(6) [unfolded True]
      show ?thesis
      proof (cases "polls ?arena ?c pc")
        case False
        note fol' = follows_quiet_step [OF fol False _ st]
        with env sound True show ?thesis by (intro explainI [of env _ _ \<mu>]) (auto simp: work)
      next
        case polls: True
        have "same_slice ?arena ?c (w_mem s') (cf_mem c')" by (simp add: work same_slice_def)
        with follows_poll [OF fol polls env(1) st] kept_seen [of env ?arena ?c \<mu> "cf_mem c"] sound env True
        show ?thesis
          by (intro explainI [of "seen_at ?arena ?c (w_polls s) (cf_stop c) \<mu> (cf_mem c) env" _ _ "w_mem s'"])
            (auto simp: work seen_at_def split: if_splits)
      qed
    qed
  next
    case raise_stop
    with env sound fol show ?thesis by (intro explainI [of env _ _ \<mu>]) auto
  next
    case (elsewhere m)
    have "m x = cf_mem c x" if "in_own_slice ?arena ?c x" for x
      using elsewhere(3) slice_under_test [OF good v that] by simp
    then have "sound \<Longrightarrow> same_slice ?arena ?c \<mu> (cf_mem c')" using sound unfolding elsewhere same_slice_def by auto
    with env sound fol show ?thesis by (intro explainI [of env _ _ \<mu>]) (auto simp: elsewhere)
  next
    case (fault m)
    with env fol show ?thesis by (intro explainI [of env _ _ \<mu>]) auto
  qed
qed

lemma explained_exec:
  assumes good: "good_setup rs" and v: "v < rs_workers rs"
  shows "conc_exec neon rs p c0 es c \<Longrightarrow> explained neon rs p m0 True c0 v \<Longrightarrow> explained neon rs p m0 (Fault \<notin> set es) c v"
proof (induction rule: conc_exec.induct)
  case (exec_snoc c0 es c e c')
  from explained_step [OF good exec_snoc.hyps(2) v exec_snoc.IH [OF exec_snoc.prems]]
  show ?case by (simp add: conj_commute eq_commute [of Fault])
qed simp

section \<open>How many steps are left\<close>

text \<open>The chunks of a loop from a word on, and the steps of a worker from a place on, at most.\<close>

definition chunks_left :: "u64 \<Rightarrow> u64 \<Rightarrow> nat" where
  "chunks_left count k = (unat count - unat k + 131071) div 131072"

definition steps_left :: "NxmtArena \<Rightarrow> NxmtRunConfig \<Rightarrow> Pc \<Rightarrow> nat" where
  "steps_left arena config pc =
     (let n = slice_count arena config;
          phase = 2 * chunks_left n 0 + 3;
          later = (\<lambda>i. (phases_of config - Suc i) * phase + 1)
      in case pc of
           Before_phase i \<Rightarrow> (phases_of config - i) * phase + 1
         | In_write i k \<Rightarrow> later i + chunks_left n k + chunks_left n 0 + 2
         | In_verify i k \<Rightarrow> later i + chunks_left n k + 1
         | Finished st \<Rightarrow> 0)"

lemma chunks_step:
  fixes k count :: u64
  assumes "k < count" and "unat count < 2 ^ 61"
  shows "chunks_left count (k + loop_chunk count k) < chunks_left count k"
proof -
  have "unat count + 131072 \<le> 2 ^ 64" using assms(2) by simp
  note c = next_chunk [OF assms(1) this, folded loop_chunk_def]
  define a where "a = unat count - unat k"
  have "0 < a" using assms(1) by (simp add: a_def word_less_nat_alt)
  then have "(a - min 131072 a + 131071) div 131072 < (a + 131071) div 131072"
    by (simp add: min_def) linarith
  moreover have "unat count - unat (k + loop_chunk count k) = a - min 131072 a"
    by (simp only: c a_def diff_diff_left)
  ultimately show ?thesis by (simp only: chunks_left_def a_def)
qed

lemma steps_decrease:
  assumes words: "unat (slice_count arena config) < 2 ^ 61" and run: "\<forall>st. pc \<noteq> Finished st"
    and step: "worker_step env arena config errs pc s = (pc', s')"
  shows "steps_left arena config pc' < steps_left arena config pc"
proof -
  let ?n = "slice_count arena config"
  have chunk: "chunks_left ?n (k + loop_chunk ?n k) < chunks_left ?n k" if "k < ?n" for k
    by (rule chunks_step [OF that words])
  have phase: "(phases_of config - i) = Suc (phases_of config - Suc i)" if "i < phases_of config" for i using that by simp
  show ?thesis
  proof (cases pc)
    case (Before_phase i)
    with step phase [of i] show ?thesis
      by (cases "i < phases_of config")
        (auto simp: worker_step_def abort_pass_def steps_left_def Let_def split: prod.splits if_splits)
  next
    case (In_write i k)
    with step chunk [of k] show ?thesis
      by (auto simp: worker_step_def abort_pass_def steps_left_def Let_def split: prod.splits if_splits)
  next
    case (In_verify i k)
    with step chunk [of k] show ?thesis
      by (auto simp: worker_step_def abort_pass_def steps_left_def Let_def split: prod.splits if_splits)
  next
    case (Finished st)
    with run show ?thesis by simp
  qed
qed

definition finished :: "Conf \<Rightarrow> nat \<Rightarrow> bool" where
  "finished c w \<longleftrightarrow> (\<exists>st. fst (cf_thread c w) = Finished st)"

abbreviation left_of :: "RunSetup \<Rightarrow> u64 \<Rightarrow> Conf \<Rightarrow> nat \<Rightarrow> nat" where
  "left_of rs p c w \<equiv> steps_left (rs_arena rs) (worker_config rs p w) (fst (cf_thread c w))"

lemma small_slice:
  assumes "good_setup rs" and "w < rs_workers rs"
  shows "unat (slice_count (rs_arena rs) (worker_config rs p w)) < 2 ^ 61"
proof -
  have "valid_args (rs_arena rs) (worker_config rs p w)" using pass_context_valid [OF assms, of p] by simp
  moreover have "unat (a_words (rs_arena rs)) < 2 ^ 61" using assms(1) by (simp add: good_setup_def valid_arena_def)
  ultimately show ?thesis using slice_le_words [of "rs_arena rs" "worker_config rs p w"] by simp
qed

lemma left_step:
  assumes good: "good_setup rs" and v: "v < rs_workers rs" and step: "conc_step neon rs p c e c'"
  shows "left_of rs p c' v + (if e = Work v then 1 else 0) \<le> left_of rs p c v"
  using step
proof cases
  case (work w pc s pc' s')
  show ?thesis
  proof (cases "w = v")
    case True
    with steps_decrease [OF small_slice [OF good v] work(5) work(6) [unfolded True]] work show ?thesis by simp
  next
    case False
    with work show ?thesis by simp
  qed
qed simp_all

lemma work_bounded:
  assumes good: "good_setup rs" and v: "v < rs_workers rs"
  shows "conc_exec neon rs p c0 es c \<Longrightarrow> left_of rs p c v + count_list es (Work v) \<le> left_of rs p c0 v"
proof (induction rule: conc_exec.induct)
  case (exec_snoc c0 es c e c')
  from left_step [OF good v exec_snoc.hyps(2)] exec_snoc.IH show ?case by (simp split: if_splits)
qed simp

lemma worker_can_step:
  assumes "w < rs_workers rs" and "\<not> finished c w"
  shows "\<exists>c'. conc_step neon rs p c (Work w) c'"
proof -
  obtain pc s where t: "cf_thread c w = (pc, s)" by fastforce
  obtain pc' s' where "worker_step (now neon (cf_stop c)) (rs_arena rs) (worker_config rs p w) 0 pc (s\<lparr>w_mem := cf_mem c\<rparr>) = (pc', s')"
    by fastforce
  from conc_step.work [OF assms(1) t _ this] assms(2) t show ?thesis by (auto simp: finished_def)
qed

lemma can_finish:
  assumes good: "good_setup rs"
  shows "conc_exec neon rs p c0 es c \<Longrightarrow>
    \<exists>ws c'. conc_exec neon rs p c0 (es @ map Work ws) c' \<and> (\<forall>w<rs_workers rs. finished c' w)"
proof (induction "\<Sum>w<rs_workers rs. left_of rs p c w" arbitrary: es c rule: less_induct)
  case less
  show ?case
  proof (cases "\<forall>w<rs_workers rs. finished c w")
    case True
    with less.prems show ?thesis by (intro exI [of _ "[]"]) auto
  next
    case False
    then obtain w c1 where w: "w < rs_workers rs" and st: "conc_step neon rs p c (Work w) c1"
      using worker_can_step by blast
    have "left_of rs p c1 v \<le> left_of rs p c v" if "v < rs_workers rs" for v
      using left_step [OF good that st] by simp
    moreover have "left_of rs p c1 w < left_of rs p c w" using left_step [OF good w st] by simp
    ultimately have "(\<Sum>w<rs_workers rs. left_of rs p c1 w) < (\<Sum>w<rs_workers rs. left_of rs p c w)"
      using w by (intro sum_strict_mono_ex1) auto
    from less.hyps [OF this exec_snoc [OF less.prems st]] obtain ws c' where
      "conc_exec neon rs p c0 ((es @ [Work w]) @ map Work ws) c'" "\<forall>w<rs_workers rs. finished c' w" by blast
    then show ?thesis by (intro exI [of _ "w # ws"] exI [of _ c']) simp
  qed
qed

section \<open>Properties\<close>

text \<open>The context a finished thread leaves.\<close>

definition thread_context :: "RunSetup \<Rightarrow> u64 \<Rightarrow> Conf \<Rightarrow> nat \<Rightarrow> NxmtWorkerContext" where
  "thread_context rs p c w =
     (case cf_thread c w of (pc, s) \<Rightarrow>
        (pass_context rs p w)\<lparr>ctx_report := w_report s, ctx_stats := w_stats s,
          ctx_status := (case pc of Finished st \<Rightarrow> st | _ \<Rightarrow> ctx_status (pass_context rs p w))\<rparr>)"

lemma explained_thread:
  assumes good: "good_setup rs" and w: "w < rs_workers rs" and ex: "explained neon rs p m sound c w" and fin: "finished c w"
  shows "\<exists>env. (sound \<longrightarrow> kept_slice env (rs_arena rs) (worker_config rs p w))
    \<and> map_option fst (nxmt_worker_entry (with_stop (cf_stop c) env) m 0 0 (pass_context rs p w))
        = Some (thread_context rs p c w)"
proof -
  let ?arena = "rs_arena rs" and ?c = "worker_config rs p w"
  obtain st s where t: "cf_thread c w = (Finished st, s)" using fin by (auto simp: finished_def prod_eq_iff)
  from ex obtain env \<mu> where env: "\<And>t. env_stop env t \<Longrightarrow> cf_stop c" "sound \<longrightarrow> kept_slice env ?arena ?c"
    and "follows ?arena ?c (start_state ?c (entry_state m)) env (Finished st) s \<mu>"
    by (auto simp: explained_def t)
  then have res: "resume env ?arena ?c 0 (Before_phase 0) (start_state ?c (entry_state m)) = Some (st, s\<lparr>w_mem := \<mu>\<rparr>)"
    by (simp add: follows_def agree_before_def resume_def)
  have valid: "valid_args ?arena ?c" using pass_context_valid [OF good w, of p] by simp
  have "error_count (w_report (entry_state m)) = 0" by (simp add: entry_state_def nxmt_report_init_def zero_report_def Let_def)
  with res have pass: "nxmt_runner_run_pass env (Some ?arena) (Some ?c) True True (entry_state m) = Some (st, s\<lparr>w_mem := \<mu>\<rparr>)"
    unfolding run_pass_valid [OF valid] by (simp add: resume_def)
  have "with_stop (cf_stop c) env = env" using env(1) by (cases env) (auto simp: with_stop_def fun_eq_iff)
  with pass env(2) show ?thesis
    by (intro exI [of _ env]) (simp add: nxmt_worker_entry_def entry_state_def thread_context_def t Let_def)
qed

text \<open>What a worker of such a pass reports.\<close>

definition truthful :: "RunSetup \<Rightarrow> bool \<Rightarrow> bool \<Rightarrow> NxmtWorkerContext \<Rightarrow> bool" where
  "truthful rs sound stop ctx \<longleftrightarrow>
     (\<exists>errs. report_of (ctx_report ctx) errs \<and> (\<forall>e \<in> set errs. run_error (rs_arena rs) (rs_mode rs) (rs_seed rs) e)
        \<and> ctx_status ctx \<in> (if errs \<noteq> [] then {NXMT_STATUS_FAIL}
              else if stop then {NXMT_STATUS_PASS, NXMT_STATUS_ABORTED} else {NXMT_STATUS_PASS})
        \<and> (sound \<longrightarrow> errs = []))"

lemma worker_truthful:
  assumes good: "good_setup rs" and w: "w < rs_workers rs" and thread: "worker_thread rs pe stop p w = Some ctx"
    and kept: "sound \<Longrightarrow> kept_run rs pe"
  shows "truthful rs sound stop ctx"
proof -
  let ?ctx = "pass_context rs p w"
  from thread obtain m' p' f' where entry: "nxmt_worker_entry (with_stop stop (pe_env pe w)) (pe_mem pe w) 0 0 ?ctx
      = Some (ctx, m', p', f')" by (auto simp: worker_thread_def)
  have "unat (a_words (ctx_arena ?ctx)) < 2 ^ 61" using good by (simp add: good_setup_def valid_arena_def)
  from worker_entry_result [OF this entry] pass_context_valid [OF good w, of p] obtain errs where
    errs: "report_of (ctx_report ctx) errs" "\<forall>e \<in> set errs. genuine_in_pass (rs_arena rs) (ctx_config ?ctx) e"
    and st: "ctx_status ctx = NXMT_STATUS_FAIL \<longleftrightarrow> errs \<noteq> []" "ctx_status ctx \<noteq> NXMT_STATUS_UNSUPPORTED"
      "ctx_status ctx = NXMT_STATUS_ABORTED \<longrightarrow> stoppable (with_stop stop (pe_env pe w)) (ctx_config ?ctx)"
    by auto
  have "ctx_status ctx \<noteq> NXMT_STATUS_FAIL" if sound
    using kept_threads [OF good kept [OF that], of stop p "[w]" "[ctx]"] w thread by auto
  moreover have "stop" if "ctx_status ctx = NXMT_STATUS_ABORTED" using st(3) that with_stop_stoppable by blast
  ultimately show ?thesis
    using errs run_error_context [OF good w] st unfolding truthful_def
    by (intro exI [of _ errs]) (cases "ctx_status ctx"; auto)
qed

text \<open>
  Property C12.  Threads on one memory: in every order in which the workers of a pass can take their steps on the
  shared memory, with the stop flag raised at any moment, anything else writing outside the words under
  test and the memory failing in any way, the contexts they leave are those of separate passes in
  environments of their own, as a run merges them: every recorded error is a genuine mismatch, the status is \<open>FAIL\<close>
  exactly if there is one and \<open>ABORTED\<close> only after the flag was raised.  If the memory is sound, these environments keep
  the slice of their worker and no error is recorded: no worker takes another one's writes for an error.
\<close>

theorem threads_refine_pass:
  assumes good: "good_setup rs" and exec: "conc_exec neon rs p (conc_start rs p m) es c"
    and fin: "\<forall>w<rs_workers rs. finished c w"
  shows "\<exists>pe. run_threads (worker_thread rs pe (cf_stop c) p) [0..<rs_workers rs]
        = Some (map (thread_context rs p c) [0..<rs_workers rs])
    \<and> list_all (truthful rs (Fault \<notin> set es) (cf_stop c)) (map (thread_context rs p c) [0..<rs_workers rs])
    \<and> (Fault \<notin> set es \<longrightarrow> kept_run rs pe)"
proof -
  let ?ws = "[0..<rs_workers rs]" and ?sound = "Fault \<notin> set es"
  have "\<exists>env. (?sound \<longrightarrow> kept_slice env (rs_arena rs) (worker_config rs p w))
      \<and> map_option fst (nxmt_worker_entry (with_stop (cf_stop c) env) m 0 0 (pass_context rs p w)) = Some (thread_context rs p c w)"
    if w: "w < rs_workers rs" for w
    using explained_thread [OF good w explained_exec [OF good w exec explained_start]] fin w by blast
  then obtain envs where envs: "\<And>w. w < rs_workers rs \<Longrightarrow> ?sound \<longrightarrow> kept_slice (envs w) (rs_arena rs) (worker_config rs p w)"
    "\<And>w. w < rs_workers rs \<Longrightarrow> map_option fst (nxmt_worker_entry (with_stop (cf_stop c) (envs w)) m 0 0 (pass_context rs p w))
      = Some (thread_context rs p c w)" by metis
  define pe where "pe = (demo_pass 0)\<lparr>pe_env := envs, pe_mem := (\<lambda>_. m)\<rparr>"
  have kept: "?sound \<Longrightarrow> kept_run rs pe" using envs(1) by (simp add: kept_run_def pe_def)
  have thread: "worker_thread rs pe (cf_stop c) p w = Some (thread_context rs p c w)" if "w < rs_workers rs" for w
    using envs(2) [OF that] by (simp add: worker_thread_def pe_def)
  have run: "run_threads (worker_thread rs pe (cf_stop c) p) ws = Some (map (thread_context rs p c) ws)"
    if "set ws \<subseteq> {..<rs_workers rs}" for ws
    using that by (induction ws) (simp_all add: thread)
  have "run_threads (worker_thread rs pe (cf_stop c) p) ?ws = Some (map (thread_context rs p c) ?ws)"
    by (rule run) auto
  moreover have "list_all (truthful rs ?sound (cf_stop c)) (map (thread_context rs p c) ?ws)"
    using worker_truthful [OF good _ thread kept] by (simp add: list_all_iff)
  ultimately show ?thesis using kept by blast
qed

definition demo_setup :: RunSetup where
  "demo_setup = \<lparr>rs_arena = small_arena, rs_mode = NXMT_MODE_QUICK, rs_seed = 7, rs_workers = 3,
     rs_duration_seconds = 0, rs_test_started = 0\<rparr>"

lemma demo_setup_good: "good_setup demo_setup"
  by (simp add: good_setup_def demo_setup_def small_arena_valid)

text \<open>Three workers; the second one runs first.\<close>

theorem threads_refine_pass_witness:
  "\<exists>ws c. conc_exec True demo_setup 0 (conc_start demo_setup 0 (\<lambda>_. 0)) (map Work (1 # ws)) c
    \<and> report_of (ctx_report (thread_context demo_setup 0 c 2)) []"
proof -
  let ?c0 = "conc_start demo_setup 0 (\<lambda>_. 0)"
  have "1 < rs_workers demo_setup" "\<not> finished ?c0 1" by (simp_all add: demo_setup_def finished_def conc_start_def)
  from worker_can_step [OF this] obtain c1 where "conc_step True demo_setup 0 ?c0 (Work 1) c1" by blast
  from can_finish [OF demo_setup_good exec_snoc [OF exec_nil this]] obtain ws c where
    c: "conc_exec True demo_setup 0 ?c0 (map Work (1 # ws)) c" "\<forall>w<rs_workers demo_setup. finished c w" by auto
  have "Fault \<notin> set (map Work (1 # ws))" by auto
  with threads_refine_pass [OF demo_setup_good c] have "truthful demo_setup True (cf_stop c) (thread_context demo_setup 0 c 2)"
    by (auto simp: list_all_iff) (simp add: demo_setup_def)
  then have "report_of (ctx_report (thread_context demo_setup 0 c 2)) []" by (auto simp: truthful_def)
  with c show ?thesis by blast
qed



end
