(* ===== verification/Pump_Region.thy ===== *)
theory Pump_Region
  imports Concurrent
begin

text \<open>
  The GPU pump beside the workers.  \<open>Concurrent\<close> lets anything else write outside the words under test, as
  the move \<open>Elsewhere\<close>; here the pump thread that \<open>Session\<close> starts in the carved tail of the arena is shown to
  be such a writer: setup on every outcome, every batch, and the thread as a whole.
\<close>

section \<open>What the pump writes\<close>

text \<open>
  The storage the pump uses from its base on: the preamble and the two buffers of \<open>b\<close> bytes.
  \<open>copies_bounded\<close> states what a copy command of the GPU does: it writes its destination only.
\<close>

definition in_storage :: "u64 \<Rightarrow> u64 \<Rightarrow> u64 \<Rightarrow> bool" where
  "in_storage base b x \<longleftrightarrow> unat (x - base) < 86016 + 2 * unat b"

definition copies_bounded :: "'b PumpEnv_scheme \<Rightarrow> bool" where
  "copies_bounded env \<longleftrightarrow> (\<forall>n src dst len m x. \<not> x - dst < ucast len \<longrightarrow> pump_copies env n src dst len m x = m x)"

lemma apart_storage:
  assumes "\<not> in_storage base b x" and "unat b < 2 ^ 32"
  shows "\<not> unat (x - (base + 65536)) < 16384" "\<not> x - (base + 81920) < 4"
    "\<not> unat (x - (base + 86016)) < unat b" "\<not> x - (base + 86016 + b) < b"
proof -
  define d where "d = x - base"
  have d: "86016 + 2 * unat b \<le> unat d" using assms(1) by (simp add: in_storage_def d_def)
  have off: "x - (base + k) = d - k" for k by (simp add: d_def)
  show "\<not> unat (x - (base + 65536)) < 16384" "\<not> x - (base + 81920) < 4" "\<not> unat (x - (base + 86016)) < unat b"
    unfolding off using d assms(2) unat64_less [of d] by (auto simp: word_less_nat_alt unat_diff64)
  have "unat (86016 + b) = 86016 + unat b" using assms(2) by (subst unat_add_small) simp_all
  then show "\<not> x - (base + 86016 + b) < b"
    unfolding off add.assoc using d assms(2) unat64_less [of d] by (auto simp: word_less_nat_alt unat_diff64)
qed

lemma fill_apart:
  fixes b :: u64
  assumes "\<not> unat (x - p) < unat b" and "unat b < 2 ^ 32"
  shows "fill p f (unat (b div 8)) m x = m x"
proof (rule fill_frame)
  show "\<not> in_slice p (unat (b div 8)) x"
  proof
    assume "in_slice p (unat (b div 8)) x"
    then have "unat (x - p) < 8 * unat (b div 8)" using assms(2) by (intro in_slice_bound) (simp_all add: unat_div)
    also have "8 * unat (b div 8) \<le> unat b" by (simp add: unat_div)
    finally show False using assms(1) by simp
  qed
qed

text \<open>The setup, whether it succeeds or fails at any point.\<close>

lemma setup_frame:
  assumes x: "\<not> in_storage (g_pump_storage_base s) b x" and b: "unat b < 2 ^ 32"
  shows "dk_mem (snd (pump_setup env b s)) x = dk_mem s x"
proof -
  note apart = apart_storage [OF x b]
  have load: "dk_mem (snd (pump_load_shader env (g_pump_storage_base s + 65536) 16384 t)) x = dk_mem t x" for t
    using apart(1) by (intro load_shader_mem) simp_all
  have src: "pump_src (snd (dk_create_all env plan t)) = g_pump_storage_base t + 86016"
    "pump_src (dk_create env obj p n t) = g_pump_storage_base t + 86016" for plan t obj p n
    by (simp_all add: pump_src_def pump_constants)
  have res: "pump_result (snd (pump_load_shader env p n t)) = g_pump_storage_base t + 81920" for p n t
    by (simp add: pump_result_def pump_constants add.commute)
  have fill: "fill (g_pump_storage_base s + 86016) f (unat (b div 8)) m x = m x" for f m
    using apart(3) b by (rule fill_apart)
  show ?thesis
    using apart(2)
    by (simp add: pump_setup_def Let_def split_beta pump_fill_pattern src res load fill store32_other pump_constants)
qed

text \<open>One batch, with any result of the copies in their destination, and the dispatch.\<close>

lemma batch_frame:
  assumes x: "\<not> in_storage (g_pump_storage_base s) b x" and b: "4096 dvd unat b" "unat b < 2 ^ 32"
    and copies: "copies_bounded env"
  shows "dk_mem (pump_batch env b n s) x = dk_mem s x"
proof -
  note apart = apart_storage [OF x b(2)]
  let ?src = "pump_src s" and ?res = "pump_result s"
  let ?n = "unat (num_groups (pump_commands b)) * unat NXMT_GPU_PUMP_LOCAL_X"
  let ?m = "pump_copies env n ?src (?src + b) (ucast b) (store32 (dk_mem s) ?res 0)"
  have places: "?src = g_pump_storage_base s + 86016" "?res = g_pump_storage_base s + 81920"
    by (simp_all add: pump_src_def pump_result_def pump_constants add.commute)
  have "unat (ucast b :: u32) = unat b" using b(2) by (simp add: unsigned_ucast_eq take_bit_nat_eq_self)
  then have len: "ucast (ucast b :: u32) = b" by (simp only: word_eq_iff_unat unat_ucast_32_64)
  have res: "\<not> x - ?res < 4" using apart(2) by (simp only: places not_False_eq_True)
  have "\<not> x - (?src + b) < ucast (ucast b :: u32)" unfolding places len by (rule apart(4))
  then have "?m x = store32 (dk_mem s) ?res 0 x" using copies by (simp add: copies_bounded_def)
  also have "\<dots> = dk_mem s x" using res by (rule store32_other)
  finally have m: "?m x = dk_mem s x" .
  have "dispatch_verify (num_groups (pump_commands b)) ?src (?src + b) ?res ?m
      = fold (gpu_verify_main ?src (?src + b) ?res) [0..<?n] ?m"
    by (simp add: dispatch_verify_def for_by_one [simplified])
  moreover have "16 * ?n = unat b" by (rule dispatch_covers [OF b])
  ultimately have "dispatch_verify (num_groups (pump_commands b)) ?src (?src + b) ?res ?m x = ?m x"
    using dispatch_result [of ?n ?src ?res "?src + b" ?m] pump_apart [OF b(2)] res by simp
  then show ?thesis using m by (simp add: pump_batch_def Let_def pump_commands_def dk_wait_idle_def)
qed

lemma iter_frame:
  assumes "\<not> in_storage (g_pump_storage_base s) b x" and "4096 dvd unat b" "unat b < 2 ^ 32" and "copies_bounded env"
  shows "dk_mem (pump_iter env b s n) x = dk_mem s x"
  using assms by (induction n) (simp_all add: batch_frame)

lemma teardown_mem [simp]: "dk_mem (pump_teardown s) = dk_mem s"
  by (simp add: pump_teardown_def Let_def dk_wait_idle_def)

section \<open>The carved region\<close>

lemma past_end: "unat d < unat c \<Longrightarrow> unat c + n < 2 ^ 64 \<Longrightarrow> n \<le> unat (d - c)" for c d :: u64
  by (simp add: unat_diff64)

lemma carved_pump:
  assumes "gpu_pump_active (carve_gpu_region env arena mode seed cpu_map g)"
  defines "cv \<equiv> carve_gpu_region env arena mode seed cpu_map g"
  shows "align_page (g_pump_buffer_bytes (pump_globals cv)) = 0x4000000"
    and "under_test (cpu_arena cv) x \<Longrightarrow> \<not> in_storage (g_pump_storage_base (pump_globals cv)) 0x4000000 x"
    and "\<not> dk_error_seen (pump_globals cv)"
proof -
  let ?c = "a_size arena - 0x10000000"
  obtain g' where cv: "cpu_arena cv = arena\<lparr>a_size := ?c, a_words := ?c div 8\<rparr>" "pump_globals cv = g'"
    and start: "nxmt_gpu_pump_start env (a_base arena + ?c) 0x10000000 0x4000000 seed True (Some 0) (Some 0) (Some 0) g
      = (True, g')" and big: "0x40000000 \<le> a_size arena"
    using assms(1) unfolding cv_def by (cases rule: carve_cases [of env arena mode seed cpu_map g]) simp_all
  have al: "align_page 0x4000000 = 0x4000000" by (rule align_page_aligned) simp_all
  from start have g': "g_pump_buffer_bytes g' = 0x4000000" "g_pump_storage_base g' = a_base arena + ?c" "\<not> dk_error_seen g'"
    by (auto simp: nxmt_gpu_pump_start_def Let_def al split: if_splits)
  show "align_page (g_pump_buffer_bytes (pump_globals cv)) = 0x4000000" by (simp add: cv(2) g'(1) al)
  show "\<not> dk_error_seen (pump_globals cv)" by (simp add: cv(2) g'(3))
  assume "under_test (cpu_arena cv) x"
  then have "in_slice (a_base arena) (unat (?c div 8)) x" by (simp add: under_test_def cv(1))
  moreover have "unat (?c div 8) \<le> 2 ^ 61" using unat64_less [of ?c] by (simp add: unat_div)
  ultimately have "unat (x - a_base arena) < 8 * unat (?c div 8)" by (rule in_slice_bound)
  also have "\<dots> \<le> unat ?c" by (simp add: unat_div)
  finally have "unat (x - a_base arena) < unat ?c" .
  moreover have "unat ?c + 0x10000000 < 2 ^ 64"
    using unat_gib [OF big] big unat64_less [of "a_size arena"] by (simp add: word_le_nat_alt)
  ultimately have "0x10000000 \<le> unat (x - a_base arena - ?c)" by (rule past_end)
  moreover have "x - (a_base arena + ?c) = x - a_base arena - ?c" by simp
  ultimately have "0x10000000 \<le> unat (x - (a_base arena + ?c))" by (simp only:)
  then show "\<not> in_storage (g_pump_storage_base (pump_globals cv)) 0x4000000 x"
    by (simp add: in_storage_def cv(2) g'(2))
qed

section \<open>Properties\<close>

text \<open>
  Property C13.  The pump is no danger to the workers: when a run has carved its region, everything the pump thread does
  is a move \<open>Elsewhere\<close> of the threads on the shared memory: its setup, however it ends, and every batch, however
  many there have been; the thread as a whole leaves every byte under test as it was.  A copy is taken to write
  nothing but its destination.
\<close>

theorem pump_spares_workers:
  fixes se arena mode dur
  defines "env \<equiv> se_pump se" and "rs \<equiv> session_setup se arena mode dur"
    and "g \<equiv> pump_globals (session_carve se arena mode)"
  defines "b \<equiv> align_page (g_pump_buffer_bytes g)"
  assumes active: "gpu_pump_active (session_carve se arena mode)"
    and copies: "copies_bounded env" and stop: "pump_stop env t"
  shows "(\<forall>neon p c. conc_step neon rs p c Elsewhere
        (c\<lparr>cf_mem := dk_mem (snd (pump_setup env b (g\<lparr>dk_mem := cf_mem c\<rparr>)))\<rparr>))
    \<and> (\<forall>neon p c s n. g_pump_storage_base s = g_pump_storage_base g \<longrightarrow>
        conc_step neon rs p c Elsewhere (c\<lparr>cf_mem := dk_mem (pump_batch env b n (s\<lparr>dk_mem := cf_mem c\<rparr>))\<rparr>))
    \<and> (\<exists>g'. pump_thread_entry env g = Some g' \<and> (\<forall>x. under_test (rs_arena rs) x \<longrightarrow> dk_mem g' x = dk_mem g x))"
proof -
  note region = carved_pump [OF active [unfolded session_carve_def], folded session_carve_def, folded g_def]
  have b: "b = 0x4000000" unfolding b_def by (rule region(1))
  have size: "4096 dvd unat b" "unat b < 2 ^ 32" by (simp_all add: b)
  have out: "\<not> in_storage (g_pump_storage_base g) b x" if "under_test (rs_arena rs) x" for x
    using that region(2) [of x] by (simp add: rs_def session_setup_def b)
  have "conc_step neon rs p c Elsewhere (c\<lparr>cf_mem := dk_mem (snd (pump_setup env b (g\<lparr>dk_mem := cf_mem c\<rparr>)))\<rparr>)" for neon p c
    by (rule elsewhere) (simp add: setup_frame [OF _ size(2)] out)
  moreover have "conc_step neon rs p c Elsewhere (c\<lparr>cf_mem := dk_mem (pump_batch env b n (s\<lparr>dk_mem := cf_mem c\<rparr>))\<rparr>)"
    if "g_pump_storage_base s = g_pump_storage_base g" for neon p c s n
    by (rule elsewhere) (simp add: batch_frame [OF _ size copies] out that)
  moreover have "\<exists>g'. pump_thread_entry env g = Some g' \<and> (\<forall>x. under_test (rs_arena rs) x \<longrightarrow> dk_mem g' x = dk_mem g x)"
  proof (cases "fst (pump_setup env b g)")
    case False
    then show ?thesis by (simp add: pump_thread_entry_def Let_def split_beta b_def [symmetric] setup_frame [OF _ size(2)] out)
  next
    case True
    from pump_ends_exists [OF stop] obtain n where n: "pump_ends env n" by blast
    have "dk_mem (pump_iter env b (snd (pump_setup env b g)\<lparr>g_pump_init_done := True\<rparr>) n) x = dk_mem g x"
      if "under_test (rs_arena rs) x" for x
      using out [OF that] by (simp add: iter_frame [OF _ size copies] setup_frame [OF _ size(2)] setup_globals)
    then show ?thesis using thread_ok [OF True [unfolded b_def] n] by (simp add: b_def)
  qed
  ultimately show ?thesis by blast
qed

text \<open>A run in mode \<open>EXTREME\<close> on 1 GiB with three cores and a faultless copy engine.\<close>

definition demo_load :: SessionEnv where
  "demo_load = (demo_session 2)\<lparr>se_pump := demo_pump\<lparr>pump_copies := (\<lambda>_. demo_copy)\<rparr>\<rparr>"

definition demo_gib :: NxmtArena where
  "demo_gib = \<lparr>a_base = 0x10000, a_size = 0x40000000, a_words = 0x8000000\<rparr>"

lemma demo_load_active: "gpu_pump_active (session_carve demo_load demo_gib NXMT_MODE_EXTREME)"
proof -
  let ?env = "demo_pump\<lparr>pump_copies := (\<lambda>_. demo_copy)\<rparr>"
  have al: "align_page 0x4000000 = 0x4000000" by (rule align_page_aligned) simp_all
  have rc: "pump_threadCreate ?env = 0" "pump_threadStart ?env = 0" by (simp_all add: demo_pump_def)
  have "fst (nxmt_gpu_pump_start ?env 0x30010000 0x10000000 0x4000000 seed True (Some 0) (Some 0) (Some 0) g)" for seed g
    by (simp add: nxmt_gpu_pump_start_def Let_def al pump_constants rc R_FAILED_def demo_pump_makes)
  then show ?thesis
    by (simp add: session_carve_def demo_load_def demo_session_def demo_cores carve_gpu_region_def loads_bus_def
        demo_gib_def Let_def split_beta)
qed

theorem pump_spares_workers_witness:
  "\<exists>g'. pump_thread_entry (se_pump demo_load) (pump_globals (session_carve demo_load demo_gib NXMT_MODE_EXTREME)) = Some g'
    \<and> dk_mem g' 0x10000 = dk_mem (pump_globals (session_carve demo_load demo_gib NXMT_MODE_EXTREME)) 0x10000"
proof -
  have "copies_bounded (se_pump demo_load)" "pump_stop (se_pump demo_load) 3"
    by (simp_all add: copies_bounded_def demo_load_def demo_copy_def) (simp add: demo_pump_def)
  note spares = pump_spares_workers [OF demo_load_active this, of 0]
  have "under_test (rs_arena (session_setup demo_load demo_gib NXMT_MODE_EXTREME 0)) 0x10000"
    using demo_load_active
    by (cases rule: carve_cases [of "se_pump demo_load" demo_gib NXMT_MODE_EXTREME "se_seed demo_load"
          "worker_cpu_map (se_core_mask demo_load)" "se_pump_globals demo_load"])
      (simp_all add: session_setup_def session_carve_def under_test_def in_slice_def widx_def demo_gib_def exI [of _ 0])
  with conjunct2 [OF conjunct2 [OF spares]] show ?thesis by blast
qed

end
