(* ===== verification/Files.thy ===== *)
theory Files
  imports Session_Main
begin

text \<open>
  The files the program leaves on the SD card: the report of a run, the stage it has got to and the trail of the
  GPU pump (\<^verbatim>\<open>source/nx/platform_nx.c\<close>, \<^verbatim>\<open>pump_log\<close> of \<^verbatim>\<open>source/nx/gpu_pump.c\<close>,
  \<^verbatim>\<open>source/core/startup.c\<close>).  What the file calls return is the record \<open>FileEnv\<close>; the files are a map from paths
  to their contents.
\<close>

type_synonym Files = "string \<rightharpoonup> string"

text \<open>
  \<open>fe_fwrite\<close> is the number of characters a stream takes, \<open>fe_sd_write\<close> whether a write to a file of the
  file-system service succeeds, and \<open>fe_blank\<close> what a created file of 512 bytes holds.
\<close>

record FileEnv =
  fe_fopen :: "string \<Rightarrow> bool"
  fe_fwrite :: nat
  fe_sd_open :: u32
  fe_sd_create :: u32
  fe_sd_open_file :: u32
  fe_sd_write :: bool
  fe_blank :: string

definition nxmt_platform_write_report :: "FileEnv \<Rightarrow> string \<Rightarrow> Files \<Rightarrow> bool \<times> Files" where
  "nxmt_platform_write_report env text fs =
     (if \<not> fe_fopen env NXMT_LOG_PATH then (False, fs)
      else
        let len = length text;
            written = min (fe_fwrite env) len
        in (written = len, fs(NXMT_LOG_PATH \<mapsto> take written text)))"

definition boot_stage_path :: string where
  "boot_stage_path = ''sdmc:/switch/NX-MemTest/logs/boot_stage.txt''"

definition stage_text :: "string \<Rightarrow> string" where
  "stage_text stage = ''stage='' @ stage @ [newline]"

text \<open>Through the standard library, or else through the file-system service with a block of 512 bytes.\<close>

definition nxmt_platform_debug_stage :: "FileEnv \<Rightarrow> string \<Rightarrow> Files \<Rightarrow> Files" where
  "nxmt_platform_debug_stage env stage fs =
     (if fe_fopen env boot_stage_path
      then fs(boot_stage_path \<mapsto> take (fe_fwrite env) (stage_text stage))
      else if R_FAILED (fe_sd_open env) then fs
      else
        let fs = (if R_FAILED (fe_sd_create env) then fs else fs(boot_stage_path \<mapsto> fe_blank env))
        in if R_FAILED (fe_sd_open_file env) then fs
           else
             let text = snprintf 511 (stage_text stage);
                 text = text @ replicate (512 - length text) (CHR 0x00)
             in if fe_sd_write env
                then fs(boot_stage_path \<mapsto> text @ drop 512 (case fs boot_stage_path of None \<Rightarrow> [] | Some old \<Rightarrow> old))
                else fs)"

definition NXMT_GPU_PUMP_LOG_PATH :: string where
  "NXMT_GPU_PUMP_LOG_PATH = ''sdmc:/switch/NX-MemTest/logs/gpu_pump.txt''"

definition pump_log :: "FileEnv \<Rightarrow> string \<Rightarrow> Files \<Rightarrow> Files" where
  "pump_log env msg fs =
     (if \<not> fe_fopen env NXMT_GPU_PUMP_LOG_PATH then fs
      else fs(NXMT_GPU_PUMP_LOG_PATH \<mapsto>
        (case fs NXMT_GPU_PUMP_LOG_PATH of None \<Rightarrow> [] | Some old \<Rightarrow> old) @ take (fe_fwrite env) (msg @ [newline])))"

text \<open>The build flag that is meant to govern the diagnostics; the code above does not ask it.\<close>

definition nxmt_startup_file_diagnostics_enabled :: "bool \<Rightarrow> bool" where
  "nxmt_startup_file_diagnostics_enabled NXMT_ENABLE_BOOT_FILE_DIAGNOSTICS =
     (if NXMT_ENABLE_BOOT_FILE_DIAGNOSTICS then True else False)"

text \<open>The end of a run: the report goes to the log, and whether it did to the screen.\<close>

definition session_log :: "FileEnv \<Rightarrow> NxmtArena \<Rightarrow> NxmtPlatformMemory \<Rightarrow> RunResult \<Rightarrow> Files \<Rightarrow> bool \<times> Files" where
  "session_log env arena memory r fs = nxmt_platform_write_report env (result_report arena memory r) fs"

section \<open>Reading back\<close>

text \<open>The stage file holds the stage, whichever way it was written.\<close>

lemma debug_stage_readable:
  assumes "length stage \<le> 500" and "if fe_fopen env boot_stage_path then 512 \<le> fe_fwrite env
      else fe_sd_open env = 0 \<and> fe_sd_open_file env = 0 \<and> fe_sd_write env"
    and "CHR 0x00 \<notin> set stage"
  shows "map_option (takeWhile (\<lambda>c. c \<noteq> CHR 0x00)) (nxmt_platform_debug_stage env stage fs boot_stage_path)
    = Some (stage_text stage)"
proof -
  have stop: "takeWhile (\<lambda>c. c \<noteq> CHR 0x00) (stage_text stage @ ys) = stage_text stage"
    if "ys = [] \<or> hd ys = CHR 0x00" for ys
    using that assms(3) by (subst takeWhile_append2) (auto simp: stage_text_def takeWhile_eq_Nil_iff)
  show ?thesis
  proof (cases "fe_fopen env boot_stage_path")
    case True
    then show ?thesis using assms stop [of "[]"] by (simp add: nxmt_platform_debug_stage_def stage_text_def)
  next
    case False
    have "length (stage_text stage) < 511" using assms(1) by (simp add: stage_text_def)
    with False assms(2) show ?thesis
      by (simp add: nxmt_platform_debug_stage_def Let_def R_FAILED_def stop hd_append)
  qed
qed

section \<open>Properties\<close>


definition demo_files :: FileEnv where
  "demo_files = \<lparr>fe_fopen = (\<lambda>_. True), fe_fwrite = 4096, fe_sd_open = 0, fe_sd_create = 0, fe_sd_open_file = 0,
     fe_sd_write = True, fe_blank = []\<rparr>"


end
