(* ===== verification/Spec2Isabelle.thy ===== *)
theory Spec2Isabelle
  imports Workers Pattern_Props Platform Gpu_Bench Menu Filler Tui Session_Main Concurrent Pump_Region Files
begin

text \<open>
  NX-MemTest is a memory tester for a games console.  A pass writes a deterministic pattern
  over a slice of a large arena, reads it back and records every word that differs; several
  workers share the arena, one slice each; the front end chooses a mode, runs passes and
  reports a status.  This development models the C code under \<^verbatim>\<open>src/source\<close> and proves what the
  status and the report mean.

  \<^bold>\<open>Theories.\<close>
  \<^item> \<open>Base\<close>: the enumerations and sizes of \<^verbatim>\<open>types.h\<close>, word lemmas, the counting loop \<open>for_by\<close>.
  \<^item> \<open>Memory\<close>: memory as a map from 64-bit addresses to bytes, with little-endian 8-byte loads and
    stores; the locale \<open>word_memory\<close> with its laws, interpreted on the model.
  \<^item> \<open>Neon\<close>: the two-lane vector intrinsics the code uses.
  \<^item> \<open>Patterns\<close>, \<open>Pattern_Props\<close>: \<^verbatim>\<open>core/patterns.c\<close> and what makes its patterns useful.
  \<^item> \<open>Chunk_Write\<close>, \<open>Chunk_Verify\<close>: \<^verbatim>\<open>nxmt_write_chunk\<close> and \<^verbatim>\<open>nxmt_verify_chunk\<close> of
    \<^verbatim>\<open>core/runner.c\<close>, vector and scalar loops, each proved equal to the plain loop over
    \<^verbatim>\<open>nxmt_expected_value\<close>.
  \<^item> \<open>Report\<close>: \<^verbatim>\<open>core/report.c\<close>, refined to the list of recorded errors (locale \<open>error_log\<close>).
  \<^item> \<open>Arena\<close>: \<^verbatim>\<open>core/arena.c\<close> (locale \<open>block_partition\<close> for the slices).
  \<^item> \<open>Runner\<close>: phases and the pass; \<open>Pass_Contract\<close> states what a phase keeps as the locale
    \<open>pass_contract\<close>, and \<open>Pass_Sound\<close>, \<open>Pass_Healthy\<close>, \<open>Pass_Detect\<close>, \<open>Pass_Frame\<close> interpret
    it for soundness, healthy memory, faults and the frame.
  \<^item> \<open>Workers\<close>: contexts, entry, merge and core choice of \<^verbatim>\<open>nx/main.c\<close>.
  \<^item> \<open>Platform\<close>: the heap set-up and the memory description of \<^verbatim>\<open>nx/platform_nx.c\<close>.
  \<^item> \<open>Deko\<close>: what the GPU files share, the deko3d objects with a trace of their lifetimes;
    \<open>Gpu_Pump\<close>: \<^verbatim>\<open>nx/gpu_pump.c\<close> with its shader \<^verbatim>\<open>gpu_verify.glsl\<close> (\<open>Pump_Thread\<close>: its
    thread from start to end); \<open>Gpu_Bench\<close>: \<^verbatim>\<open>nx/gpu_bench.c\<close> and the sweep of the benchmark screen.
  \<^item> \<open>Filler\<close>: \<^verbatim>\<open>nx/cpu_filler.c\<close>.
  \<^item> \<open>Menu\<close>: the mode and duration menus of \<^verbatim>\<open>nx/main.c\<close>, on the frames of input they read.
  \<^item> \<open>Text\<close>, \<open>Tui\<close>: the names, number formats and lines of the screen and of the report, as strings.
  \<^item> \<open>Session\<close>: \<^verbatim>\<open>main\<close> itself: the region given to the GPU, the passes with their monitor, the
    single-worker fallback, the final status, the loop over menu and run; \<open>Session_Verdict\<close>,
    \<open>Session_Healthy\<close>, \<open>Session_Main\<close>: what runs leave behind, runs on healthy memory, and whole runs.
  \<^item> \<open>Concurrent\<close>: the worker threads of a pass interleaved on one memory, as a step relation, refined to the
    passes of \<open>Session\<close>.
  \<^item> \<open>Pump_Region\<close>: the pump's thread beside them: what it writes, and that none of it is under test.
  \<^item> \<open>Files\<close>: the report, stage and pump files of \<^verbatim>\<open>nx/platform_nx.c\<close> and \<^verbatim>\<open>nx/gpu_pump.c\<close>.
  \<^item> \<open>Spec2Isabelle\<close>: the properties of whole passes.

  \<^bold>\<open>How the parts interact.\<close>  \<open>main\<close> takes the arena from the platform and the mode and duration from
  the menus (\<open>mode_select_loop\<close>); \<open>run_session\<close> carves the pump's region (\<open>carve_gpu_region\<close>, which calls
  \<open>nxmt_gpu_pump_start\<close>), runs \<open>nxmt_worker_entry\<close> once per worker and pass (\<open>run_one_pass\<close>), merges
  the contexts (\<open>merge_worker_contexts\<close>), and joins the status with the pump's error count
  (\<open>final_status\<close>).  The theorems are composed the same way: what a pass records is proved in
  \<open>Pass_Sound\<close>, carried through the merge in \<open>Workers\<close>, and through the passes of a run in \<open>Session_Verdict\<close>.

  \<^bold>\<open>State.\<close>  \<open>RunState\<close> holds what a pass reaches through its pointers: the memory, the progress
  counter, the report, the statistics, the local pressure value and the number of polls made so far.
  Other threads, the user and the hardware are an environment \<open>Env\<close>: at every poll of the stop flag
  \<open>env_drift\<close> may change the memory and \<open>env_stop\<close> gives the flag.  The accesses of one chunk are
  therefore atomic with respect to the environment; a chunk is at most 131072 words, and nothing is
  assumed of the environment unless a theorem says so.  The GPU files have their static variables as
  a record over the deko3d state; deko3d is outside the repository, so the results of its calls and
  the bytes its submitted copies leave are parameters (\<open>PumpEnv\<close>, \<open>BenchEnv\<close>).  A run has a \<open>Session\<close>
  (the totals, the stop flag, what was drawn) and reads a list of \<open>Tick\<close>s and \<open>PassEnv\<close>s: what the
  monitor and the passes find of the clock, the user and the other threads.  \<open>Concurrent\<close> justifies the
  environments: it runs the threads on a shared memory (\<open>Conf\<close>), one step from poll to poll at a time in any
  order, and builds from an execution the environment of each worker; the pump is one of its other
  writers (\<open>Pump_Region\<close>).

  \<^bold>\<open>Bounds.\<close>  Words are 64 bits wide and wrap as in the code.  An arena has fewer than 2^61 words,
  since its size in bytes is a 64-bit number.  The chunked loop is a \<open>partial_function\<close>; it returns
  for every count of at most 2^64 - 131072 words, which every arena satisfies.  The loops of the pump
  and of the filler are \<open>partial_function\<close>s too, and end when the stop flag is seen; lists of frames
  and ticks that are used up give \<open>None\<close>, the program still running.

  \<^bold>\<open>Not modelled.\<close>  Printing on the console is output: the lines are strings here, and that they reach
  the screen is not stated; so are the diagnostic messages on the way of the pump and of the set-up (only where
  and how they are written, in \<open>Files\<close>).  libnx and deko3d are not in the repository: what their calls
  return is a parameter everywhere.  The tests are left out.
\<close>

unbundle bit_operations_syntax

section \<open>Concrete instances\<close>

text \<open>A small arena, a configuration and environments for the witnesses.\<close>

definition demo_arena :: NxmtArena where
  "demo_arena = \<lparr>a_base = 0x10000, a_size = 4096, a_words = 512\<rparr>"

definition demo_config :: "NxmtMode \<Rightarrow> bool \<Rightarrow> NxmtRunConfig" where
  "demo_config mode inject = \<lparr>c_mode = mode, c_seed = 7, c_pass = 1, c_worker_id = 1, c_worker_count = 2,
     inject_mismatch = inject, has_stop_requested = True, has_progress_bytes = True\<rparr>"

definition demo_env :: "(nat \<Rightarrow> mem \<Rightarrow> mem) \<Rightarrow> Env" where
  "demo_env drift = \<lparr>env_neon = True, env_stop = (\<lambda>_. False), env_drift = drift\<rparr>"

definition demo_state :: RunState where
  "demo_state = \<lparr>w_mem = (\<lambda>_. 0), w_progress = 0, w_polls = 0, w_pressure = 0,
     w_report = \<lparr>has_first_error = False, first = mk_error NXMT_MODE_QUICK NXMT_PHASE_FIXED_A 0 0 0 0 0 0,
       error_count = 0, min_error_offset = 0, max_error_offset = 0, bit_diff_or = 0\<rparr>,
     w_stats = \<lparr>bytes_written = 0, bytes_verified = 0, pressure_checksum = 0, current_phase = NXMT_PHASE_FIXED_A\<rparr>\<rparr>"

lemma demo_valid: "valid_args demo_arena (demo_config mode inject)"
  by (simp add: valid_args_def demo_arena_def demo_config_def aligned8_def)

lemma demo_words: "unat (a_words demo_arena) < 2 ^ 61"
  by (simp add: demo_arena_def)

lemma demo_slice:
  "slice_start demo_arena (demo_config mode inject) = 256"
  "slice_count demo_arena (demo_config mode inject) = 256"
  by (simp_all add: demo_arena_def demo_config_def nxmt_split_block_start_def nxmt_split_block_size_def
      word_le_nat_alt word_less_nat_alt)

lemma demo_keeps: "x \<noteq> a \<Longrightarrow> keeps (demo_env (\<lambda>_ m. m(a := v))) x"
  by (simp add: keeps_def demo_env_def)

lemma demo_quiet: "quiet (demo_env (\<lambda>_ m. m)) config p n"
  by (simp add: quiet_def kept_def stoppable_def demo_env_def keeps_def)

text \<open>Another worker that keeps writing in its own slice.\<close>

lemma demo_busy: "quiet_slice (demo_env (\<lambda>_ m. m(0x10000 := 9))) demo_arena (demo_config mode inject)"
proof -
  let ?c = "demo_config mode inject"
  have split: "nxmt_split_block_start (a_words demo_arena) (c_worker_count ?c) 0 = 0"
    "nxmt_split_block_size (a_words demo_arena) (c_worker_count ?c) 0 = 256"
    by (simp_all add: demo_arena_def demo_config_def nxmt_split_block_start_def nxmt_split_block_size_def
        word_less_nat_alt word_le_nat_alt)
  have "\<not> in_slice (slice_base demo_arena ?c) (unat (slice_count demo_arena ?c)) 0x10000"
    using slices_disjoint [OF demo_words, where config = ?c and j = 0 and k = 0 and i = 0] demo_valid [of mode inject]
    unfolding split by (simp add: valid_args_def) (simp add: demo_arena_def demo_config_def)
  then have "x \<noteq> 0x10000" if "in_slice (slice_base demo_arena ?c) (unat (slice_count demo_arena ?c)) x" for x
    using that by auto
  then show ?thesis by (auto simp: quiet_def kept_def stoppable_def demo_env_def keeps_def)
qed

lemma demo_not_stoppable: "\<not> stoppable (demo_env drift) config"
  by (simp add: stoppable_def demo_env_def)

section \<open>The pass\<close>



text \<open>
  Property C6.  When the worker's own slice keeps what is written there, with no stop request
  and no injected mismatch, and whatever happens to the rest of the memory meanwhile (the
  other workers write there), every pass of every mode, with or without vector instructions,
  returns \<open>PASS\<close> and leaves the report as it was; it has written and verified every byte of
  its slice once per phase, added exactly that to the progress counter, and touched no other
  byte.  The
  pressure checksum is then the seed exclusive-ored with the worker id in every mode: the
  contributions of the write and the verify half cancel.
\<close>

theorem healthy_pass:
  assumes quiet: "quiet_slice env arena config" and words: "unat (a_words arena) < 2 ^ 61"
    and valid: "valid_args arena config" and inject: "\<not> inject_mismatch config"
  shows "\<exists>s'. nxmt_runner_run_pass env (Some arena) (Some config) True True s = Some (NXMT_STATUS_PASS, s')
    \<and> w_report s' = w_report s
    \<and> w_stats s' = \<lparr>bytes_written = of_nat (phases_of config) * (slice_count arena config * 8),
        bytes_verified = of_nat (phases_of config) * (slice_count arena config * 8),
        pressure_checksum = c_seed config XOR ucast (c_worker_id config),
        current_phase = nth_phase config (phases_of config - 1)\<rparr>
    \<and> w_progress s' = w_progress s + (if has_progress_bytes config
        then of_nat (2 * phases_of config) * (slice_count arena config * 8) else 0)
    \<and> (\<forall>x. keeps env x \<longrightarrow> \<not> in_slice (slice_base arena config) (unat (slice_count arena config)) x
        \<longrightarrow> w_mem s' x = w_mem s x)"
proof -
  have "kept_slice env arena config" "\<not> stoppable env config" using quiet by (simp_all add: quiet_def)
  with healthy.pass_returns [OF conjI [OF _ words] valid, of env s] obtain st s' where
    run: "nxmt_runner_run_pass env (Some arena) (Some config) True True s = Some (st, set_checksum s')"
    and inv: "quiet_inv env arena config (start_state config s) (phases_of config) s'"
    and st: "st = (if error_count (w_report s') \<noteq> error_count (w_report s)
                 then NXMT_STATUS_FAIL else NXMT_STATUS_PASS)"
    by (auto simp: quiet_stop_def)
  have "phases_of config \<noteq> 0"
    by (simp add: nxmt_phase_count_for_mode_def quick_phases_def memory_load_phases_def)
  with inv inject have "w_report s' = w_report s"
    and "w_stats (set_checksum s') = \<lparr>bytes_written = of_nat (phases_of config) * (slice_count arena config * 8),
        bytes_verified = of_nat (phases_of config) * (slice_count arena config * 8),
        pressure_checksum = c_seed config XOR ucast (c_worker_id config),
        current_phase = nth_phase config (phases_of config - 1)\<rparr>"
    unfolding quiet_inv_def
    by (simp_all add: injected_def start_state_def set_checksum_def)
  with run st inv show ?thesis
    unfolding quiet_inv_def
    by (intro exI [of _ "set_checksum s'"]) (auto simp: start_state_def set_checksum_def)
qed

theorem healthy_pass_witness:
  "\<exists>s'. nxmt_runner_run_pass (demo_env (\<lambda>_ m. m(0x10000 := 9))) (Some demo_arena)
      (Some (demo_config NXMT_MODE_EXTREME False)) True True demo_state = Some (NXMT_STATUS_PASS, s')
    \<and> w_report s' = w_report demo_state \<and> pressure_checksum (w_stats s') = 6"
proof -
  from healthy_pass [OF demo_busy demo_words demo_valid, of NXMT_MODE_EXTREME False demo_state]
  obtain s' where "nxmt_runner_run_pass (demo_env (\<lambda>_ m. m(0x10000 := 9))) (Some demo_arena)
      (Some (demo_config NXMT_MODE_EXTREME False)) True True demo_state = Some (NXMT_STATUS_PASS, s')"
    "w_report s' = w_report demo_state"
    "pressure_checksum (w_stats s') = c_seed (demo_config NXMT_MODE_EXTREME False)
       XOR ucast (c_worker_id (demo_config NXMT_MODE_EXTREME False))"
    by (auto simp: demo_config_def)
  then show ?thesis by (auto simp: demo_config_def)
qed

text \<open>
  Property C4.  A stuck bit is found: if some bit of some word of the slice always reads the
  same value, an uninterrupted Memory Load or Extreme pass returns \<open>FAIL\<close>, and an error at
  that word's offset whose difference has that bit is recorded.
\<close>

theorem stuck_bit_detected:
  assumes words: "unat (a_words arena) < 2 ^ 61" and valid: "valid_args arena config"
    and nostop: "\<not> stoppable env config" and mode: "c_mode config \<noteq> NXMT_MODE_QUICK"
    and k: "k < unat (slice_count arena config)" and b: "b < 64"
    and stuck: "stuck_bit env (word_addr arena config k) b v"
  shows "\<exists>s' es. nxmt_runner_run_pass env (Some arena) (Some config) True True s = Some (NXMT_STATUS_FAIL, s')
    \<and> w_report s' = record_all es (w_report s)
    \<and> (\<exists>e \<in> set es. e_offset e = (slice_start arena config + of_nat k) * 8 \<and> bit (e_xor_diff e) b)"
proof -
  let ?ph = "if v = odd b then NXMT_PHASE_FIXED_5 else NXMT_PHASE_FIXED_A"
  from defect.pass_detects [OF TrueI words nostop valid, of s] obtain st s' es where
    run: "nxmt_runner_run_pass env (Some arena) (Some config) True True s = Some (st, s')"
      "w_report s' = record_all es (w_report s)"
    and seen: "\<forall>i < phases_of config. \<forall>k < unat (slice_count arena config).
      wrong_word env arena config (nth_phase config i) k \<longrightarrow> reports_word env arena config (nth_phase config i) es k"
    and st: "st = (if es \<noteq> [] then NXMT_STATUS_FAIL else NXMT_STATUS_PASS)" by blast
  from fixed_phases_of_load [OF mode] obtain i where i: "i < phases_of config" "nth_phase config i = ?ph"
    by blast
  have "wrong_word env arena config (nth_phase config i) k"
    unfolding i(2) by (rule stuck_bit_wrong [OF stuck b])
  with seen i(1) k have "reports_word env arena config (nth_phase config i) es k" by blast
  then have "reports_word env arena config ?ph es k" unfolding i(2) .
  then obtain t m where e: "word_error config ?ph (slice_start arena config) k
      (load64 (env_drift env t m) (word_addr arena config k)) \<in> set es" (is "?e \<in> _")
    unfolding reports_word_def by blast
  have "bit (load64 (env_drift env t m) (word_addr arena config k)) b = v"
    using stuck by (simp add: stuck_bit_def)
  then have "bit (e_xor_diff ?e) b"
    using fixed_pattern_bits [OF b]
    by (auto simp: word_error_def mk_error_def bit_simps nxmt_expected_value_def)
  moreover have "e_offset ?e = (slice_start arena config + of_nat k) * 8"
    by (simp add: word_error_def mk_error_def)
  moreover have "st = NXMT_STATUS_FAIL" using st e by auto
  ultimately show ?thesis using run e by blast
qed

text \<open>Bit 3 of word 5 of the slice forced to one after every step.\<close>

definition stuck_drift :: "nat \<Rightarrow> mem \<Rightarrow> mem" where
  "stuck_drift t m = store64 m 0x10828 (load64 m 0x10828 OR 8)"

theorem stuck_bit_detected_witness:
  "\<exists>s' es. nxmt_runner_run_pass (demo_env stuck_drift) (Some demo_arena)
      (Some (demo_config NXMT_MODE_MEMORY_LOAD False)) True True demo_state = Some (NXMT_STATUS_FAIL, s')
    \<and> w_report s' = record_all es (w_report demo_state)
    \<and> (\<exists>e \<in> set es. e_offset e = 2088 \<and> bit (e_xor_diff e) 3)"
proof -
  let ?c = "demo_config NXMT_MODE_MEMORY_LOAD False"
  have addr: "word_addr demo_arena ?c 5 = 0x10828"
    by (simp add: demo_slice widx_def) (simp add: demo_arena_def)
  have "bit (8 :: u64) 3" by code_simp
  then have "stuck_bit (demo_env stuck_drift) (word_addr demo_arena ?c 5) 3 True"
    unfolding addr stuck_bit_def by (simp add: demo_env_def stuck_drift_def bit_or_iff)
  moreover have "c_mode ?c \<noteq> NXMT_MODE_QUICK" by (simp add: demo_config_def)
  ultimately show ?thesis
    using stuck_bit_detected [OF demo_words demo_valid demo_not_stoppable, of NXMT_MODE_MEMORY_LOAD False 5 3
        stuck_drift True demo_state]
    by (simp add: demo_slice)
qed

text \<open>
  Property C19.  A defective address line is found: if one word of the slice always reads what
  was last stored at another word of the slice, an uninterrupted pass of any mode returns
  \<open>FAIL\<close>.
\<close>

theorem address_alias_detected:
  assumes words: "unat (a_words arena) < 2 ^ 61" and valid: "valid_args arena config"
    and nostop: "\<not> stoppable env config" and aliased: "aliased env arena config"
  shows "\<exists>s' es. nxmt_runner_run_pass env (Some arena) (Some config) True True s = Some (NXMT_STATUS_FAIL, s')
    \<and> w_report s' = record_all es (w_report s) \<and> es \<noteq> []"
  using aliasing.pass_detects [OF aliased words nostop valid, of s] address_phase_of [of config]
  by fastforce

definition alias_drift :: "nat \<Rightarrow> mem \<Rightarrow> mem" where
  "alias_drift t m = store64 m 0x10800 (load64 m 0x10810)"

theorem address_alias_detected_witness:
  "\<exists>s' es. nxmt_runner_run_pass (demo_env alias_drift) (Some demo_arena)
      (Some (demo_config NXMT_MODE_QUICK False)) True True demo_state = Some (NXMT_STATUS_FAIL, s')
    \<and> w_report s' = record_all es (w_report demo_state) \<and> es \<noteq> []"
proof -
  let ?c = "demo_config NXMT_MODE_QUICK False"
  have addr: "word_addr demo_arena ?c 0 = 0x10800" "word_addr demo_arena ?c 2 = 0x10810"
    by (simp_all add: demo_slice widx_def) (simp_all add: demo_arena_def)
  have "aliased (demo_env alias_drift) demo_arena ?c"
    unfolding aliased_def
    by (rule exI [of _ 0], intro conjI, simp add: demo_slice, rule exI [of _ 2], intro conjI)
      (simp_all only: addr, simp_all add: demo_slice demo_env_def alias_drift_def)
  then show ?thesis
    by (rule address_alias_detected [OF demo_words demo_valid demo_not_stoppable])
qed

text \<open>
  Property C20.  The self test: with \<open>inject_mismatch\<close> set and a slice that is not empty, a pass
  on memory that keeps what is written returns \<open>FAIL\<close> with exactly one error per phase, at
  the first word of the slice, whose difference is \<open>0x100\<close>.
\<close>

theorem injected_mismatch_fails:
  assumes quiet: "quiet_slice env arena config" and words: "unat (a_words arena) < 2 ^ 61"
    and valid: "valid_args arena config" and inject: "inject_mismatch config"
    and count: "slice_count arena config > 0"
  shows "\<exists>s' es. nxmt_runner_run_pass env (Some arena) (Some config) True True s = Some (NXMT_STATUS_FAIL, s')
    \<and> w_report s' = record_all es (w_report s)
    \<and> map e_phase es = map (nth_phase config) [0..<phases_of config]
    \<and> (\<forall>e \<in> set es. e_offset e = slice_start arena config * 8 \<and> e_xor_diff e = 0x100)"
proof -
  have "kept_slice env arena config" "\<not> stoppable env config" using quiet by (simp_all add: quiet_def)
  with healthy.pass_returns [OF conjI [OF _ words] valid, of env s] obtain st s' where
    run: "nxmt_runner_run_pass env (Some arena) (Some config) True True s = Some (st, set_checksum s')"
    and inv: "quiet_inv env arena config (start_state config s) (phases_of config) s'"
    and st: "st = (if error_count (w_report s') \<noteq> error_count (w_report s)
                 then NXMT_STATUS_FAIL else NXMT_STATUS_PASS)"
    by (auto simp: quiet_stop_def)
  let ?es = "injected arena config (phases_of config)"
  have es: "?es = map (\<lambda>j. injected_error config (nth_phase config j) (slice_start arena config)) [0..<phases_of config]"
    using inject count by (simp add: injected_def)
  have report: "w_report s' = record_all ?es (w_report s)"
    using inv by (simp add: quiet_inv_def start_state_def)
  have phases: "phases_of config \<noteq> 0" "phases_of config \<le> 8"
    by (simp_all add: nxmt_phase_count_for_mode_def quick_phases_def memory_load_phases_def)
  then have "length ?es < 2 ^ 64" "?es \<noteq> []" by (simp_all add: es)
  then have "st = NXMT_STATUS_FAIL" using st error_count_changes [of ?es "w_report s"] by (simp add: report)
  moreover have "e_offset e = slice_start arena config * 8 \<and> e_xor_diff e = 0x100" if "e \<in> set ?es" for e
    using that inject
    by (auto simp: es injected_error_def word_error_def mk_error_def written_word_def expected_word_def)
  moreover have "map e_phase ?es = map (nth_phase config) [0..<phases_of config]"
    by (simp add: es injected_error_def word_error_def mk_error_def)
  ultimately show ?thesis
    using run report by (intro exI [of _ "set_checksum s'"] exI [of _ ?es]) (simp add: set_checksum_def)
qed

theorem injected_mismatch_fails_witness:
  "\<exists>s' es. nxmt_runner_run_pass (demo_env (\<lambda>_ m. m)) (Some demo_arena)
      (Some (demo_config NXMT_MODE_QUICK True)) True True demo_state = Some (NXMT_STATUS_FAIL, s')
    \<and> w_report s' = record_all es (w_report demo_state) \<and> length es = 3"
proof -
  let ?c = "demo_config NXMT_MODE_QUICK True"
  have "inject_mismatch ?c" "slice_count demo_arena ?c > 0"
    by (simp add: demo_config_def) (simp add: demo_slice)
  from injected_mismatch_fails [OF demo_quiet demo_words demo_valid this, of demo_state]
  obtain s' es where *: "nxmt_runner_run_pass (demo_env (\<lambda>_ m. m)) (Some demo_arena) (Some ?c) True True demo_state
      = Some (NXMT_STATUS_FAIL, s')" "w_report s' = record_all es (w_report demo_state)"
    and phases: "map e_phase es = map (nth_phase ?c) [0..<phases_of ?c]" by blast
  have "length es = phases_of ?c" using arg_cong [OF phases, of length] by simp
  then have "length es = 3"
    by (simp add: demo_config_def nxmt_phase_count_for_mode_def quick_phases_def)
  with * show ?thesis by blast
qed

text \<open>
  Property C15.  Workers do not interfere: a pass, finished or stopped at any point and on any
  memory, itself changes no byte of any other worker's slice: whichever of them the rest of
  the machine leaves alone is after the pass what it was before.
\<close>

theorem workers_do_not_interfere:
  assumes words: "unat (a_words arena) < 2 ^ 61" and valid: "valid_args arena config"
    and keeps: "keeps env (widx (a_base arena + nxmt_split_block_start (a_words arena) (c_worker_count config) j * 8) k
      + of_nat i)"
    and j: "j < c_worker_count config" "j \<noteq> c_worker_id config"
    and k: "k < unat (nxmt_split_block_size (a_words arena) (c_worker_count config) j)" and i: "i < 8"
  shows "\<exists>st s'. nxmt_runner_run_pass env (Some arena) (Some config) True True s = Some (st, s')
    \<and> w_mem s' (widx (a_base arena + nxmt_split_block_start (a_words arena) (c_worker_count config) j * 8) k + of_nat i)
      = w_mem s (widx (a_base arena + nxmt_split_block_start (a_words arena) (c_worker_count config) j * 8) k + of_nat i)"
proof -
  from frame.pass_returns [OF words valid, where s = s and env = env] obtain st s' where
    "nxmt_runner_run_pass env (Some arena) (Some config) True True s = Some (st, set_checksum s')"
    and "slice_tracked env arena config (start_state config s) s'" by blast
  moreover have "aligned8 (a_base arena)" "c_worker_id config < c_worker_count config"
    using valid by (simp_all add: valid_args_def)
  note slices_disjoint [OF words this j k i]
  ultimately show ?thesis using keeps
    by (intro exI [of _ st] exI [of _ "set_checksum s'"])
      (simp add: tracked_def set_checksum_def start_state_def)
qed

theorem workers_do_not_interfere_witness:
  "\<exists>st s'. nxmt_runner_run_pass (demo_env (\<lambda>_ m. m(0x10000 := 9))) (Some demo_arena)
      (Some (demo_config NXMT_MODE_QUICK True)) True True demo_state = Some (st, s') \<and> w_mem s' 0x10009 = 0"
proof -
  let ?c = "demo_config NXMT_MODE_QUICK True"
  have "(0 :: u32) < c_worker_count ?c" "0 \<noteq> c_worker_id ?c" by (simp_all add: demo_config_def)
  moreover have split: "nxmt_split_block_start (a_words demo_arena) (c_worker_count ?c) 0 = 0"
    "nxmt_split_block_size (a_words demo_arena) (c_worker_count ?c) 0 = 256"
    by (simp_all add: demo_arena_def demo_config_def nxmt_split_block_start_def nxmt_split_block_size_def
        word_less_nat_alt word_le_nat_alt)
  moreover have "1 < unat (nxmt_split_block_size (a_words demo_arena) (c_worker_count ?c) 0)" by (simp add: split)
  ultimately show ?thesis
    using workers_do_not_interfere [OF demo_words demo_valid [of NXMT_MODE_QUICK True], where j = 0 and k = 1
        and i = 1 and s = demo_state and env = "demo_env (\<lambda>_ m. m(0x10000 := 9))"]
    by (simp add: split demo_keeps widx_def demo_arena_def demo_state_def)
qed



end
